(* ===== verification/Prelude.thy ===== *)
theory Prelude
  imports
    Main
    "HOL-Library.Sublist"
    "HOL-Library.Char_ord"
    "HOL-Library.List_Lexorder"
    "HOL-Library.AList"
    "HOL-Library.Word"
begin

text \<open>
  Shared vocabulary of the development: the string operations of Go's \<open>strings\<close>
  package that the sources use, association lists standing for Go maps, 64-bit signed
  arithmetic, and the fact collections of the component theories.

  A Go \<open>string\<close> is a byte sequence, so it is HOL's \<open>string\<close> (a \<open>char\<close> is a
  byte); byte-wise comparison of Go strings is the lexicographic order of
  \<open>List_Lexorder\<close> over \<open>Char_ord\<close>. A Go map that is only looked up and updated
  is an association list with \<open>map_of\<close> and \<open>AList.update\<close>: the order of the list
  is never observed except through a sort.
\<close>

named_theorems go_string \<open>facts about the string operations\<close>
named_theorems tree_upd \<open>selectors of updated route nodes\<close>

type_synonym ('k, 'v) gomap = "('k \<times> 'v) list"

subsection \<open>strings\<close>

abbreviation has_prefix :: "string \<Rightarrow> string \<Rightarrow> bool" where
  "has_prefix s p \<equiv> prefix p s"

abbreviation has_suffix :: "string \<Rightarrow> string \<Rightarrow> bool" where
  "has_suffix s p \<equiv> suffix p s"

definition trim_prefix :: "string \<Rightarrow> string \<Rightarrow> string" where
  "trim_prefix s p = (if has_prefix s p then drop (length p) s else s)"

definition trim_suffix :: "string \<Rightarrow> string \<Rightarrow> string" where
  "trim_suffix s p = (if has_suffix s p then take (length s - length p) s else s)"

text \<open>\<open>strings.Split\<close> with a separator of one byte: \<open>n\<close> separators give \<open>n + 1\<close> parts.\<close>

fun split_on :: "char \<Rightarrow> string \<Rightarrow> string list" where
  "split_on c [] = [[]]"
| "split_on c (x # xs) =
     (if x = c then [] # split_on c xs
      else (case split_on c xs of [] \<Rightarrow> [[x]] | p # ps \<Rightarrow> (x # p) # ps))"

text \<open>\<open>strings.Join\<close>.\<close>

fun join_with :: "string \<Rightarrow> string list \<Rightarrow> string" where
  "join_with sep [] = []"
| "join_with sep [s] = s"
| "join_with sep (s # t # ts) = s @ sep @ join_with sep (t # ts)"

text \<open>\<open>strings.IndexByte\<close>: the position of the first \<open>c\<close>, or \<open>-1\<close>.\<close>

fun index_byte_from :: "int \<Rightarrow> string \<Rightarrow> char \<Rightarrow> int" where
  "index_byte_from i [] c = -1"
| "index_byte_from i (x # xs) c = (if x = c then i else index_byte_from (i + 1) xs c)"

definition index_byte :: "string \<Rightarrow> char \<Rightarrow> int" where
  "index_byte s c = index_byte_from 0 s c"

lemma has_suffix_append [simp]: "has_suffix (s @ p) p"
  by (simp add: suffix_def)

lemma trim_prefix_append [simp, go_string]: "trim_prefix (p @ s) p = s"
  by (simp add: trim_prefix_def)

lemma trim_prefix_Cons [simp, go_string]: "trim_prefix (c # s) [c] = s"
  by (simp add: trim_prefix_def)

lemma trim_suffix_append [simp, go_string]: "trim_suffix (s @ p) p = s"
  by (simp add: trim_suffix_def)

lemma split_on_nonempty [simp]: "split_on c s \<noteq> []"
  by (induction s) (auto split: list.split)

lemma split_on_no_sep [go_string]: "c \<notin> set s \<Longrightarrow> split_on c s = [s]"
  by (induction s) auto

lemma split_on_append [go_string]:
  "c \<notin> set s \<Longrightarrow> split_on c (s @ c # t) = s # split_on c t"
  by (induction s) auto

lemma split_on_sep_free: "p \<in> set (split_on c s) \<Longrightarrow> c \<notin> set p"
proof (induction s arbitrary: p)
  case Nil
  then show ?case by simp
next
  case (Cons x s)
  then show ?case
    by (cases "split_on c s") (auto split: if_splits)
qed

text \<open>Splitting and joining are inverse: no byte is lost or added.\<close>

lemma join_split [go_string]: "join_with [c] (split_on c s) = s"
proof (induction s)
  case Nil
  then show ?case by simp
next
  case (Cons x s)
  obtain p ps where p: "split_on c s = p # ps"
    by (cases "split_on c s") auto
  with Cons show ?case
    by (cases ps) auto
qed

subsection \<open>Signed 64-bit arithmetic\<close>

text \<open>
  \<open>int64\<close>, \<open>int\<close> and \<open>time.Duration\<close> values are HOL integers; an operation that
  can leave the range is wrapped with \<open>wrap64\<close>, two's complement as Go defines it.
\<close>

definition wrap64 :: "int \<Rightarrow> int" where
  "wrap64 n = (n + 2 ^ 63) mod 2 ^ 64 - 2 ^ 63"

lemma wrap64_id [simp]: "- (2 ^ 63) \<le> n \<Longrightarrow> n < 2 ^ 63 \<Longrightarrow> wrap64 n = n"
  by (simp add: wrap64_def)

lemma wrap64_range: "- (2 ^ 63) \<le> wrap64 n \<and> wrap64 n < 2 ^ 63"
  by (simp add: wrap64_def)

subsection \<open>Association lists as Go maps\<close>

lemma map_of_update [simp]: "map_of (AList.update k v al) = (map_of al)(k \<mapsto> v)"
  by (rule AList.update_conv')

lemma update_not_Nil [simp]: "AList.update k v al \<noteq> []"
  by (cases al) auto

lemma size_map_of_lt:
  "map_of al k = Some v \<Longrightarrow> f v < Suc (size_list (\<lambda>p. f (snd p)) al)"
  by (induction al) (auto split: if_splits)

end
