(* ===== verification/HttpWriter.thy ===== *)
theory HttpWriter
  imports Prelude
begin

text \<open>
  What the sources use of \<open>net/http\<close>, \<open>net/textproto\<close> and \<open>net\<close>: header maps with
  canonical keys, requests, and the textual address of the peer.
\<close>

subsection \<open>Strings\<close>

definition lower_char :: "char \<Rightarrow> char" where
  "lower_char c = (if CHR ''A'' \<le> c \<and> c \<le> CHR ''Z'' then char_of (of_char c + (32::nat)) else c)"

definition upper_char :: "char \<Rightarrow> char" where
  "upper_char c = (if CHR ''a'' \<le> c \<and> c \<le> CHR ''z'' then char_of (of_char c - (32::nat)) else c)"

text \<open>\<open>strings.ToLower\<close> on ASCII bytes; other bytes are kept.\<close>

definition to_lower :: "string \<Rightarrow> string" where
  "to_lower s = map lower_char s"

definition contains :: "string \<Rightarrow> string \<Rightarrow> bool" where
  "contains s p = list_ex (\<lambda>t. has_prefix t p) (suffixes s)"

definition bytes :: "nat list \<Rightarrow> string" where
  "bytes ns = map char_of ns"

text \<open>The UTF-8 encodings of the code points \<open>unicode.IsSpace\<close> accepts.\<close>

definition space_seqs :: "string list" where
  "space_seqs =
    [[CHR 0x09], [CHR 0x0A], [CHR 0x0B], [CHR 0x0C], [CHR 0x0D], [CHR 0x20],
     [CHR 0xC2, CHR 0x85], [CHR 0xC2, CHR 0xA0], [CHR 0xE1, CHR 0x9A, CHR 0x80],
     [CHR 0xE2, CHR 0x80, CHR 0xA8], [CHR 0xE2, CHR 0x80, CHR 0xA9],
     [CHR 0xE2, CHR 0x80, CHR 0xAF], [CHR 0xE2, CHR 0x81, CHR 0x9F],
     [CHR 0xE3, CHR 0x80, CHR 0x80], [CHR 0xE2, CHR 0x80, CHR 0x80],
     [CHR 0xE2, CHR 0x80, CHR 0x81], [CHR 0xE2, CHR 0x80, CHR 0x82],
     [CHR 0xE2, CHR 0x80, CHR 0x83], [CHR 0xE2, CHR 0x80, CHR 0x84],
     [CHR 0xE2, CHR 0x80, CHR 0x85], [CHR 0xE2, CHR 0x80, CHR 0x86],
     [CHR 0xE2, CHR 0x80, CHR 0x87], [CHR 0xE2, CHR 0x80, CHR 0x88],
     [CHR 0xE2, CHR 0x80, CHR 0x89], [CHR 0xE2, CHR 0x80, CHR 0x8A]]"

function trim_left_space :: "string \<Rightarrow> string" where
  "trim_left_space s =
     (case find (\<lambda>p. p \<noteq> [] \<and> has_prefix s p) space_seqs of
        None \<Rightarrow> s | Some p \<Rightarrow> trim_left_space (drop (length p) s))"
  by pat_completeness auto
termination
  by (relation "measure length") (auto simp: find_Some_iff prefix_def)

definition trim_right_space :: "string \<Rightarrow> string" where
  "trim_right_space s =
     (let step = (\<lambda>t. case find (\<lambda>p. has_suffix t p) space_seqs of
                        None \<Rightarrow> t | Some p \<Rightarrow> take (length t - length p) t)
      in (step ^^ length s) s)"

definition trim_space :: "string \<Rightarrow> string" where
  "trim_space s = trim_right_space (trim_left_space s)"

declare trim_left_space.simps [simp del]

subsection \<open>Headers\<close>

type_synonym header = "(string, string list) gomap"

text \<open>\<open>textproto.CanonicalMIMEHeaderKey\<close>: a key with a byte that is no token byte is kept.\<close>

definition token_char :: "char \<Rightarrow> bool" where
  "token_char c \<longleftrightarrow> (CHR ''a'' \<le> c \<and> c \<le> CHR ''z'') \<or> (CHR ''A'' \<le> c \<and> c \<le> CHR ''Z'')
     \<or> (CHR ''0'' \<le> c \<and> c \<le> CHR ''9'') \<or> c \<in> set ''!#$%&*+-.^_`|~'' \<or> c = char_of (39::nat)"

fun canonical_from :: "bool \<Rightarrow> string \<Rightarrow> string" where
  "canonical_from up [] = []"
| "canonical_from up (c # cs) = (if up then upper_char c else lower_char c) # canonical_from (c = CHR ''-'') cs"

definition canonical_key :: "string \<Rightarrow> string" where
  "canonical_key k = (if list_all token_char k then canonical_from True k else k)"

text \<open>Indexing the map, \<open>Header.Get\<close>, \<open>Set\<close>, \<open>Add\<close> and \<open>Del\<close>.\<close>

definition hindex :: "header \<Rightarrow> string \<Rightarrow> string list" where
  "hindex h k = (case map_of h k of None \<Rightarrow> [] | Some vs \<Rightarrow> vs)"

definition first_value :: "string list \<Rightarrow> string" where
  "first_value vs = (case vs of [] \<Rightarrow> [] | v # _ \<Rightarrow> v)"

definition header_get :: "header \<Rightarrow> string \<Rightarrow> string" where
  "header_get h k = first_value (hindex h (canonical_key k))"

definition header_set :: "string \<Rightarrow> string \<Rightarrow> header \<Rightarrow> header" where
  "header_set k v h = AList.update (canonical_key k) [v] h"

definition header_add :: "string \<Rightarrow> string \<Rightarrow> header \<Rightarrow> header" where
  "header_add k v h = AList.update (canonical_key k) (hindex h (canonical_key k) @ [v]) h"

definition header_del :: "string \<Rightarrow> header \<Rightarrow> header" where
  "header_del k h = AList.delete (canonical_key k) h"

text \<open>The pattern \<open>if len(h[key]) == 0 { h[key] = []string{v} } else { h[key][0] = v }\<close>.\<close>

definition header_put_first :: "string \<Rightarrow> string \<Rightarrow> header \<Rightarrow> header" where
  "header_put_first k v h =
     (case hindex h k of [] \<Rightarrow> AList.update k [v] h | _ # vs \<Rightarrow> AList.update k (v # vs) h)"

lemma hindex_update [simp]: "hindex (AList.update k vs h) k' = (if k' = k then vs else hindex h k')"
  by (simp add: hindex_def)

lemma hindex_put_first [simp]:
  "hindex (header_put_first k v h) k' = (if k' = k then v # tl (hindex h k) else hindex h k')"
  by (auto simp: header_put_first_def split: list.splits)

lemma header_get_set [simp]:
  "header_get (header_set k v h) k' = (if canonical_key k' = canonical_key k then v else header_get h k')"
  by (simp add: header_get_def header_set_def first_value_def)

lemma hindex_del [simp]: "hindex (header_del k h) k' = (if k' = canonical_key k then [] else hindex h k')"
  by (simp add: hindex_def header_del_def AList.delete_conv')

subsection \<open>Requests\<close>

text \<open>\<open>body_limits\<close> are the limits of the \<open>http.MaxBytesReader\<close>s around the body.\<close>

record Request =
  req_method :: string
  req_path :: string
  req_query :: header
  req_header :: header
  req_body :: string
  body_limits :: "int list"
  content_length :: int
  remote_addr :: string
  req_host :: string
  raw_query :: string
  req_proto :: string
  proto_major :: int
  req_tls :: bool

text \<open>What can be read of a body through the limits, and whether reading ends with an error.\<close>

fun body_view :: "int list \<Rightarrow> string \<Rightarrow> string \<times> bool" where
  "body_view [] b = (b, False)"
| "body_view (l # ls) b = (let m = foldr min ls l in (take (nat m) b, int (length b) > m))"

text \<open>\<open>net.SplitHostPort\<close>, its host only; \<open>None\<close> is an error.\<close>

definition last_index_byte :: "string \<Rightarrow> char \<Rightarrow> int" where
  "last_index_byte s c = (if c \<in> set s then int (length s) - 1 - index_byte (rev s) c else -1)"

definition split_host :: "string \<Rightarrow> string option" where
  "split_host hostport =
     (let i = last_index_byte hostport (CHR '':'')
      in if i < 0 then None
         else if hd hostport = CHR ''['' then
           (let e = index_byte hostport (CHR '']'')
            in if e < 0 \<or> e + 1 \<noteq> i then None
               else if CHR ''['' \<in> set (tl hostport) \<or> CHR '']'' \<in> set (drop (nat (e + 1)) hostport) then None
               else Some (take (nat (e - 1)) (tl hostport)))
         else if CHR '':'' \<in> set (take (nat i) hostport) then None
         else if CHR ''['' \<in> set hostport \<or> CHR '']'' \<in> set hostport then None
         else Some (take (nat i) hostport))"

text \<open>\<open>net.IPNet\<close> and its \<open>Contains\<close>; addresses and masks are lists of 4 or 16 bytes.\<close>

record IPNet =
  net_ip :: "8 word list"
  net_mask :: "8 word list"

definition to4 :: "8 word list \<Rightarrow> 8 word list option" where
  "to4 addr =
     (if length addr = 4 then Some addr
      else if length addr = 16 \<and> take 12 addr = replicate 10 0 @ [0xFF, 0xFF] then Some (drop 12 addr)
      else None)"

definition network_number_and_mask :: "IPNet \<Rightarrow> (8 word list \<times> 8 word list) option" where
  "network_number_and_mask n =
     (case (case to4 (net_ip n) of Some a \<Rightarrow> Some a
            | None \<Rightarrow> if length (net_ip n) = 16 then Some (net_ip n) else None) of
        None \<Rightarrow> None
      | Some nn \<Rightarrow>
          (if length (net_mask n) = 4 then (if length nn = 4 then Some (nn, net_mask n) else None)
           else if length (net_mask n) = 16 then
             Some (nn, if length nn = 4 then drop 12 (net_mask n) else net_mask n)
           else None))"

definition ipnet_contains :: "IPNet \<Rightarrow> 8 word list \<Rightarrow> bool" where
  "ipnet_contains n addr0 =
     (let addr = (case to4 addr0 of Some a \<Rightarrow> a | None \<Rightarrow> addr0)
      in case network_number_and_mask n of
           None \<Rightarrow> length addr = 0
         | Some (nn, m) \<Rightarrow>
             length addr = length nn \<and>
             list_all (\<lambda>(a, b, k). and a k = and b k) (zip nn (zip addr m)))"

end
