(* ===== verification/ConfigValidate.thy ===== *)
theory ConfigValidate
  imports HttpWriter
begin

text \<open>
  \<open>Config\<close> of \<open>config.go\<close>, its \<open>Validate\<close>, the check of the TLS files and
  \<open>LoadConfig\<close>. Durations are nanoseconds. \<open>Validate\<close> has a pointer receiver: it
  returns the configuration it leaves behind with its error, also when it fails.

  Arguments of the definitions: \<open>parse_cidr\<close> and \<open>parse_ip\<close> (\<open>net.ParseCIDR\<close>,
  \<open>net.ParseIP\<close>), the file system, \<open>tls.LoadX509KeyPair\<close>, and the \<open>confx\<close> loader.
\<close>

record Config =
  TLSCertFile :: string
  TLSKeyFile :: string
  MinTLSVersion :: int
  ReadTimeout :: int
  WriteTimeout :: int
  ReadHeaderTimeout :: int
  IdleTimeout :: int
  RequestTimeout :: int
  ShutdownTimeout :: int
  MaxHeaderBytes :: int
  MaxBodyBytes :: int
  QUICMaxIdleTimeout :: int
  QUICMaxIncomingStreams :: int
  QUICDrainTimeout :: int
  HealthPath :: string
  LivenessPath :: string
  ReadinessPath :: string
  LogLevel :: string
  AccessLogEnabled :: bool
  LogSuccessReq :: bool
  AccessLogSampleRate :: int
  AccessLogRedact :: "string list"
  AccessLogHeaders :: "string list"
  TrustedProxies :: "string list"
  SlowRequestThreshold :: int
  CORSAllowedOrigins :: "string list"
  CORSAllowedMethods :: "string list"
  CORSAllowedHeaders :: "string list"
  CORSExposeHeaders :: "string list"
  CORSMaxAge :: int
  CORSAllowCredentials :: bool
  CORSAllowPrivateNetwork :: bool
  MiddlewareRequestID :: bool
  MiddlewareCORS :: bool
  MiddlewareTimeout :: bool
  MiddlewareRecovery :: bool
  MiddlewareValidation :: bool
  MiddlewareGzip :: bool
  MiddlewareMetrics :: bool
  MiddlewareSecurity :: bool
  SecurityHSTSMaxAge :: int
  SecurityReferrerPolicy :: string
  SecurityPermissionsPolicy :: string
  SecurityCrossOriginOpenerPolicy :: string
  SecurityCrossOriginResourcePolicy :: string
  SecurityCrossOriginEmbedderPolicy :: string
  SecurityContentSecurityPolicy :: string
  SecurityContentSecurityPolicyReportOnly :: string
  SecurityHSTSIncludeSubDomains :: bool
  SecurityHSTSPreload :: bool
  SecurityOriginAgentCluster :: bool
  GzipMinSize :: int
  GzipLevel :: int
  Debug :: bool
  ErrorMessages :: "(string, string) gomap"
  trustedNets :: "IPNet list"

text \<open>The zero value \<open>var cfg Config\<close>.\<close>

definition zero_config :: Config where
  "zero_config =
   \<lparr>TLSCertFile = [], TLSKeyFile = [], MinTLSVersion = 0, ReadTimeout = 0, WriteTimeout = 0,
     ReadHeaderTimeout = 0, IdleTimeout = 0, RequestTimeout = 0, ShutdownTimeout = 0,
     MaxHeaderBytes = 0, MaxBodyBytes = 0, QUICMaxIdleTimeout = 0,
     QUICMaxIncomingStreams = 0, QUICDrainTimeout = 0, HealthPath = [], LivenessPath = [],
     ReadinessPath = [], LogLevel = [], AccessLogEnabled = False, LogSuccessReq = False,
     AccessLogSampleRate = 0, AccessLogRedact = [], AccessLogHeaders = [],
     TrustedProxies = [], SlowRequestThreshold = 0, CORSAllowedOrigins = [],
     CORSAllowedMethods = [], CORSAllowedHeaders = [], CORSExposeHeaders = [],
     CORSMaxAge = 0, CORSAllowCredentials = False, CORSAllowPrivateNetwork = False,
     MiddlewareRequestID = False, MiddlewareCORS = False, MiddlewareTimeout = False,
     MiddlewareRecovery = False, MiddlewareValidation = False, MiddlewareGzip = False,
     MiddlewareMetrics = False, MiddlewareSecurity = False, SecurityHSTSMaxAge = 0,
     SecurityReferrerPolicy = [], SecurityPermissionsPolicy = [],
     SecurityCrossOriginOpenerPolicy = [], SecurityCrossOriginResourcePolicy = [],
     SecurityCrossOriginEmbedderPolicy = [], SecurityContentSecurityPolicy = [],
     SecurityContentSecurityPolicyReportOnly = [], SecurityHSTSIncludeSubDomains = False,
     SecurityHSTSPreload = False, SecurityOriginAgentCluster = False, GzipMinSize = 0,
     GzipLevel = 0, Debug = False, ErrorMessages = [], trustedNets = []\<rparr>"

datatype config_error =
    TLSVersionInvalid int
  | NegativeField string
  | GzipLevelInvalid
  | TrustedProxyInvalid string
  | LogLevelInvalid string
  | FileMissing string
  | FileInaccessible string
  | FileIsDirectory string
  | TLSCertEmpty
  | TLSKeyEmpty
  | TLSPairInvalid
  | ManagerFailed
  | LoadFailed

definition second :: int where "second = 1000000000"
lemma second_pos [simp]: "0 < second" "0 \<le> second" "second \<noteq> 0"
  by (simp_all add: second_def)

definition VersionTLS12 :: int where "VersionTLS12 = 0x0303"
definition VersionTLS13 :: int where "VersionTLS13 = 0x0304"

definition tls_versions :: "int set" where
  "tls_versions = {VersionTLS12, VersionTLS13}"

definition log_levels :: "string set" where
  "log_levels = {''debug'', ''info'', ''warn'', ''error''}"

subsection \<open>Validate\<close>

text \<open>The statements of \<open>Validate\<close>, one step each, run until the first returns an error.\<close>

type_synonym config_step = "Config \<Rightarrow> Config \<times> config_error option"

definition reject_if :: "(Config \<Rightarrow> bool) \<Rightarrow> (Config \<Rightarrow> config_error) \<Rightarrow> config_step" where
  "reject_if p e c = (c, if p c then Some (e c) else None)"

definition assign_if :: "(Config \<Rightarrow> bool) \<Rightarrow> (Config \<Rightarrow> Config) \<Rightarrow> config_step" where
  "assign_if p f c = (if p c then f c else c, None)"

fun run_steps :: "config_step list \<Rightarrow> config_step" where
  "run_steps [] c = (c, None)"
| "run_steps (st # sts) c = (case st c of (c', Some e) \<Rightarrow> (c', Some e) | (c', None) \<Rightarrow> run_steps sts c')"

text \<open>
  The loop over \<open>TrustedProxies\<close>. The last parse cannot fail for an address; if it did,
  the network would be the nil one, which contains no address.
\<close>

fun trusted_loop ::
    "(string \<Rightarrow> IPNet option) \<Rightarrow> (string \<Rightarrow> 8 word list option) \<Rightarrow> string list \<Rightarrow> IPNet list \<Rightarrow> config_error + IPNet list" where
  "trusted_loop parse_cidr parse_ip [] nets = Inr nets"
| "trusted_loop parse_cidr parse_ip (entry # entries) nets =
     (case parse_cidr entry of
        Some n \<Rightarrow> trusted_loop parse_cidr parse_ip entries (nets @ [n])
      | None \<Rightarrow>
          (case parse_ip entry of
             None \<Rightarrow> Inl (TrustedProxyInvalid entry)
           | Some _ \<Rightarrow>
               (case parse_cidr (entry @ ''/32'') of
                  Some n \<Rightarrow> trusted_loop parse_cidr parse_ip entries (nets @ [n])
                | None \<Rightarrow> trusted_loop parse_cidr parse_ip entries (nets @ [\<lparr>net_ip = [], net_mask = []\<rparr>]))))"

definition trusted_step ::
    "(string \<Rightarrow> IPNet option) \<Rightarrow> (string \<Rightarrow> 8 word list option) \<Rightarrow> config_step" where
  "trusted_step parse_cidr parse_ip c =
     (if length (TrustedProxies c) > 0 then
        (case trusted_loop parse_cidr parse_ip (TrustedProxies c) [] of
           Inl e \<Rightarrow> (c, Some e) | Inr nets \<Rightarrow> (c\<lparr>trustedNets := nets\<rparr>, None))
      else (c, None))"

definition negative :: "(Config \<Rightarrow> int) \<Rightarrow> string \<Rightarrow> config_step" where
  "negative sel name = reject_if (\<lambda>c. sel c < 0) (\<lambda>_. NegativeField name)"

definition validate_steps ::
    "(string \<Rightarrow> IPNet option) \<Rightarrow> (string \<Rightarrow> 8 word list option) \<Rightarrow> config_step list" where
  "validate_steps parse_cidr parse_ip =
    [assign_if (\<lambda>c. MinTLSVersion c = 0) (\<lambda>c. c\<lparr>MinTLSVersion := VersionTLS12\<rparr>),
     reject_if (\<lambda>c. MinTLSVersion c \<notin> tls_versions) (\<lambda>c. TLSVersionInvalid (MinTLSVersion c)),
     negative ShutdownTimeout ''ShutdownTimeout'',
     negative RequestTimeout ''RequestTimeout'',
     negative ReadTimeout ''ReadTimeout'',
     negative WriteTimeout ''WriteTimeout'',
     negative ReadHeaderTimeout ''ReadHeaderTimeout'',
     negative IdleTimeout ''IdleTimeout'',
     negative MaxHeaderBytes ''MaxHeaderBytes'',
     negative MaxBodyBytes ''MaxBodyBytes'',
     negative AccessLogSampleRate ''AccessLogSampleRate'',
     negative SlowRequestThreshold ''SlowRequestThreshold'',
     negative GzipMinSize ''GzipMinSize'',
     reject_if (\<lambda>c. GzipLevel c < 0 \<or> GzipLevel c > 9) (\<lambda>_. GzipLevelInvalid),
     negative SecurityHSTSMaxAge ''SecurityHSTSMaxAge'',
     assign_if (\<lambda>c. MaxBodyBytes c = 0) (\<lambda>c. c\<lparr>MaxBodyBytes := 10 * 1024 * 1024\<rparr>),
     negative QUICMaxIdleTimeout ''QUICMaxIdleTimeout'',
     assign_if (\<lambda>c. QUICMaxIdleTimeout c = 0) (\<lambda>c. c\<lparr>QUICMaxIdleTimeout := 30 * second\<rparr>),
     negative QUICMaxIncomingStreams ''QUICMaxIncomingStreams'',
     assign_if (\<lambda>c. QUICMaxIncomingStreams c = 0) (\<lambda>c. c\<lparr>QUICMaxIncomingStreams := 100\<rparr>),
     negative QUICDrainTimeout ''QUICDrainTimeout'',
     assign_if (\<lambda>c. LogLevel c = []) (\<lambda>c. c\<lparr>LogLevel := ''info''\<rparr>),
     trusted_step parse_cidr parse_ip,
     reject_if (\<lambda>c. LogLevel c \<notin> log_levels) (\<lambda>c. LogLevelInvalid (LogLevel c)),
     assign_if (\<lambda>c. HealthPath c = []) (\<lambda>c. c\<lparr>HealthPath := ''/health''\<rparr>),
     assign_if (\<lambda>c. LivenessPath c = []) (\<lambda>c. c\<lparr>LivenessPath := ''/healthz''\<rparr>),
     assign_if (\<lambda>c. ReadinessPath c = []) (\<lambda>c. c\<lparr>ReadinessPath := ''/readyz''\<rparr>),
     assign_if (\<lambda>c. ReadHeaderTimeout c = 0) (\<lambda>c. c\<lparr>ReadHeaderTimeout := 10 * second\<rparr>),
     assign_if (\<lambda>c. IdleTimeout c = 0) (\<lambda>c. c\<lparr>IdleTimeout := 60 * second\<rparr>),
     assign_if (\<lambda>c. length (CORSAllowedOrigins c) = 0)
       (\<lambda>c. c\<lparr>CORSAllowedOrigins := [''*''],
              CORSAllowedMethods := [''GET'', ''POST'', ''PUT'', ''DELETE'', ''PATCH'', ''OPTIONS''],
              CORSAllowedHeaders := [''Origin'', ''Content-Type'', ''Accept'', ''Authorization'', ''X-Request-ID''],
              CORSExposeHeaders := [''X-Request-ID'']\<rparr>)]"

definition Validate ::
    "(string \<Rightarrow> IPNet option) \<Rightarrow> (string \<Rightarrow> 8 word list option) \<Rightarrow> config_step" where
  "Validate parse_cidr parse_ip c = run_steps (validate_steps parse_cidr parse_ip) c"

subsection \<open>TLS files and loading\<close>

datatype file_state = Missing | Inaccessible | Directory | Regular

definition isRegularFile :: "(string \<Rightarrow> file_state) \<Rightarrow> string \<Rightarrow> config_error option" where
  "isRegularFile stat path =
     (case stat path of
        Missing \<Rightarrow> Some (FileMissing path)
      | Inaccessible \<Rightarrow> Some (FileInaccessible path)
      | Directory \<Rightarrow> Some (FileIsDirectory path)
      | Regular \<Rightarrow> None)"

definition validateTLSConfig ::
    "(string \<Rightarrow> file_state) \<Rightarrow> (string \<Rightarrow> string \<Rightarrow> bool) \<Rightarrow> Config \<Rightarrow> config_error option" where
  "validateTLSConfig stat load_pair c =
     (if TLSCertFile c = [] then Some TLSCertEmpty
      else (case isRegularFile stat (TLSCertFile c) of
              Some e \<Rightarrow> Some e
            | None \<Rightarrow>
                (if TLSKeyFile c = [] then Some TLSKeyEmpty
                 else (case isRegularFile stat (TLSKeyFile c) of
                         Some e \<Rightarrow> Some e
                       | None \<Rightarrow> if load_pair (TLSCertFile c) (TLSKeyFile c) then None else Some TLSPairInvalid))))"

definition LoadConfig ::
    "bool \<Rightarrow> (string \<Rightarrow> Config \<times> bool) \<Rightarrow> (string \<Rightarrow> IPNet option) \<Rightarrow> (string \<Rightarrow> 8 word list option)
      \<Rightarrow> string \<Rightarrow> Config \<times> config_error option" where
  "LoadConfig manager_ok load parse_cidr parse_ip path =
     (if \<not> manager_ok then (zero_config, Some ManagerFailed)
      else (case load path of
              (cfg, False) \<Rightarrow> (cfg, Some LoadFailed)
            | (cfg, True) \<Rightarrow> Validate parse_cidr parse_ip cfg))"

subsection \<open>What Validate accepts and what it leaves\<close>

definition config_ok ::
    "(string \<Rightarrow> IPNet option) \<Rightarrow> (string \<Rightarrow> 8 word list option) \<Rightarrow> Config \<Rightarrow> bool" where
  "config_ok parse_cidr parse_ip c \<longleftrightarrow>
     0 \<le> ShutdownTimeout c \<and> 0 \<le> RequestTimeout c \<and> 0 \<le> ReadTimeout c
      \<and> 0 \<le> WriteTimeout c \<and> 0 \<le> ReadHeaderTimeout c \<and> 0 \<le> IdleTimeout c
      \<and> 0 \<le> MaxHeaderBytes c \<and> 0 \<le> MaxBodyBytes c \<and> 0 \<le> AccessLogSampleRate c
      \<and> 0 \<le> SlowRequestThreshold c \<and> 0 \<le> GzipMinSize c \<and> 0 \<le> SecurityHSTSMaxAge c
      \<and> 0 \<le> QUICMaxIdleTimeout c \<and> 0 \<le> QUICMaxIncomingStreams c \<and> 0 \<le> QUICDrainTimeout c
     \<and> (MinTLSVersion c = 0 \<or> MinTLSVersion c \<in> tls_versions)
     \<and> 0 \<le> GzipLevel c \<and> GzipLevel c \<le> 9
     \<and> (LogLevel c = [] \<or> LogLevel c \<in> log_levels)
     \<and> list_all (\<lambda>entry. parse_cidr entry \<noteq> None \<or> parse_ip entry \<noteq> None) (TrustedProxies c)"

text \<open>The network an entry stands for.\<close>

definition entry_net :: "(string \<Rightarrow> IPNet option) \<Rightarrow> string \<Rightarrow> IPNet" where
  "entry_net parse_cidr entry =
     (case parse_cidr entry of
        Some n \<Rightarrow> n
      | None \<Rightarrow> (case parse_cidr (entry @ ''/32'') of Some n \<Rightarrow> n | None \<Rightarrow> \<lparr>net_ip = [], net_mask = []\<rparr>))"

definition with_defaults :: "(string \<Rightarrow> IPNet option) \<Rightarrow> Config \<Rightarrow> Config" where
  "with_defaults parse_cidr c =
     c\<lparr>MinTLSVersion := if MinTLSVersion c = 0 then VersionTLS12 else MinTLSVersion c,
         MaxBodyBytes := if MaxBodyBytes c = 0 then 10 * 1024 * 1024 else MaxBodyBytes c,
         QUICMaxIdleTimeout := if QUICMaxIdleTimeout c = 0 then 30 * second else QUICMaxIdleTimeout c,
         QUICMaxIncomingStreams := if QUICMaxIncomingStreams c = 0 then 100 else QUICMaxIncomingStreams c,
         LogLevel := if LogLevel c = [] then ''info'' else LogLevel c,
         trustedNets := if TrustedProxies c = [] then trustedNets c else map (entry_net parse_cidr) (TrustedProxies c),
         HealthPath := if HealthPath c = [] then ''/health'' else HealthPath c,
         LivenessPath := if LivenessPath c = [] then ''/healthz'' else LivenessPath c,
         ReadinessPath := if ReadinessPath c = [] then ''/readyz'' else ReadinessPath c,
         ReadHeaderTimeout := if ReadHeaderTimeout c = 0 then 10 * second else ReadHeaderTimeout c,
         IdleTimeout := if IdleTimeout c = 0 then 60 * second else IdleTimeout c,
         CORSAllowedOrigins := if CORSAllowedOrigins c = [] then [''*''] else CORSAllowedOrigins c,
         CORSAllowedMethods := if CORSAllowedOrigins c = [] then [''GET'', ''POST'', ''PUT'', ''DELETE'', ''PATCH'', ''OPTIONS''] else CORSAllowedMethods c,
         CORSAllowedHeaders := if CORSAllowedOrigins c = [] then [''Origin'', ''Content-Type'', ''Accept'', ''Authorization'', ''X-Request-ID''] else CORSAllowedHeaders c,
         CORSExposeHeaders := if CORSAllowedOrigins c = [] then [''X-Request-ID''] else CORSExposeHeaders c\<rparr>"

lemma trusted_loop_Inr:
  "trusted_loop parse_cidr parse_ip entries nets = Inr r \<longleftrightarrow>
   list_all (\<lambda>entry. parse_cidr entry \<noteq> None \<or> parse_ip entry \<noteq> None) entries
   \<and> r = nets @ map (entry_net parse_cidr) entries"
  by (induction entries arbitrary: nets) (auto simp: entry_net_def split: option.split)

lemma run_reject:
  "run_steps (reject_if p e # sts) c = (c', None) \<longleftrightarrow> \<not> p c \<and> run_steps sts c = (c', None)"
  by (simp add: reject_if_def)

lemma run_assign: "run_steps (assign_if p f # sts) c = run_steps sts (if p c then f c else c)"
  by (simp add: assign_if_def)

lemma run_trusted:
  "run_steps (trusted_step parse_cidr parse_ip # sts) c = (c', None) \<longleftrightarrow>
   list_all (\<lambda>entry. parse_cidr entry \<noteq> None \<or> parse_ip entry \<noteq> None) (TrustedProxies c)
   \<and> run_steps sts (c\<lparr>trustedNets := if TrustedProxies c = [] then trustedNets c
        else map (entry_net parse_cidr) (TrustedProxies c)\<rparr>) = (c', None)"
proof (cases "list_all (\<lambda>entry. parse_cidr entry \<noteq> None \<or> parse_ip entry \<noteq> None) (TrustedProxies c)")
  case True
  then have "trusted_loop parse_cidr parse_ip (TrustedProxies c) [] = Inr (map (entry_net parse_cidr) (TrustedProxies c))"
    using trusted_loop_Inr by fastforce
  with True show ?thesis by (simp add: trusted_step_def)
next
  case False
  obtain e where "trusted_loop parse_cidr parse_ip (TrustedProxies c) [] = Inl e"
  proof (cases "trusted_loop parse_cidr parse_ip (TrustedProxies c) []")
    case (Inr r)
    with False show ?thesis using trusted_loop_Inr by blast
  qed (use that in blast)
  moreover have "TrustedProxies c \<noteq> []" using False by auto
  ultimately have "run_steps (trusted_step parse_cidr parse_ip # sts) c = (c, Some e)"
    by (simp add: trusted_step_def)
  with False show ?thesis by (simp only: prod.inject option.distinct simp_thms)
qed

declare run_steps.simps(2) [simp del]

lemma update_if:
  "(if b then c\<lparr>MinTLSVersion := v0\<rparr> else c) = c\<lparr>MinTLSVersion := if b then v0 else MinTLSVersion c\<rparr>"
  "(if b then c\<lparr>MaxBodyBytes := v1\<rparr> else c) = c\<lparr>MaxBodyBytes := if b then v1 else MaxBodyBytes c\<rparr>"
  "(if b then c\<lparr>QUICMaxIdleTimeout := v2\<rparr> else c) = c\<lparr>QUICMaxIdleTimeout := if b then v2 else QUICMaxIdleTimeout c\<rparr>"
  "(if b then c\<lparr>QUICMaxIncomingStreams := v3\<rparr> else c) = c\<lparr>QUICMaxIncomingStreams := if b then v3 else QUICMaxIncomingStreams c\<rparr>"
  "(if b then c\<lparr>LogLevel := v4\<rparr> else c) = c\<lparr>LogLevel := if b then v4 else LogLevel c\<rparr>"
  "(if b then c\<lparr>HealthPath := v5\<rparr> else c) = c\<lparr>HealthPath := if b then v5 else HealthPath c\<rparr>"
  "(if b then c\<lparr>LivenessPath := v6\<rparr> else c) = c\<lparr>LivenessPath := if b then v6 else LivenessPath c\<rparr>"
  "(if b then c\<lparr>ReadinessPath := v7\<rparr> else c) = c\<lparr>ReadinessPath := if b then v7 else ReadinessPath c\<rparr>"
  "(if b then c\<lparr>ReadHeaderTimeout := v8\<rparr> else c) = c\<lparr>ReadHeaderTimeout := if b then v8 else ReadHeaderTimeout c\<rparr>"
  "(if b then c\<lparr>IdleTimeout := v9\<rparr> else c) = c\<lparr>IdleTimeout := if b then v9 else IdleTimeout c\<rparr>"
  "(if b then c\<lparr>CORSAllowedOrigins := w1, CORSAllowedMethods := w2, CORSAllowedHeaders := w3, CORSExposeHeaders := w4\<rparr> else c) =
     c\<lparr>CORSAllowedOrigins := if b then w1 else CORSAllowedOrigins c, CORSAllowedMethods := if b then w2 else CORSAllowedMethods c,
       CORSAllowedHeaders := if b then w3 else CORSAllowedHeaders c, CORSExposeHeaders := if b then w4 else CORSExposeHeaders c\<rparr>"
  by simp_all

lemma default_in [simp]:
  "(if x = 0 then VersionTLS12 else x) \<in> tls_versions \<longleftrightarrow> x = 0 \<or> x \<in> tls_versions"
  "(if l = [] then ''info'' else l) \<in> log_levels \<longleftrightarrow> l = [] \<or> l \<in> log_levels"
  by (auto simp: tls_versions_def log_levels_def)

lemmas run_validate = run_reject run_assign run_trusted update_if

lemma Validate_run:
  "Validate parse_cidr parse_ip c = (c', None) \<longleftrightarrow>
   config_ok parse_cidr parse_ip c \<and> with_defaults parse_cidr c = c'"
  unfolding Validate_def validate_steps_def negative_def config_ok_def with_defaults_def
  by (simp add: run_validate not_less cong: if_cong split del: if_split) argo

text \<open>C38. What \<open>Validate\<close> accepts and what it leaves: it succeeds exactly for the configurations
  whose limits are not negative (with the gzip level at most 9), whose TLS version is 1.2,
  1.3 or unset, whose log level is known or unset and whose trusted proxies all parse, and
  then every unset limit, path, version and CORS list has its default, no other setting
  is touched, and each proxy entry has its network.\<close>

theorem validate_accepts:
  "(snd (Validate parse_cidr parse_ip c) = None \<longleftrightarrow> config_ok parse_cidr parse_ip c)
   \<and> (if config_ok parse_cidr parse_ip c
      then fst (Validate parse_cidr parse_ip c) = with_defaults parse_cidr c else True)"
proof (cases "config_ok parse_cidr parse_ip c")
  case True
  then have "Validate parse_cidr parse_ip c = (with_defaults parse_cidr c, None)"
    by (simp only: Validate_run)
  with True show ?thesis by (simp only: prod.sel simp_thms if_True)
next
  case False
  have "snd (Validate parse_cidr parse_ip c) \<noteq> None"
  proof
    assume "snd (Validate parse_cidr parse_ip c) = None"
    then have "Validate parse_cidr parse_ip c = (fst (Validate parse_cidr parse_ip c), None)"
      by (simp only: prod_eq_iff prod.sel simp_thms)
    then show False using False by (simp only: Validate_run simp_thms)
  qed
  with False show ?thesis by (simp only: simp_thms if_False)
qed

text \<open>The ranges a server may rely on.\<close>

definition valid_config :: "Config \<Rightarrow> bool" where
  "valid_config c \<longleftrightarrow>
     MinTLSVersion c \<in> tls_versions \<and> LogLevel c \<in> log_levels \<and> CORSAllowedOrigins c \<noteq> []
     \<and> 0 < MaxBodyBytes c \<and> 0 < QUICMaxIdleTimeout c \<and> 0 < QUICMaxIncomingStreams c
     \<and> 0 < ReadHeaderTimeout c \<and> 0 < IdleTimeout c
     \<and> 0 \<le> RequestTimeout c \<and> 0 \<le> ShutdownTimeout c \<and> 0 \<le> GzipLevel c \<and> GzipLevel c \<le> 9
     \<and> HealthPath c \<noteq> [] \<and> LivenessPath c \<noteq> [] \<and> ReadinessPath c \<noteq> []
     \<and> (TrustedProxies c = [] \<or> length (trustedNets c) = length (TrustedProxies c))"

lemma defaults_valid: "config_ok parse_cidr parse_ip c \<Longrightarrow> valid_config (with_defaults parse_cidr c)"
  unfolding config_ok_def valid_config_def with_defaults_def
  by (simp split del: if_split) (simp add: tls_versions_def log_levels_def)

lemma defaults_ok: "config_ok parse_cidr parse_ip c \<Longrightarrow> config_ok parse_cidr parse_ip (with_defaults parse_cidr c)"
  unfolding config_ok_def with_defaults_def
  by simp

lemma defaults_twice:
  "config_ok parse_cidr parse_ip c \<Longrightarrow>
   with_defaults parse_cidr (with_defaults parse_cidr c) = with_defaults parse_cidr c"
  by (rule Config.equality) (simp_all add: with_defaults_def VersionTLS12_def)

text \<open>A configuration that \<open>Validate\<close> has accepted is in range, and validating it again (as
  \<open>Start\<close> does after \<open>LoadConfig\<close>) accepts it and changes nothing.\<close>

theorem validate_idempotent:
  assumes "Validate parse_cidr parse_ip c = (c', None)"
  shows "valid_config c' \<and> Validate parse_cidr parse_ip c' = (c', None)"
proof -
  from assms have ok: "config_ok parse_cidr parse_ip c" and c': "c' = with_defaults parse_cidr c"
    by (simp_all only: Validate_run simp_thms)
  from defaults_ok [OF ok] defaults_twice [OF ok] have "Validate parse_cidr parse_ip c' = (c', None)"
    by (simp only: Validate_run c')
  with defaults_valid [OF ok] c' show ?thesis by simp
qed

theorem validate_idempotent_witness:
  "Validate (\<lambda>_. None) (\<lambda>_. None) (with_defaults (\<lambda>_. None) zero_config) =
     (with_defaults (\<lambda>_. None) zero_config, None)"
proof -
  have "Validate (\<lambda>_. None) (\<lambda>_. None) zero_config = (with_defaults (\<lambda>_. None) zero_config, None)"
    by (simp only: Validate_run) (simp add: config_ok_def zero_config_def)
  from validate_idempotent [OF this] show ?thesis by (rule conjunct2)
qed

end
