(* ===== verification/MiddlewareManager.thy ===== *)
theory MiddlewareManager
  imports Prelude
begin

text \<open>
  \<open>middleware.Manager\<close>: which built-in middlewares run, in which order, and with which
  handlers. The type variable is the type \<open>Middleware\<close>; a Go map used as a set of keys is
  the list of its keys. The lock of every method makes it atomic, so the methods are
  functions on the record.
\<close>

record 'm Manager =
  builtins :: "(string, 'm) gomap"
  overrides :: "(string, 'm) gomap"
  disabled :: "string list"
  order :: "string list"
  extras :: "'m list"

definition NewManager :: "'m Manager" where
  "NewManager =
    \<lparr>builtins = [], overrides = [], disabled = [''rate_limit''],
     order = [''recovery'', ''request_id'', ''body_limit'', ''concurrency_limit'', ''timeout'', ''cors'',
       ''validation'', ''security'', ''gzip'', ''rate_limit'', ''metrics'', ''access_log''],
     extras = []\<rparr>"

definition RegisterBuiltin :: "string \<Rightarrow> 'm \<Rightarrow> 'm Manager \<Rightarrow> 'm Manager" where
  "RegisterBuiltin key handler m = m\<lparr>builtins := AList.update key handler (builtins m)\<rparr>"

definition Override :: "string \<Rightarrow> 'm \<Rightarrow> 'm Manager \<Rightarrow> 'm Manager" where
  "Override mt handler m = m\<lparr>overrides := AList.update mt handler (overrides m)\<rparr>"

definition Disable :: "string list \<Rightarrow> 'm Manager \<Rightarrow> 'm Manager" where
  "Disable mts m = m\<lparr>disabled := fold List.insert mts (disabled m)\<rparr>"

fun enable_loop :: "string list \<Rightarrow> string list \<Rightarrow> string list" where
  "enable_loop [] ds = ds"
| "enable_loop (t # ts) ds = (if t = ''rate_limit'' then enable_loop ts ds else enable_loop ts (removeAll t ds))"

definition Enable :: "string list \<Rightarrow> 'm Manager \<Rightarrow> 'm Manager" where
  "Enable mts m = m\<lparr>disabled := enable_loop mts (disabled m)\<rparr>"

definition EnableRateLimit :: "'m \<Rightarrow> 'm Manager \<Rightarrow> 'm Manager" where
  "EnableRateLimit handler m =
     m\<lparr>builtins := AList.update ''rate_limit'' handler (builtins m),
       disabled := removeAll ''rate_limit'' (disabled m)\<rparr>"

definition DisableRateLimit :: "'m Manager \<Rightarrow> 'm Manager" where
  "DisableRateLimit m =
     m\<lparr>disabled := List.insert ''rate_limit'' (disabled m),
       builtins := AList.delete ''rate_limit'' (builtins m)\<rparr>"

definition Append :: "'m list \<Rightarrow> 'm Manager \<Rightarrow> 'm Manager" where
  "Append hs m = m\<lparr>extras := extras m @ hs\<rparr>"

definition SetOrder :: "string list \<Rightarrow> 'm Manager \<Rightarrow> 'm Manager" where
  "SetOrder keys m =
     (let ord = filter (\<lambda>k. k \<in> set (order m)) keys
      in if length ord > 0 then m\<lparr>order := ord\<rparr> else m)"

text \<open>The loop of \<open>Build\<close>, and \<open>Build\<close>.\<close>

fun build_loop :: "'m Manager \<Rightarrow> string list \<Rightarrow> 'm list \<Rightarrow> 'm list" where
  "build_loop m [] chain = chain"
| "build_loop m (key # keys) chain =
     (if key \<in> set (disabled m) then build_loop m keys chain
      else (case map_of (overrides m) key of
              Some h \<Rightarrow> build_loop m keys (chain @ [h])
            | None \<Rightarrow> (case map_of (builtins m) key of
                        Some h \<Rightarrow> build_loop m keys (chain @ [h])
                      | None \<Rightarrow> build_loop m keys chain)))"

definition Build :: "'m Manager \<Rightarrow> 'm list" where
  "Build m = build_loop m (order m) [] @ extras m"

text \<open>
  What stands for a key: nothing when it is disabled or has no handler, else the
  override before the built-in.
\<close>

definition effective :: "'m Manager \<Rightarrow> string \<Rightarrow> 'm option" where
  "effective m key =
     (if key \<in> set (disabled m) then None
      else (case map_of (overrides m) key of Some h \<Rightarrow> Some h | None \<Rightarrow> map_of (builtins m) key))"

lemma Build_effective: "Build m = List.map_filter (effective m) (order m) @ extras m"
proof -
  have "build_loop m keys chain = chain @ List.map_filter (effective m) keys" for keys chain
    by (induction keys arbitrary: chain) (auto simp: map_filter_simps effective_def split: option.split)
  then show ?thesis by (simp add: Build_def)
qed

subsection \<open>Sequences of operations\<close>

datatype 'm manager_op =
    Op_RegisterBuiltin string 'm
  | Op_Override string 'm
  | Op_Disable "string list"
  | Op_Enable "string list"
  | Op_EnableRateLimit 'm
  | Op_DisableRateLimit
  | Op_Append "'m list"
  | Op_SetOrder "string list"

fun apply_manager_op :: "'m manager_op \<Rightarrow> 'm Manager \<Rightarrow> 'm Manager" where
  "apply_manager_op (Op_RegisterBuiltin k h) m = RegisterBuiltin k h m"
| "apply_manager_op (Op_Override k h) m = Override k h m"
| "apply_manager_op (Op_Disable ks) m = Disable ks m"
| "apply_manager_op (Op_Enable ks) m = Enable ks m"
| "apply_manager_op (Op_EnableRateLimit h) m = EnableRateLimit h m"
| "apply_manager_op Op_DisableRateLimit m = DisableRateLimit m"
| "apply_manager_op (Op_Append hs) m = Append hs m"
| "apply_manager_op (Op_SetOrder ks) m = SetOrder ks m"

lemmas manager_defs = RegisterBuiltin_def Override_def Disable_def Enable_def EnableRateLimit_def
  DisableRateLimit_def Append_def SetOrder_def Let_def

lemma set_enable_loop [simp]: "set (enable_loop ts ds) = set ds - (set ts - {''rate_limit''})"
  by (induction ts arbitrary: ds) auto

lemma set_fold_insert [simp]: "set (fold List.insert ks ds) = set ks \<union> set ds"
  by (induction ks arbitrary: ds) auto

text \<open>The switch of a key as the operations set it, \<open>True\<close> for enabled.\<close>

fun switch :: "string \<Rightarrow> 'm manager_op \<Rightarrow> bool \<Rightarrow> bool" where
  "switch k (Op_Disable ks) b = (b \<and> k \<notin> set ks)"
| "switch k (Op_Enable ks) b = (b \<or> (k \<in> set ks \<and> k \<noteq> ''rate_limit''))"
| "switch k (Op_EnableRateLimit h) b = (b \<or> k = ''rate_limit'')"
| "switch k Op_DisableRateLimit b = (b \<and> k \<noteq> ''rate_limit'')"
| "switch k _ b = b"

lemma disabled_apply:
  "k \<notin> set (disabled (apply_manager_op op m)) \<longleftrightarrow> switch k op (k \<notin> set (disabled m))"
  by (cases op) (auto simp: manager_defs)

text \<open>Rate limiting is never on by accident: after any operations on a new manager it is
  enabled exactly when the last of \<open>EnableRateLimit\<close>, \<open>DisableRateLimit\<close> and a
  \<open>Disable\<close> naming it was \<open>EnableRateLimit\<close> (\<open>Enable\<close> never switches it on), and whenever
  it is enabled a handler for it is installed, so it takes its place in the chain.\<close>

theorem rate_limit_switch:
  fixes ops :: "'m manager_op list"
  shows "(effective (fold apply_manager_op ops NewManager) ''rate_limit'' \<noteq> None) =
    fold (switch ''rate_limit'') ops False"
proof -
  have dis: "(k \<notin> set (disabled (fold apply_manager_op ops m))) = fold (switch k) ops (k \<notin> set (disabled m))"
    for k and m :: "'m Manager"
    by (induction ops arbitrary: m) (simp_all add: disabled_apply)
  have inv: "''rate_limit'' \<notin> set (disabled m) \<longrightarrow> map_of (builtins m) ''rate_limit'' \<noteq> None \<Longrightarrow>
      ''rate_limit'' \<notin> set (disabled (fold apply_manager_op ops m)) \<longrightarrow>
      map_of (builtins (fold apply_manager_op ops m)) ''rate_limit'' \<noteq> None" for m :: "'m Manager"
  proof (induction ops arbitrary: m)
    case Nil
    then show ?case by simp
  next
    case (Cons op ops)
    have "''rate_limit'' \<notin> set (disabled (apply_manager_op op m)) \<longrightarrow>
        map_of (builtins (apply_manager_op op m)) ''rate_limit'' \<noteq> None"
      using Cons.prems by (cases op) (auto simp: manager_defs)
    from Cons.IH [OF this] show ?case by simp
  qed
  let ?m = "fold apply_manager_op ops (NewManager :: 'm Manager)"
  have "(''rate_limit'' \<notin> set (disabled ?m)) = fold (switch ''rate_limit'') ops False"
    using dis [of "''rate_limit''" NewManager] by (simp add: NewManager_def)
  moreover have "''rate_limit'' \<notin> set (disabled ?m) \<longrightarrow> map_of (builtins ?m) ''rate_limit'' \<noteq> None"
    by (rule inv) (simp add: NewManager_def)
  ultimately show ?thesis
    by (auto simp: effective_def split: option.splits)
qed

text \<open>The chain respects the configured order: \<open>Build\<close> yields, for the keys of the order one
  by one, the override or else the built-in of an enabled key, and the external middlewares
  last; and \<open>SetOrder\<close> can only select known keys, so no operation ever brings an unknown
  key into the order.\<close>

theorem build_order:
  fixes ops :: "'m manager_op list"
  shows "Build (fold apply_manager_op ops NewManager) =
      List.map_filter (effective (fold apply_manager_op ops NewManager)) (order (fold apply_manager_op ops NewManager))
      @ extras (fold apply_manager_op ops NewManager)
    \<and> set (order (fold apply_manager_op ops NewManager)) \<subseteq> set (order (NewManager :: 'm Manager))
    \<and> order (fold apply_manager_op ops NewManager) \<noteq> []"
proof -
  have "set (order (fold apply_manager_op ops m)) \<subseteq> set (order m)
      \<and> (order m \<noteq> [] \<longrightarrow> order (fold apply_manager_op ops m) \<noteq> [])" for m :: "'m Manager"
  proof (induction ops arbitrary: m)
    case (Cons op ops)
    have "set (order (apply_manager_op op m)) \<subseteq> set (order m) \<and> (order m \<noteq> [] \<longrightarrow> order (apply_manager_op op m) \<noteq> [])"
      by (cases op) (auto simp: manager_defs)
    with Cons.IH [of "apply_manager_op op m"] show ?case by auto
  qed simp
  from this [of NewManager] show ?thesis
    by (simp add: Build_effective) (simp add: NewManager_def)
qed

text \<open>\<open>SetOrder\<close> does not check for repetitions: a key given twice puts its middleware into the
  chain twice.\<close>

theorem set_order_repeats:
  "Build (SetOrder [''cors'', ''cors''] (RegisterBuiltin ''cors'' h NewManager)) = [h, h]"
  by (simp add: Build_effective map_filter_simps effective_def SetOrder_def RegisterBuiltin_def NewManager_def)

end
