(* ===== verification/RouteGroups.thy ===== *)
theory RouteGroups
  imports Prelude "HOL-Library.Multiset"
begin

text \<open>
  \<open>Route\<close> and \<open>RouteGroup\<close> of \<open>route.go\<close>. Groups are shared through pointers (a callback
  keeps using a sub-group after it was linked into its parent), so they live in a store:
  a list of groups in which a pointer is a position. A callback is the sequence of the
  calls it makes.
\<close>

record 'c Route =
  Method :: string
  Path :: string
  Handler :: 'c
  Middleware :: "'c list"
  Group_of :: string

record 'c RouteGroup =
  prefix_of :: string
  routes_of :: "'c Route list"
  groups_of :: "nat list"
  middleware_of :: "'c list"

definition new_group :: "string \<Rightarrow> 'c list \<Rightarrow> 'c RouteGroup" where
  "new_group pre mw = \<lparr>prefix_of = pre, routes_of = [], groups_of = [], middleware_of = mw\<rparr>"

definition register_route :: "string \<Rightarrow> string \<Rightarrow> 'c \<Rightarrow> 'c list \<Rightarrow> 'c RouteGroup \<Rightarrow> 'c RouteGroup" where
  "register_route method path handler mw rg =
     rg\<lparr>routes_of := routes_of rg @
       [\<lparr>Method = method, Path = prefix_of rg @ path, Handler = handler,
         Middleware = middleware_of rg @ mw, Group_of = prefix_of rg\<rparr>]\<rparr>"

definition GET :: "string \<Rightarrow> 'c \<Rightarrow> 'c list \<Rightarrow> 'c RouteGroup \<Rightarrow> 'c RouteGroup" where
  "GET = register_route ''GET''"
definition POST :: "string \<Rightarrow> 'c \<Rightarrow> 'c list \<Rightarrow> 'c RouteGroup \<Rightarrow> 'c RouteGroup" where
  "POST = register_route ''POST''"
definition PUT :: "string \<Rightarrow> 'c \<Rightarrow> 'c list \<Rightarrow> 'c RouteGroup \<Rightarrow> 'c RouteGroup" where
  "PUT = register_route ''PUT''"
definition DELETE :: "string \<Rightarrow> 'c \<Rightarrow> 'c list \<Rightarrow> 'c RouteGroup \<Rightarrow> 'c RouteGroup" where
  "DELETE = register_route ''DELETE''"
definition PATCH :: "string \<Rightarrow> 'c \<Rightarrow> 'c list \<Rightarrow> 'c RouteGroup \<Rightarrow> 'c RouteGroup" where
  "PATCH = register_route ''PATCH''"
definition HEAD :: "string \<Rightarrow> 'c \<Rightarrow> 'c list \<Rightarrow> 'c RouteGroup \<Rightarrow> 'c RouteGroup" where
  "HEAD = register_route ''HEAD''"
definition OPTIONS :: "string \<Rightarrow> 'c \<Rightarrow> 'c list \<Rightarrow> 'c RouteGroup \<Rightarrow> 'c RouteGroup" where
  "OPTIONS = register_route ''OPTIONS''"

definition Use :: "'c list \<Rightarrow> 'c RouteGroup \<Rightarrow> 'c RouteGroup" where
  "Use mw rg = rg\<lparr>middleware_of := middleware_of rg @ mw\<rparr>"

text \<open>\<open>Group\<close>: the new group is allocated and its pointer appended to the parent's list.\<close>

definition Group :: "nat \<Rightarrow> string \<Rightarrow> 'c RouteGroup list \<Rightarrow> 'c RouteGroup list" where
  "Group g rel st =
     (let rg = st ! g; sub = new_group (prefix_of rg @ rel) (middleware_of rg)
      in st[g := rg\<lparr>groups_of := groups_of rg @ [length st]\<rparr>] @ [sub])"

text \<open>
  \<open>flatten\<close>. A sub-group is allocated after its parent; the guard says so, and makes the
  recursion end. It holds in every store that calls build (\<open>group_store_wf\<close>).
\<close>

function flatten :: "'c RouteGroup list \<Rightarrow> nat \<Rightarrow> 'c Route list" where
  "flatten st i =
     (if i < length st then
        routes_of (st ! i) @ concat (map (\<lambda>g. if i < g then flatten st g else []) (groups_of (st ! i)))
      else [])"
  by pat_completeness auto
termination
  by (relation "measure (\<lambda>(st, i). length st - i)") auto

declare flatten.simps [simp del]

subsection \<open>Callbacks\<close>

datatype 'c group_cmd =
    CallRegister nat string string 'c "'c list"
  | CallUse nat "'c list"
  | CallGroup nat string
  | CallPanic

text \<open>A call on a group that was never created is a nil dereference, a panic like any other.\<close>

fun group_call :: "'c group_cmd \<Rightarrow> 'c RouteGroup list \<Rightarrow> 'c RouteGroup list option" where
  "group_call (CallRegister g m path h mw) st =
     (if g < length st then Some (st[g := register_route m path h mw (st ! g)]) else None)"
| "group_call (CallUse g mw) st = (if g < length st then Some (st[g := Use mw (st ! g)]) else None)"
| "group_call (CallGroup g rel) st = (if g < length st then Some (Group g rel st) else None)"
| "group_call CallPanic st = None"

fun group_calls :: "'c group_cmd list \<Rightarrow> 'c RouteGroup list \<Rightarrow> 'c RouteGroup list option" where
  "group_calls [] st = Some st"
| "group_calls (gc # gcs) st = (case group_call gc st of None \<Rightarrow> None | Some st' \<Rightarrow> group_calls gcs st')"

text \<open>\<open>callRouteGroupFn\<close>: \<open>None\<close> is the panic turned into an error. Then the routes of a fresh group.\<close>

definition callRouteGroupFn :: "'c group_cmd list \<Rightarrow> 'c RouteGroup \<Rightarrow> 'c RouteGroup list option" where
  "callRouteGroupFn fn rg = group_calls fn [rg]"

definition group_routes :: "string \<Rightarrow> 'c group_cmd list \<Rightarrow> 'c Route list option" where
  "group_routes pre gcs =
     (case callRouteGroupFn gcs (new_group pre []) of None \<Rightarrow> None | Some st \<Rightarrow> Some (flatten st 0))"

subsection \<open>Nothing is lost\<close>

definition group_store_wf :: "'c RouteGroup list \<Rightarrow> bool" where
  "group_store_wf st \<longleftrightarrow> st \<noteq> []
     \<and> (\<forall>i < length st. \<forall>g \<in> set (groups_of (st ! i)). i < g \<and> g < length st)
     \<and> mset (concat (map groups_of st)) = mset [1..<length st]"

lemma group_store_wfD:
  assumes "group_store_wf st"
  shows "st \<noteq> []" "i < length st \<Longrightarrow> g \<in> set (groups_of (st ! i)) \<Longrightarrow> i < g \<and> g < length st"
    "mset (concat (map groups_of st)) = mset [1..<length st]"
  using assms unfolding group_store_wf_def by blast+

lemma map_update_same: "i < length xs \<Longrightarrow> f y = f (xs ! i) \<Longrightarrow> map f (xs[i := y]) = map f xs"
  by (metis list_update_id map_update)

lemma group_store_wf_cong:
  assumes "group_store_wf st" and "map groups_of st' = map groups_of st"
  shows "group_store_wf st'"
proof -
  have len: "length st' = length st" using assms(2) by (metis length_map)
  moreover have "groups_of (st' ! i) = groups_of (st ! i)" if "i < length st" for i
    using assms(2) that len by (metis nth_map)
  ultimately show ?thesis
    using assms unfolding group_store_wf_def by (metis length_0_conv)
qed

lemma mset_concat_update:
  "i < length xss \<Longrightarrow> mset (concat (xss[i := ys])) + mset (xss ! i) = mset (concat xss) + mset ys"
proof (induction xss arbitrary: i)
  case (Cons xs xss)
  then show ?case by (cases i) auto
qed simp

lemma group_call_wf:
  assumes "group_store_wf st" and "group_call gc st = Some st'"
  shows "group_store_wf st'"
proof (cases gc)
  case (CallGroup g rel)
  with assms(2) have g: "g < length st" and st': "st' = Group g rel st" by (auto split: if_splits)
  let ?gs = "groups_of (st ! g) @ [length st]"
  have map: "map groups_of st' = (map groups_of st)[g := ?gs] @ [[]]"
    by (simp add: st' Group_def new_group_def map_update Let_def)
  have "mset (concat ((map groups_of st)[g := ?gs])) + mset (groups_of (st ! g))
      = mset (concat (map groups_of st)) + mset ?gs"
    using mset_concat_update [of g "map groups_of st" ?gs] g by simp
  then have sum: "mset (concat (map groups_of st')) = mset (concat (map groups_of st)) + {#length st#}"
    by (simp add: map)
  have len': "length st' = Suc (length st)" by (simp add: st' Group_def Let_def)
  have up: "i < g' \<and> g' < length st'" if "i < length st'" "g' \<in> set (groups_of (st' ! i))" for i g'
  proof -
    have groups: "groups_of (st' ! i) = (if i = length st then [] else if i = g then ?gs else groups_of (st ! i))"
      using that(1) g by (simp add: st' Group_def Let_def new_group_def nth_append nth_list_update)
    have len: "length st' = Suc (length st)" by (simp add: st' Group_def Let_def)
    have old: "i < g' \<and> g' < length st" if "i < length st" "g' \<in> set (groups_of (st ! i))"
      using assms(1) that by (rule group_store_wfD)
    from that groups g len old show ?thesis by (auto split: if_splits)
  qed
  have "st' \<noteq> []" by (simp add: st' Group_def Let_def)
  moreover have "mset [1..<Suc (length st)] = mset [1..<length st] + {#length st#}"
    using group_store_wfD(1) [OF assms(1)] by (cases st) simp_all
  then have "mset (concat (map groups_of st')) = mset [1..<length st']"
    by (simp only: sum len' group_store_wfD(3) [OF assms(1)])
  ultimately show ?thesis
    using up unfolding group_store_wf_def by blast
next
  case (CallRegister g m path h mw)
  with assms show ?thesis
    by (auto simp: map_update_same register_route_def split: if_splits intro: group_store_wf_cong)
next
  case (CallUse g mw)
  with assms show ?thesis
    by (auto simp: map_update_same Use_def split: if_splits intro: group_store_wf_cong)
next
  case CallPanic
  with assms show ?thesis by simp
qed

lemma group_calls_wf:
  "group_store_wf st \<Longrightarrow> group_calls gcs st = Some st' \<Longrightarrow> group_store_wf st'"
  by (induction gcs arbitrary: st) (auto dest: group_call_wf split: option.splits)

lemma new_group_wf: "group_store_wf [new_group pre mw]"
  by (simp add: group_store_wf_def new_group_def)

lemma mset_concat_map:
  "mset (concat (map f xs)) = (\<Sum>x\<in>#mset xs. mset (f x))"
  by (induction xs) simp_all

lemma mset_concat_map_cong: "mset xs = mset ys \<Longrightarrow> mset (concat (map f xs)) = mset (concat (map f ys))"
  by (simp only: mset_concat_map)

lemma mset_concat_split:
  "mset (concat (map (\<lambda>i. r i @ concat (map f (g i))) is)) =
    mset (concat (map r is)) + mset (concat (map f (concat (map g is))))"
  by (induction "is") simp_all

lemma map_nth_all: "map (\<lambda>i. f (xs ! i)) [0..<length xs] = map f xs"
  by (rule nth_equalityI) simp_all

lemma flatten_all:
  assumes "group_store_wf st"
  shows "mset (flatten st 0) = mset (concat (map routes_of st))"
proof -
  let ?n = "length st"
  have unfold: "flatten st i = routes_of (st ! i) @ concat (map (flatten st) (groups_of (st ! i)))" if "i < ?n" for i
  proof -
    have "map (\<lambda>g. if i < g then flatten st g else []) (groups_of (st ! i)) = map (flatten st) (groups_of (st ! i))"
      by (rule map_cong [OF refl]) (simp add: group_store_wfD(2) [OF assms that])
    with that show ?thesis by (simp only: flatten.simps [of st i] if_True)
  qed
  have "[0..<?n] = 0 # [1..<?n]"
    using group_store_wfD(1) [OF assms] by (simp add: upt_conv_Cons)
  then have "mset (flatten st 0) + mset (concat (map (flatten st) [1..<?n])) = mset (concat (map (flatten st) [0..<?n]))"
    by simp
  also have "map (flatten st) [0..<?n] = map (\<lambda>i. routes_of (st ! i) @ concat (map (flatten st) (groups_of (st ! i)))) [0..<?n]"
    by (rule map_cong) (simp_all add: unfold)
  also have "mset (concat \<dots>) = mset (concat (map routes_of st)) + mset (concat (map (flatten st) (concat (map groups_of st))))"
    by (simp only: mset_concat_split map_nth_all [of routes_of] map_nth_all [of groups_of])
  also have "mset (concat (map (flatten st) (concat (map groups_of st)))) = mset (concat (map (flatten st) [1..<?n]))"
    by (rule mset_concat_map_cong [OF group_store_wfD(3) [OF assms]])
  finally show ?thesis by simp
qed

text \<open>
  What the calls of a callback mean, without any store. A group is known by the position of the call
  that created it among the \<open>Group\<close> calls. Its prefix is that of its parent followed by its own part;
  its middlewares are those its parent had when it was created, then those it was given itself. The
  calls made so far are listed with the latest first.
\<close>

fun created :: "'c group_cmd list \<Rightarrow> nat" where
  "created [] = 1"
| "created (CallGroup p rel # past) = Suc (created past)"
| "created (gc # past) = created past"

fun full_prefix :: "string \<Rightarrow> 'c group_cmd list \<Rightarrow> nat \<Rightarrow> string" where
  "full_prefix pre [] g = pre"
| "full_prefix pre (CallGroup p rel # past) g =
     (if g = created past then full_prefix pre past p @ rel else full_prefix pre past g)"
| "full_prefix pre (gc # past) g = full_prefix pre past g"

fun middlewares_so_far :: "'c group_cmd list \<Rightarrow> nat \<Rightarrow> 'c list" where
  "middlewares_so_far [] g = []"
| "middlewares_so_far (CallGroup p rel # past) g =
     (if g = created past then middlewares_so_far past p else middlewares_so_far past g)"
| "middlewares_so_far (CallUse u mw # past) g = middlewares_so_far past g @ (if g = u then mw else [])"
| "middlewares_so_far (gc # past) g = middlewares_so_far past g"

fun declared :: "string \<Rightarrow> 'c group_cmd list \<Rightarrow> 'c group_cmd list \<Rightarrow> 'c Route list" where
  "declared pre past [] = []"
| "declared pre past (CallRegister g m path h mw # gcs) =
     \<lparr>Method = m, Path = full_prefix pre past g @ path, Handler = h,
      Middleware = middlewares_so_far past g @ mw, Group_of = full_prefix pre past g\<rparr>
     # declared pre (CallRegister g m path h mw # past) gcs"
| "declared pre past (gc # gcs) = declared pre (gc # past) gcs"

text \<open>The store agrees with the history.\<close>

definition tells :: "string \<Rightarrow> 'c group_cmd list \<Rightarrow> 'c RouteGroup list \<Rightarrow> bool" where
  "tells pre past st \<longleftrightarrow> length st = created past
     \<and> (\<forall>g < length st. prefix_of (st ! g) = full_prefix pre past g \<and> middleware_of (st ! g) = middlewares_so_far past g)"

lemma tellsD:
  "tells pre past st \<Longrightarrow> g < length st \<Longrightarrow>
   prefix_of (st ! g) = full_prefix pre past g \<and> middleware_of (st ! g) = middlewares_so_far past g"
  by (simp add: tells_def)

lemma group_call_tells:
  assumes "tells pre past st" "group_call gc st = Some st'"
  shows "tells pre (gc # past) st'"
proof (cases gc)
  case (CallGroup p rel)
  with assms have p: "p < length st" "st' = Group p rel st" by (auto split: if_splits)
  have "length st = created past" using assms(1) by (simp add: tells_def)
  with p tellsD [OF assms(1)] CallGroup show ?thesis
    by (auto simp: tells_def Group_def new_group_def Let_def nth_append nth_list_update less_Suc_eq)
next
  case (CallUse u mw)
  with assms tellsD [OF assms(1)] show ?thesis
    by (auto simp: tells_def Use_def nth_list_update split: if_splits)
next
  case (CallRegister g m path h mw)
  with assms tellsD [OF assms(1)] show ?thesis
    by (auto simp: tells_def register_route_def nth_list_update split: if_splits)
next
  case CallPanic
  with assms show ?thesis by simp
qed

lemma group_call_routes:
  assumes "group_call gc st = Some st'"
  shows "mset (concat (map routes_of st')) = mset (concat (map routes_of st)) +
    (case gc of
       CallRegister g m path h mw \<Rightarrow>
         {#\<lparr>Method = m, Path = prefix_of (st ! g) @ path, Handler = h,
           Middleware = middleware_of (st ! g) @ mw, Group_of = prefix_of (st ! g)\<rparr>#}
     | _ \<Rightarrow> {#})"
proof (cases gc)
  case (CallRegister g m path h mw)
  with assms have g: "g < length st" and st': "st' = st[g := register_route m path h mw (st ! g)]"
    by (auto split: if_splits)
  have "mset (concat ((map routes_of st)[g := routes_of (register_route m path h mw (st ! g))])) + mset (routes_of (st ! g))
      = mset (concat (map routes_of st)) + mset (routes_of (register_route m path h mw (st ! g)))"
    using mset_concat_update [of g "map routes_of st"] g by simp
  then show ?thesis by (simp add: CallRegister st' map_update register_route_def)
next
  case (CallGroup g rel)
  with assms show ?thesis
    by (auto simp: Group_def new_group_def map_update_same Let_def split: if_splits)
qed (use assms in \<open>auto simp: Use_def map_update_same split: if_splits\<close>)

lemma group_calls_routes:
  "group_calls gcs st = Some st' \<Longrightarrow> tells pre past st \<Longrightarrow>
   mset (concat (map routes_of st')) = mset (concat (map routes_of st)) + mset (declared pre past gcs)"
proof (induction gcs arbitrary: st past)
  case (Cons gc gcs)
  then obtain st1 where st1: "group_call gc st = Some st1" "group_calls gcs st1 = Some st'"
    by (auto split: option.splits)
  note rest = Cons.IH [OF st1(2) group_call_tells [OF Cons.prems(2) st1(1)]]
  show ?case
  proof (cases gc)
    case (CallRegister g m path h mw)
    with st1(1) have "g < length st" by (auto split: if_splits)
    with rest group_call_routes [OF st1(1)] tellsD [OF Cons.prems(2)] CallRegister show ?thesis by simp
  qed (use rest group_call_routes [OF st1(1)] in simp_all)
qed simp

text \<open>C39. Flattening loses no route and duplicates none: however the calls of a callback on its
  groups are nested and interleaved, the routes mounted are exactly those it registered, each with
  the prefixes of all the groups around it, and with the middlewares that its group had at that
  moment before its own: those of its parent when the group was created, and those given to the group
  since. The calls alone say which these are.\<close>

theorem group_routes_complete:
  assumes "group_routes pre gcs = Some rs"
  shows "mset rs = mset (declared pre [] gcs)"
proof -
  from assms obtain st where st: "group_calls gcs [new_group pre []] = Some st" "rs = flatten st 0"
    by (auto simp: group_routes_def callRouteGroupFn_def split: option.splits)
  have "mset rs = mset (concat (map routes_of st))"
    using st flatten_all group_calls_wf [OF new_group_wf st(1)] by simp
  moreover have "tells pre [] [new_group pre []]" by (simp add: tells_def new_group_def)
  ultimately show ?thesis using group_calls_routes [OF st(1)] by (simp add: new_group_def)
qed

definition demo_calls :: "nat group_cmd list" where
  "demo_calls =
    [CallUse 0 [1], CallRegister 0 ''GET'' ''/a'' 10 [], CallGroup 0 ''/v1'', CallUse 0 [2],
     CallUse 1 [3], CallRegister 1 ''POST'' ''/b'' 11 [4], CallRegister 0 ''GET'' ''/c'' 12 []]"

theorem group_routes_complete_witness:
  "\<exists>rs. group_routes ''/api'' demo_calls = Some rs \<and> mset rs =
    {#\<lparr>Method = ''GET'', Path = ''/api/a'', Handler = 10, Middleware = [1], Group_of = ''/api''\<rparr>,
      \<lparr>Method = ''POST'', Path = ''/api/v1/b'', Handler = 11, Middleware = [1, 3, 4], Group_of = ''/api/v1''\<rparr>,
      \<lparr>Method = ''GET'', Path = ''/api/c'', Handler = 12, Middleware = [1, 2], Group_of = ''/api''\<rparr>#}"
proof -
  obtain rs where rs: "group_routes ''/api'' demo_calls = Some rs"
  proof
    show "group_routes ''/api'' demo_calls = Some (the (group_routes ''/api'' demo_calls))" by code_simp
  qed
  have "declared ''/api'' [] demo_calls =
    [\<lparr>Method = ''GET'', Path = ''/api/a'', Handler = 10, Middleware = [1], Group_of = ''/api''\<rparr>,
     \<lparr>Method = ''POST'', Path = ''/api/v1/b'', Handler = 11, Middleware = [1, 3, 4], Group_of = ''/api/v1''\<rparr>,
     \<lparr>Method = ''GET'', Path = ''/api/c'', Handler = 12, Middleware = [1, 2], Group_of = ''/api''\<rparr>]"
    by code_simp
  with group_routes_complete [OF rs] rs show ?thesis by simp
qed

lemma flatten_cong:
  "map routes_of st = map routes_of st' \<Longrightarrow> map groups_of st = map groups_of st' \<Longrightarrow> flatten st i = flatten st' i"
proof (induction st i rule: flatten.induct)
  case (1 st i)
  have len: "length st = length st'" using 1(2) by (metis length_map)
  show ?case
  proof (cases "i < length st")
    case True
    have r: "routes_of (st ! i) = routes_of (st' ! i)" "groups_of (st ! i) = groups_of (st' ! i)"
      using 1(2,3) True len by (metis nth_map)+
    have m: "map (\<lambda>g. if i < g then flatten st g else []) (groups_of (st' ! i)) =
        map (\<lambda>g. if i < g then flatten st' g else []) (groups_of (st' ! i))"
    proof (rule map_cong [OF refl])
      fix g
      assume "g \<in> set (groups_of (st' ! i))"
      with 1(1) [OF True _ _ 1(2,3), of g] r(2)
      show "(if i < g then flatten st g else []) = (if i < g then flatten st' g else [])" by simp
    qed
    from True len show ?thesis
      by (simp only: flatten.simps [of st i] flatten.simps [of st' i] r m if_True)
  next
    case False
    with len show ?thesis by (subst (1 2) flatten.simps) simp
  qed
qed

lemma group_calls_append:
  "group_calls (gcs @ gcs') st = Option.bind (group_calls gcs st) (group_calls gcs')"
  by (induction gcs arbitrary: st) (simp_all split: option.split)

text \<open>\<open>Use\<close> reaches no route registered before it: adding middlewares to the group at the end
  of a callback changes nothing of what is mounted.\<close>

theorem use_spares_registered:
  "group_routes pre (gcs @ [CallUse 0 mw]) = group_routes pre gcs"
proof (cases "group_calls gcs [new_group pre []]")
  case None
  then show ?thesis by (simp add: group_routes_def callRouteGroupFn_def group_calls_append)
next
  case (Some st)
  then have "st \<noteq> []" using group_calls_wf [OF new_group_wf Some] by (simp add: group_store_wf_def)
  moreover have "flatten (st[0 := Use mw (st ! 0)]) 0 = flatten st 0"
    using \<open>st \<noteq> []\<close> by (intro flatten_cong) (simp_all add: map_update_same Use_def)
  ultimately show ?thesis using Some by (simp add: group_routes_def callRouteGroupFn_def group_calls_append)
qed

end
