(* ===== verification/RoutePattern.thy ===== *)
theory RoutePattern
  imports Prelude
begin

text \<open>
  The pattern syntax of \<open>router.go\<close>: \<open>translateGinPattern\<close> (\<open>:name\<close> and
  \<open>*name\<close> to \<open>{name}\<close> and \<open>{name...}\<close>), \<open>validParamName\<close>, \<open>parsePattern\<close>
  and the path scanner \<open>nextSegment\<close>. The byte loops that advance an index over
  \<open>path\<close> are recursions over the remaining bytes.
\<close>

text \<open>
  The errors of registration. Every one is an \<open>errx\<close> error with the code
  \<open>WEBX_ROUTE_INVALID\<close>; a constructor stands for one message of the source and its
  arguments.
\<close>

datatype route_error =
    ParamNameInvalid string string
  | WildNameInvalid string string
  | WildNotLast string
  | MethodEmpty string
  | WildConflict string string
  | ParamConflict string string
  | RouteDuplicate string
  | ExactSubtreeConflict

record segment =
  s_literal :: string
  s_param :: string
  s_wildcard :: bool

definition literal_segment :: "string \<Rightarrow> segment" where
  "literal_segment l = \<lparr>s_literal = l, s_param = [], s_wildcard = False\<rparr>"

definition param_segment :: "string \<Rightarrow> segment" where
  "param_segment p = \<lparr>s_literal = [], s_param = p, s_wildcard = False\<rparr>"

definition wildcard_segment :: "string \<Rightarrow> segment" where
  "wildcard_segment p = \<lparr>s_literal = [], s_param = p, s_wildcard = True\<rparr>"

lemmas segment_defs = literal_segment_def param_segment_def wildcard_segment_def

subsection \<open>validParamName\<close>

text \<open>
  Go ranges over runes; a byte of a multi-byte rune is never an ASCII letter, digit or
  underscore, so the test is the same byte by byte.
\<close>

definition param_char :: "char \<Rightarrow> bool" where
  "param_char r \<longleftrightarrow> (CHR ''a'' \<le> r \<and> r \<le> CHR ''z'') \<or> (CHR ''A'' \<le> r \<and> r \<le> CHR ''Z'')
     \<or> (CHR ''0'' \<le> r \<and> r \<le> CHR ''9'') \<or> r = CHR ''_''"

definition validParamName :: "string \<Rightarrow> bool" where
  "validParamName name \<longleftrightarrow> name \<noteq> [] \<and> list_all param_char name"

lemma param_char_special [simp]:
  "\<not> param_char (CHR ''/'')" "\<not> param_char (CHR '':'')" "\<not> param_char (CHR ''*'')"
  "\<not> param_char (CHR ''{'')" "\<not> param_char (CHR ''}'')" "\<not> param_char (CHR ''.'')"
  by (simp_all add: param_char_def less_eq_char_def)

lemma validParamName_chars: "validParamName name \<Longrightarrow> c \<in> set name \<Longrightarrow> param_char c"
  by (simp add: validParamName_def list_all_iff)

lemma validParamName_nonempty: "validParamName name \<Longrightarrow> name \<noteq> []"
  by (simp add: validParamName_def)

subsection \<open>translateGinPattern\<close>

definition param_stop :: "char \<Rightarrow> bool" where
  "param_stop c \<longleftrightarrow> c = CHR ''/'' \<or> c = CHR '':'' \<or> c = CHR ''*''"

text \<open>
  \<open>translate_loop path b params rest\<close> is the loop of \<open>translateGinPattern\<close> at the
  index where \<open>rest\<close> is left to read: \<open>b\<close> is the builder, \<open>params\<close> the names so far.
\<close>

function translate_loop ::
    "string \<Rightarrow> string \<Rightarrow> string list \<Rightarrow> string \<Rightarrow> route_error + (string \<times> string list)" where
  "translate_loop path b params [] = Inr (b, params)"
| "translate_loop path b params (c # rest) =
     (if c = CHR '':'' then
        (let name = takeWhile (\<lambda>x. \<not> param_stop x) rest;
             rest' = dropWhile (\<lambda>x. \<not> param_stop x) rest
         in if \<not> validParamName name then Inl (ParamNameInvalid name path)
            else translate_loop path (b @ ''{'' @ name @ ''}'') (params @ [name]) rest')
      else if c = CHR ''*'' then
        (let name = takeWhile (\<lambda>x. x \<noteq> CHR ''/'') rest;
             rest' = dropWhile (\<lambda>x. x \<noteq> CHR ''/'') rest
         in if \<not> validParamName name then Inl (WildNameInvalid name path)
            else if rest' \<noteq> [] then Inl (WildNotLast path)
            else translate_loop path (b @ ''{'' @ name @ ''...}'') (params @ [name]) rest')
      else translate_loop path (b @ [c]) params rest)"
  by pat_completeness auto
termination
  by (relation "measure (\<lambda>(path, b, params, rest). length rest)")
    (auto simp: less_Suc_eq_le length_dropWhile_le)

definition translateGinPattern :: "string \<Rightarrow> route_error + (string \<times> string list)" where
  "translateGinPattern path = translate_loop path [] [] path"

subsection \<open>parsePattern\<close>

definition parse_part :: "string \<Rightarrow> segment" where
  "parse_part part =
     (if has_prefix part ''{'' \<and> has_suffix part ''}'' then
        (let name = trim_suffix (trim_prefix part ''{'') ''}''
         in if has_suffix name ''...'' then wildcard_segment (trim_suffix name ''...'')
            else param_segment name)
      else literal_segment part)"

definition parsePattern :: "string \<Rightarrow> route_error + segment list" where
  "parsePattern pattern =
     (let segs = map parse_part (filter (\<lambda>part. part \<noteq> []) (split_on (CHR ''/'') pattern))
      in if list_ex s_wildcard (butlast segs) then Inl (WildNotLast pattern) else Inr segs)"

subsection \<open>nextSegment\<close>

function skip_slashes :: "string \<Rightarrow> nat \<Rightarrow> nat" where
  "skip_slashes path idx =
     (if idx < length path \<and> path ! idx = CHR ''/'' then skip_slashes path (Suc idx) else idx)"
  by pat_completeness auto
termination by (relation "measure (\<lambda>(path, idx). length path - idx)") auto

function scan_segment :: "string \<Rightarrow> nat \<Rightarrow> nat" where
  "scan_segment path idx =
     (if idx < length path \<and> path ! idx \<noteq> CHR ''/'' then scan_segment path (Suc idx) else idx)"
  by pat_completeness auto
termination by (relation "measure (\<lambda>(path, idx). length path - idx)") auto

declare skip_slashes.simps [simp del] scan_segment.simps [simp del]

text \<open>The slice \<open>path[start:end]\<close>.\<close>

definition slice :: "string \<Rightarrow> nat \<Rightarrow> nat \<Rightarrow> string" where
  "slice path start stop = take (stop - start) (drop start path)"

definition nextSegment :: "string \<Rightarrow> nat \<Rightarrow> string \<times> int" where
  "nextSegment path idx0 =
     (let start = skip_slashes path idx0
      in if start \<ge> length path then ([], -1)
         else (let idx = scan_segment path start
               in if idx \<ge> length path then (slice path start idx, -1)
                  else (slice path start idx, int idx + 1)))"

text \<open>
  The scanner over the bytes that are left: the same segment, and the bytes after the
  slash that ends it.
\<close>

definition next_part :: "string \<Rightarrow> string \<times> string" where
  "next_part rs =
     (let rs' = dropWhile (\<lambda>x. x = CHR ''/'') rs
      in (takeWhile (\<lambda>x. x \<noteq> CHR ''/'') rs', tl (dropWhile (\<lambda>x. x \<noteq> CHR ''/'') rs')))"

lemma drop_skip_slashes:
  "drop (skip_slashes path idx) path = dropWhile (\<lambda>x. x = CHR ''/'') (drop idx path)"
proof (induction path idx rule: skip_slashes.induct)
  case (1 path idx)
  show ?case
  proof (cases "idx < length path")
    case True
    then have "drop idx path = path ! idx # drop (Suc idx) path"
      by (rule Cons_nth_drop_Suc [symmetric])
    with 1 True show ?thesis
      by (auto simp: skip_slashes.simps [of path idx])
  next
    case False
    then show ?thesis by (simp add: skip_slashes.simps [of path idx])
  qed
qed

lemma scan_segment_spec:
  "idx \<le> length path \<Longrightarrow>
   scan_segment path idx = idx + length (takeWhile (\<lambda>x. x \<noteq> CHR ''/'') (drop idx path))"
proof (induction path idx rule: scan_segment.induct)
  case (1 path idx)
  show ?case
  proof (cases "idx < length path")
    case True
    then have "drop idx path = path ! idx # drop (Suc idx) path"
      by (rule Cons_nth_drop_Suc [symmetric])
    with 1 True show ?thesis
      by (auto simp: scan_segment.simps [of path idx])
  next
    case False
    then show ?thesis by (simp add: scan_segment.simps [of path idx])
  qed
qed

lemma skip_slashes_bound: "idx \<le> length path \<Longrightarrow> skip_slashes path idx \<le> length path \<and> idx \<le> skip_slashes path idx"
proof (induction path idx rule: skip_slashes.induct)
  case (1 path idx)
  then show ?case by (auto simp: skip_slashes.simps [of path idx])
qed


text \<open>\<open>idx = next; if idx < 0 { idx = len(path) }\<close>, the way \<open>lookup\<close> moves on.\<close>

definition next_index :: "string \<Rightarrow> int \<Rightarrow> nat" where
  "next_index path next = (if next < 0 then length path else nat next)"

lemma nextSegment_refines:
  assumes "idx < length path" and "nextSegment path idx = (seg, next)"
  shows "idx < next_index path next" "next_index path next \<le> length path"
    "next_part (drop idx path) = (seg, drop (next_index path next) path)"
proof -
  define start where "start = skip_slashes path idx"
  have start: "idx \<le> start" "start \<le> length path"
    using skip_slashes_bound [of idx path] assms(1) by (auto simp: start_def)
  have ds: "drop start path = dropWhile (\<lambda>x. x = CHR ''/'') (drop idx path)"
    by (simp add: start_def drop_skip_slashes)
  define e where "e = scan_segment path start"
  have e: "e = start + length (takeWhile (\<lambda>x. x \<noteq> CHR ''/'') (drop start path))"
    using scan_segment_spec [OF start(2)] by (simp add: e_def)
  have tw: "takeWhile (\<lambda>x. x \<noteq> CHR ''/'') (drop start path) = slice path start e"
    by (simp add: e slice_def takeWhile_eq_take [symmetric])
  have dw: "dropWhile (\<lambda>x. x \<noteq> CHR ''/'') (drop start path) = drop e path"
    by (simp add: e dropWhile_eq_drop add.commute)
  have part: "next_part (drop idx path) = (slice path start e, drop (Suc e) path)"
    by (simp add: next_part_def Let_def ds [symmetric] tw dw tl_drop drop_Suc)
  have "start \<le> e" by (simp add: e)
  have ns: "nextSegment path idx =
     (if start \<ge> length path then ([], -1)
      else if e \<ge> length path then (slice path start e, -1) else (slice path start e, int e + 1))"
    by (simp add: nextSegment_def Let_def start_def e_def)
  have empty: "slice path start e = []" if "start \<ge> length path"
    using that by (simp add: slice_def)
  show "idx < next_index path next" "next_index path next \<le> length path"
    "next_part (drop idx path) = (seg, drop (next_index path next) path)"
    using assms ns part empty start \<open>start \<le> e\<close>
    by (auto simp: next_index_def nat_add_distrib split: if_splits)
qed

subsection \<open>Rendering segments\<close>

text \<open>
  The inverse direction: the gin pattern and the canonical pattern that denote a list of
  segments. A segment is clean when it is a parameter or wildcard with a valid name, or
  a literal that neither the translation nor the parser gives another meaning.
\<close>

definition render_gin_segment :: "segment \<Rightarrow> string" where
  "render_gin_segment s =
     (if s_wildcard s then CHR ''*'' # s_param s
      else if s_param s \<noteq> [] then CHR '':'' # s_param s else s_literal s)"

definition render_segment :: "segment \<Rightarrow> string" where
  "render_segment s =
     (if s_wildcard s then ''{'' @ s_param s @ ''...}''
      else if s_param s \<noteq> [] then ''{'' @ s_param s @ ''}'' else s_literal s)"

definition render_gin :: "segment list \<Rightarrow> string" where
  "render_gin segs = concat (map (\<lambda>s. CHR ''/'' # render_gin_segment s) segs)"

definition render_canonical :: "segment list \<Rightarrow> string" where
  "render_canonical segs = concat (map (\<lambda>s. CHR ''/'' # render_segment s) segs)"

definition param_names :: "segment list \<Rightarrow> string list" where
  "param_names segs = map s_param (filter (\<lambda>s. s_wildcard s \<or> s_param s \<noteq> []) segs)"

definition clean_literal :: "string \<Rightarrow> bool" where
  "clean_literal l \<longleftrightarrow> l \<noteq> [] \<and> list_all (\<lambda>c. \<not> param_stop c) l
     \<and> \<not> (has_prefix l ''{'' \<and> has_suffix l ''}'')"

definition clean_segment :: "segment \<Rightarrow> bool" where
  "clean_segment s \<longleftrightarrow>
     (if s_wildcard s then s_literal s = [] \<and> validParamName (s_param s)
      else if s_param s \<noteq> [] then s_literal s = [] \<and> validParamName (s_param s)
      else clean_literal (s_literal s))"

definition clean_pattern :: "segment list \<Rightarrow> bool" where
  "clean_pattern segs \<longleftrightarrow> list_all clean_segment segs \<and> \<not> list_ex s_wildcard (butlast segs)"

lemma render_simps [simp]:
  "render_gin [] = []" "render_canonical [] = []" "param_names [] = []"
  "render_gin (s # segs) = CHR ''/'' # render_gin_segment s @ render_gin segs"
  "render_canonical (s # segs) = CHR ''/'' # render_segment s @ render_canonical segs"
  "param_names (s # segs) =
     (if s_wildcard s \<or> s_param s \<noteq> [] then [s_param s] else []) @ param_names segs"
  by (simp_all add: render_gin_def render_canonical_def param_names_def)

lemma clean_pattern_Cons:
  "clean_pattern (s # segs) \<longleftrightarrow> clean_segment s \<and> clean_pattern segs \<and> (s_wildcard s \<longrightarrow> segs = [])"
  by (cases segs) (auto simp: clean_pattern_def)

lemma render_gin_stop: "render_gin segs = [] \<or> (\<exists>t. render_gin segs = CHR ''/'' # t)"
  by (cases segs) simp_all

lemma translate_loop_literal:
  "list_all (\<lambda>c. \<not> param_stop c \<or> c = CHR ''/'') l \<Longrightarrow>
   translate_loop path b ps (l @ rest) = translate_loop path (b @ l) ps rest"
  by (induction l arbitrary: b) (auto simp: param_stop_def)

lemma valid_not_stop:
  "validParamName p \<Longrightarrow> list_all (\<lambda>c. \<not> param_stop c) p"
  by (auto simp: list_all_iff param_stop_def dest: validParamName_chars)

lemma span_valid:
  assumes "list_all P p" "rest = [] \<or> \<not> P (hd rest)"
  shows "takeWhile P (p @ rest) = p" "dropWhile P (p @ rest) = rest"
  using assms by (induction p) (auto simp: neq_Nil_conv takeWhile_eq_Nil_iff dropWhile_eq_self_iff)

lemma translate_loop_param:
  assumes "validParamName p" and "rest = [] \<or> param_stop (hd rest)"
  shows "translate_loop path b ps (CHR '':'' # p @ rest) =
    translate_loop path (b @ ''{'' @ p @ ''}'') (ps @ [p]) rest"
  using assms span_valid [of "\<lambda>c. \<not> param_stop c" p rest]
  by (simp add: valid_not_stop)

lemma translate_loop_wildcard:
  assumes "validParamName p"
  shows "translate_loop path b ps (CHR ''*'' # p) =
    Inr (b @ ''{'' @ p @ ''...}'', ps @ [p])"
proof -
  have "list_all (\<lambda>c. c \<noteq> CHR ''/'') p"
    using valid_not_stop [OF assms] by (auto simp: list_all_iff param_stop_def)
  then have "takeWhile (\<lambda>c. c \<noteq> CHR ''/'') p = p" "dropWhile (\<lambda>c. c \<noteq> CHR ''/'') p = []"
    using span_valid [of "\<lambda>c. c \<noteq> CHR ''/''" p "[]"] by simp_all
  then show ?thesis
    using assms by (simp only: translate_loop.simps Let_def) simp
qed

lemma translate_segment:
  assumes "clean_segment s" and "s_wildcard s \<longrightarrow> rest = []"
    and "rest = [] \<or> hd rest = CHR ''/''"
  shows "translate_loop path b ps (render_gin_segment s @ rest) =
    translate_loop path (b @ render_segment s)
      (ps @ (if s_wildcard s \<or> s_param s \<noteq> [] then [s_param s] else [])) rest"
proof -
  consider (wild) "s_wildcard s" | (param) "\<not> s_wildcard s" "s_param s \<noteq> []"
    | (lit) "\<not> s_wildcard s" "s_param s = []" by blast
  then show ?thesis
  proof cases
    case wild
    with assms show ?thesis
      by (simp add: clean_segment_def render_gin_segment_def render_segment_def
          translate_loop_wildcard del: translate_loop.simps(2))
  next
    case param
    with assms have "validParamName (s_param s)" "rest = [] \<or> param_stop (hd rest)"
      by (auto simp: clean_segment_def param_stop_def)
    with param translate_loop_param show ?thesis
      by (simp add: render_gin_segment_def render_segment_def del: translate_loop.simps)
  next
    case lit
    with assms have "list_all (\<lambda>c. \<not> param_stop c \<or> c = CHR ''/'') (s_literal s)"
      by (auto simp: clean_segment_def clean_literal_def list_all_iff)
    with lit show ?thesis
      by (simp add: render_gin_segment_def render_segment_def translate_loop_literal)
  qed
qed

lemma translate_render:
  "clean_pattern segs \<Longrightarrow>
   translate_loop path b ps (render_gin segs) = Inr (b @ render_canonical segs, ps @ param_names segs)"
proof (induction segs arbitrary: b ps)
  case Nil
  then show ?case by simp
next
  case (Cons s segs)
  from Cons.prems have s: "clean_segment s" and segs: "clean_pattern segs"
    and w: "s_wildcard s \<longrightarrow> render_gin segs = []"
    by (auto simp: clean_pattern_Cons)
  have h: "render_gin segs = [] \<or> hd (render_gin segs) = CHR ''/''"
    using render_gin_stop [of segs] by auto
  have "translate_loop path b ps (render_gin (s # segs)) =
      translate_loop path (b @ [CHR ''/'']) ps (render_gin_segment s @ render_gin segs)"
    by simp
  also have "\<dots> = Inr (b @ render_canonical (s # segs), ps @ param_names (s # segs))"
    by (simp add: translate_segment [OF s w h] Cons.IH [OF segs] del: translate_loop.simps)
  finally show ?case .
qed

lemma parse_part_render:
  assumes "clean_segment s"
  shows "parse_part (render_segment s) = s" "render_segment s \<noteq> []"
    "CHR ''/'' \<notin> set (render_segment s)"
proof -
  have name: "\<not> has_suffix p ''...''" "CHR ''/'' \<notin> set p" if "validParamName p" for p
    using validParamName_chars [OF that, of "CHR ''.''"] validParamName_chars [OF that, of "CHR ''/''"]
    by (auto simp: suffix_def)
  have br: "parse_part (''{'' @ n @ ''}'') =
      (if has_suffix n ''...'' then wildcard_segment (trim_suffix n ''...'') else param_segment n)"
    for n
  proof -
    have "has_suffix (CHR ''{'' # n @ ''}'') ''}''"
      using has_suffix_append [where s = "CHR ''{'' # n" and p = "''}''"] by simp
    then show ?thesis by (simp add: parse_part_def Let_def)
  qed
  have dots: "parse_part (''{'' @ p @ ''...}'') = wildcard_segment p" for p
    using br [of "p @ ''...''"] has_suffix_append [of p "''...''"] trim_suffix_append [of p "''...''"]
    by simp
  have lit: "\<not> has_prefix l ''{'' \<or> \<not> has_suffix l ''}'' \<Longrightarrow> parse_part l = literal_segment l" for l
    by (auto simp: parse_part_def)
  show "parse_part (render_segment s) = s"
    using assms br [of "s_param s"] dots [of "s_param s"] name(1)
    by (cases s)
      (auto simp: clean_segment_def render_segment_def segment_defs clean_literal_def
        lit split: if_splits)
  show "render_segment s \<noteq> []" "CHR ''/'' \<notin> set (render_segment s)"
    using assms name(2)
    by (auto simp: clean_segment_def render_segment_def clean_literal_def list_all_iff
        param_stop_def split: if_splits)
qed

lemma split_canonical:
  "list_all clean_segment segs \<Longrightarrow>
   split_on (CHR ''/'') (render_canonical segs) = [] # map render_segment segs"
proof (induction segs)
  case Nil
  then show ?case by simp
next
  case (Cons s segs)
  then have s: "CHR ''/'' \<notin> set (render_segment s)"
    and IH: "split_on (CHR ''/'') (render_canonical segs) = [] # map render_segment segs"
    by (simp_all add: parse_part_render)
  show ?case
  proof (cases segs)
    case Nil
    with s show ?thesis by (simp add: split_on_no_sep)
  next
    case (Cons t ts)
    then obtain r where r: "render_canonical segs = CHR ''/'' # r" by simp
    with IH have "split_on (CHR ''/'') r = map render_segment segs" by simp
    with r s show ?thesis by (simp add: split_on_append)
  qed
qed

lemma parse_render: "clean_pattern segs \<Longrightarrow> parsePattern (render_canonical segs) = Inr segs"
proof -
  assume c: "clean_pattern segs"
  then have all: "list_all clean_segment segs" by (simp add: clean_pattern_def)
  then have "filter (\<lambda>part. part \<noteq> []) (map render_segment segs) = map render_segment segs"
    by (induction segs) (auto simp: parse_part_render)
  moreover from all have "map parse_part (map render_segment segs) = segs"
    by (induction segs) (auto simp: parse_part_render)
  ultimately show ?thesis
    using c by (simp add: parsePattern_def Let_def split_canonical [OF all] clean_pattern_def)
qed

subsection \<open>What the translation accepts\<close>

lemma translate_loop_names:
  "translate_loop path b ps rest = Inr (b', ps') \<Longrightarrow> list_all validParamName ps \<Longrightarrow>
   list_all validParamName ps'"
  by (induction path b ps rest rule: translate_loop.induct)
    (auto simp: Let_def split: if_splits)

text \<open>C33. The gin syntax round-trips: the pattern written for a list of clean segments
  (literals without special bytes, \<open>:name\<close>, a final \<open>*name\<close>) is translated without an
  error, the names reported are those of its parameters in order, and parsing the
  translation gives the segments back.\<close>

theorem pattern_roundtrip:
  assumes "clean_pattern segs"
  shows "translateGinPattern (render_gin segs) = Inr (render_canonical segs, param_names segs)
    \<and> parsePattern (render_canonical segs) = Inr segs"
  using translate_render [OF assms, of "render_gin segs" "[]" "[]"] parse_render [OF assms]
  by (simp_all add: translateGinPattern_def)

theorem pattern_roundtrip_witness:
  "translateGinPattern ''/users/:id/files/*path'' =
     Inr (''/users/{id}/files/{path...}'', [''id'', ''path''])
   \<and> parsePattern ''/users/{id}/files/{path...}'' =
     Inr [literal_segment ''users'', param_segment ''id'', literal_segment ''files'', wildcard_segment ''path'']"
proof -
  let ?segs = "[literal_segment ''users'', param_segment ''id'', literal_segment ''files'', wildcard_segment ''path'']"
  have "clean_pattern ?segs" by code_simp
  moreover have "render_gin ?segs = ''/users/:id/files/*path''"
    "render_canonical ?segs = ''/users/{id}/files/{path...}''" "param_names ?segs = [''id'', ''path'']"
    by code_simp+
  ultimately show ?thesis using pattern_roundtrip [of ?segs] by simp
qed

end
