(* ===== verification/RouteTree.thy ===== *)
theory RouteTree
  imports RoutePattern
begin

text \<open>
  The matching tree of \<open>router.go\<close>: \<open>routeNode\<close> and \<open>insert\<close>, with the laws of
  registration. \<open>insert\<close> mutates the tree through pointers and keeps the nodes it has
  created when it then fails, so the model returns the tree together with the error.

  The tree is a table from positions to handlers. The locale \<open>route_registry\<close> is the
  contract of such a table; the tree is shown to be one, and what follows for a whole
  list of registrations is proved inside the locale.
\<close>

datatype 'h routeNode = Node
  (literal: string)
  (param: string)
  (wildcard: bool)
  (subtree: bool)
  (handlers: "(string \<times> 'h) list")
  (children: "(string \<times> 'h routeNode) list")
  (paramChild: "'h routeNode option")
  (wildChild: "'h routeNode option")

definition empty_root :: "'h routeNode" where
  "empty_root = Node [] [] False False [] [] None None"

definition new_literal :: "string \<Rightarrow> 'h routeNode" where
  "new_literal l = Node l [] False False [] [] None None"

definition new_param :: "string \<Rightarrow> 'h routeNode" where
  "new_param p = Node [] p False False [] [] None None"

definition new_wild :: "string \<Rightarrow> 'h routeNode" where
  "new_wild p = Node [] p True False [] [] None None"

fun set_handlers :: "(string \<times> 'h) list \<Rightarrow> 'h routeNode \<Rightarrow> 'h routeNode" where
  "set_handlers hs (Node l p w s _ cs pc wc) = Node l p w s hs cs pc wc"

fun set_subtree :: "bool \<Rightarrow> 'h routeNode \<Rightarrow> 'h routeNode" where
  "set_subtree s (Node l p w _ hs cs pc wc) = Node l p w s hs cs pc wc"

fun set_child :: "string \<Rightarrow> 'h routeNode \<Rightarrow> 'h routeNode \<Rightarrow> 'h routeNode" where
  "set_child k c (Node l p w s hs cs pc wc) = Node l p w s hs (AList.update k c cs) pc wc"

fun set_paramChild :: "'h routeNode \<Rightarrow> 'h routeNode \<Rightarrow> 'h routeNode" where
  "set_paramChild c (Node l p w s hs cs pc wc) = Node l p w s hs cs (Some c) wc"

fun set_wildChild :: "'h routeNode \<Rightarrow> 'h routeNode \<Rightarrow> 'h routeNode" where
  "set_wildChild c (Node l p w s hs cs pc wc) = Node l p w s hs cs pc (Some c)"

lemma set_handlers_sel [simp, tree_upd]:
  "literal (set_handlers hs n) = literal n" "param (set_handlers hs n) = param n"
  "wildcard (set_handlers hs n) = wildcard n" "subtree (set_handlers hs n) = subtree n"
  "handlers (set_handlers hs n) = hs" "children (set_handlers hs n) = children n"
  "paramChild (set_handlers hs n) = paramChild n" "wildChild (set_handlers hs n) = wildChild n"
  by (cases n; simp)+

lemma set_subtree_sel [simp, tree_upd]:
  "literal (set_subtree s n) = literal n" "param (set_subtree s n) = param n"
  "wildcard (set_subtree s n) = wildcard n" "subtree (set_subtree s n) = s"
  "handlers (set_subtree s n) = handlers n" "children (set_subtree s n) = children n"
  "paramChild (set_subtree s n) = paramChild n" "wildChild (set_subtree s n) = wildChild n"
  by (cases n; simp)+

lemma set_child_sel [simp, tree_upd]:
  "literal (set_child k c n) = literal n" "param (set_child k c n) = param n"
  "wildcard (set_child k c n) = wildcard n" "subtree (set_child k c n) = subtree n"
  "handlers (set_child k c n) = handlers n" "children (set_child k c n) = AList.update k c (children n)"
  "paramChild (set_child k c n) = paramChild n" "wildChild (set_child k c n) = wildChild n"
  by (cases n; simp)+

lemma set_paramChild_sel [simp, tree_upd]:
  "literal (set_paramChild c n) = literal n" "param (set_paramChild c n) = param n"
  "wildcard (set_paramChild c n) = wildcard n" "subtree (set_paramChild c n) = subtree n"
  "handlers (set_paramChild c n) = handlers n" "children (set_paramChild c n) = children n"
  "paramChild (set_paramChild c n) = Some c" "wildChild (set_paramChild c n) = wildChild n"
  by (cases n; simp)+

lemma set_wildChild_sel [simp, tree_upd]:
  "literal (set_wildChild c n) = literal n" "param (set_wildChild c n) = param n"
  "wildcard (set_wildChild c n) = wildcard n" "subtree (set_wildChild c n) = subtree n"
  "handlers (set_wildChild c n) = handlers n" "children (set_wildChild c n) = children n"
  "paramChild (set_wildChild c n) = paramChild n" "wildChild (set_wildChild c n) = Some c"
  by (cases n; simp)+

lemma new_node_sel [simp, tree_upd]:
  "handlers (new_literal l) = []" "children (new_literal l) = []"
  "paramChild (new_literal l) = None" "wildChild (new_literal l) = None"
  "subtree (new_literal l) = False" "param (new_literal l) = []"
  "handlers (new_param p) = []" "children (new_param p) = []"
  "paramChild (new_param p) = None" "wildChild (new_param p) = None"
  "subtree (new_param p) = False" "param (new_param p) = p"
  "handlers (new_wild p) = []" "children (new_wild p) = []"
  "paramChild (new_wild p) = None" "wildChild (new_wild p) = None"
  "subtree (new_wild p) = False" "param (new_wild p) = p"
  "handlers empty_root = []" "children empty_root = []"
  "paramChild empty_root = None" "wildChild empty_root = None" "subtree empty_root = False"
  by (simp_all add: new_literal_def new_param_def new_wild_def empty_root_def)

subsection \<open>insert\<close>

definition child_or_new :: "'h routeNode option \<Rightarrow> 'h routeNode \<Rightarrow> 'h routeNode" where
  "child_or_new c fresh = (case c of None \<Rightarrow> fresh | Some n \<Rightarrow> n)"

text \<open>
  The loop over the segments and the registration at the node it ends in. The guards
  and their order are those of the source: the child is created before its name is
  compared, and the names are compared before the descent.
\<close>

fun insert_node ::
    "string \<Rightarrow> 'h \<Rightarrow> bool \<Rightarrow> segment list \<Rightarrow> 'h routeNode \<Rightarrow> 'h routeNode \<times> route_error option" where
  "insert_node method handler sub [] node =
     (if map_of (handlers node) method \<noteq> None then (node, Some (RouteDuplicate method))
      else if handlers node \<noteq> [] \<and> subtree node \<noteq> sub then (node, Some ExactSubtreeConflict)
      else (let node' = set_handlers (AList.update method handler (handlers node)) node
            in (if sub then set_subtree True node' else node', None)))"
| "insert_node method handler sub (seg # segs) node =
     (if s_wildcard seg then
        (let w = child_or_new (wildChild node) (new_wild (s_param seg))
         in if param w \<noteq> s_param seg
            then (set_wildChild w node, Some (WildConflict (param w) (s_param seg)))
            else (let (w', e) = insert_node method handler sub segs w
                  in (set_wildChild w' node, e)))
      else if s_param seg \<noteq> [] then
        (let c = child_or_new (paramChild node) (new_param (s_param seg))
         in if param c \<noteq> s_param seg
            then (set_paramChild c node, Some (ParamConflict (param c) (s_param seg)))
            else (let (c', e) = insert_node method handler sub segs c
                  in (set_paramChild c' node, e)))
      else
        (let c = child_or_new (map_of (children node) (s_literal seg)) (new_literal (s_literal seg));
             (c', e) = insert_node method handler sub segs c
         in (set_child (s_literal seg) c' node, e)))"

text \<open>\<open>insert\<close> itself: the root is created on first use.\<close>

definition insert_tree ::
    "string \<Rightarrow> segment list \<Rightarrow> 'h \<Rightarrow> bool \<Rightarrow> 'h routeNode option \<Rightarrow> 'h routeNode option \<times> route_error option" where
  "insert_tree method segs handler sub root =
     (let (r, e) = insert_node method handler sub segs (child_or_new root empty_root)
      in (Some r, e))"

subsection \<open>Positions in the tree\<close>

datatype step = Lit string | Par | Wild

definition step_of :: "segment \<Rightarrow> step" where
  "step_of seg = (if s_wildcard seg then Wild else if s_param seg \<noteq> [] then Par else Lit (s_literal seg))"

fun child_at :: "step \<Rightarrow> 'h routeNode \<Rightarrow> 'h routeNode option" where
  "child_at (Lit l) n = map_of (children n) l"
| "child_at Par n = paramChild n"
| "child_at Wild n = wildChild n"

fun node_at :: "step list \<Rightarrow> 'h routeNode \<Rightarrow> 'h routeNode option" where
  "node_at [] n = Some n"
| "node_at (s # ss) n = (case child_at s n of None \<Rightarrow> None | Some c \<Rightarrow> node_at ss c)"

definition handlers_at :: "step list \<Rightarrow> 'h routeNode \<Rightarrow> string \<Rightarrow> 'h option" where
  "handlers_at ss n = (case node_at ss n of None \<Rightarrow> Map.empty | Some x \<Rightarrow> map_of (handlers x))"

definition find_route :: "'h routeNode option \<Rightarrow> step list \<Rightarrow> string \<Rightarrow> 'h option" where
  "find_route root ss m = (case root of None \<Rightarrow> None | Some n \<Rightarrow> handlers_at ss n m)"

lemma handlers_at_simps [simp]:
  "handlers_at [] n = map_of (handlers n)"
  "handlers_at (s # ss) n = (case child_at s n of None \<Rightarrow> Map.empty | Some c \<Rightarrow> handlers_at ss c)"
  by (simp_all add: handlers_at_def split: option.split)

lemma handlers_at_fresh:
  assumes "handlers n = []" "children n = []" "paramChild n = None" "wildChild n = None"
  shows "handlers_at ss n = Map.empty"
proof (cases ss)
  case Nil
  with assms show ?thesis by simp
next
  case (Cons s ss')
  have "child_at s n = None" using assms by (cases s) simp_all
  with Cons show ?thesis by simp
qed

lemma child_at_upd [simp]:
  "child_at s (set_child k c n) = (if s = Lit k then Some c else child_at s n)"
  "child_at s (set_paramChild c n) = (if s = Par then Some c else child_at s n)"
  "child_at s (set_wildChild c n) = (if s = Wild then Some c else child_at s n)"
  "child_at s (set_handlers hs n) = child_at s n"
  "child_at s (set_subtree b n) = child_at s n"
  by (cases s; simp)+

text \<open>The three descents of \<open>insert\<close> in one equation.\<close>

definition fresh_node :: "segment \<Rightarrow> 'h routeNode" where
  "fresh_node seg =
     (if s_wildcard seg then new_wild (s_param seg)
      else if s_param seg \<noteq> [] then new_param (s_param seg) else new_literal (s_literal seg))"

fun set_at :: "step \<Rightarrow> 'h routeNode \<Rightarrow> 'h routeNode \<Rightarrow> 'h routeNode" where
  "set_at (Lit l) c n = set_child l c n"
| "set_at Par c n = set_paramChild c n"
| "set_at Wild c n = set_wildChild c n"

definition name_clash :: "segment \<Rightarrow> 'h routeNode \<Rightarrow> route_error option" where
  "name_clash seg c =
     (if s_wildcard seg then
        (if param c \<noteq> s_param seg then Some (WildConflict (param c) (s_param seg)) else None)
      else if s_param seg \<noteq> [] then
        (if param c \<noteq> s_param seg then Some (ParamConflict (param c) (s_param seg)) else None)
      else None)"

lemma set_at_sel [simp, tree_upd]:
  "literal (set_at s c n) = literal n" "param (set_at s c n) = param n"
  "wildcard (set_at s c n) = wildcard n" "subtree (set_at s c n) = subtree n"
  "handlers (set_at s c n) = handlers n"
  "child_at s' (set_at s c n) = (if s' = s then Some c else child_at s' n)"
  by (cases s; simp)+

lemma fresh_node_empty [simp]:
  "handlers (fresh_node seg) = []" "subtree (fresh_node seg) = False"
  "child_at s (fresh_node seg) = None" "handlers_at ss (fresh_node seg) = Map.empty"
  by (auto simp: fresh_node_def handlers_at_fresh; cases s; simp)+

lemma insert_node_Cons:
  "insert_node m h sub (seg # segs) n =
     (let c = child_or_new (child_at (step_of seg) n) (fresh_node seg)
      in case name_clash seg c of
           Some e \<Rightarrow> (set_at (step_of seg) c n, Some e)
         | None \<Rightarrow> (let (c', e) = insert_node m h sub segs c in (set_at (step_of seg) c' n, e)))"
  by (simp add: step_of_def fresh_node_def name_clash_def Let_def)

declare insert_node.simps(2) [simp del]

text \<open>
  What one registration does to the table: on success the entry at the pattern's own
  position and method is added, on failure nothing, and no other entry is touched.
\<close>

lemma insert_node_handlers:
  "insert_node m h sub segs n = (n', e) \<Longrightarrow>
   handlers_at ss n' m' =
     (if e = None \<and> ss = map step_of segs \<and> m' = m then Some h else handlers_at ss n m')"
proof (induction segs arbitrary: ss n n' e)
  case Nil
  then show ?case
    by (cases ss) (auto simp: Let_def split: if_splits)
next
  case (Cons seg segs)
  define c where "c = child_or_new (child_at (step_of seg) n) (fresh_node seg)"
  have c: "handlers_at ss' c = (case child_at (step_of seg) n of None \<Rightarrow> Map.empty | Some x \<Rightarrow> handlers_at ss' x)" for ss'
    by (simp add: c_def child_or_new_def split: option.split)
  show ?case
  proof (cases "name_clash seg c")
    case (Some e')
    with Cons.prems have "n' = set_at (step_of seg) c n" "e = Some e'"
      by (simp_all add: insert_node_Cons Let_def flip: c_def)
    with c show ?thesis by (cases ss) auto
  next
    case None
    obtain c' e' where rec: "insert_node m h sub segs c = (c', e')" by fastforce
    with None Cons.prems have "n' = set_at (step_of seg) c' n" "e = e'"
      by (simp_all add: insert_node_Cons Let_def flip: c_def)
    with Cons.IH [OF rec] c show ?thesis by (cases ss) auto
  qed
qed


subsection \<open>The tree as a route registry\<close>

text \<open>
  The contract the rest of the program relies on: \<open>pos\<close> is the position a key denotes,
  a successful registration adds exactly its own entry, a failed one adds nothing, and
  an entry is never overwritten.
\<close>

fun register_all :: "('k \<Rightarrow> 'm \<Rightarrow> 'h \<Rightarrow> 't \<Rightarrow> 't \<times> 'e option) \<Rightarrow> ('k \<times> 'm \<times> 'h) list \<Rightarrow> 't \<Rightarrow> 't \<times> 'e option" where
  "register_all reg [] t = (t, None)"
| "register_all reg ((k, m, h) # rs) t =
     (case reg k m h t of (t', Some e) \<Rightarrow> (t', Some e) | (t', None) \<Rightarrow> register_all reg rs t')"

locale route_registry =
  fixes register :: "'k \<Rightarrow> 'm \<Rightarrow> 'h \<Rightarrow> 't \<Rightarrow> 't \<times> 'e option"
    and find_entry :: "'t \<Rightarrow> 'p \<Rightarrow> 'm \<Rightarrow> 'h option"
    and pos :: "'k \<Rightarrow> 'p"
  assumes register_find: "register k m h t = (t', e) \<Longrightarrow>
      find_entry t' p m' = (if e = None \<and> p = pos k \<and> m' = m then Some h else find_entry t p m')"
    and register_dup: "find_entry t (pos k) m \<noteq> None \<Longrightarrow> snd (register k m h t) \<noteq> None"
begin

abbreviation entries :: "('k \<times> 'm \<times> 'h) list \<Rightarrow> (('p \<times> 'm) \<times> 'h) list" where
  "entries rs \<equiv> map (\<lambda>(k, m, h). ((pos k, m), h)) rs"

lemma register_keeps:
  assumes "find_entry t p m = Some h"
  shows "find_entry (fst (register k m' h' t)) p m = Some h"
proof -
  obtain t' e where r: "register k m' h' t = (t', e)" by fastforce
  with register_dup [of t k m' h'] register_find [OF r, of p m] assms show ?thesis
    by auto
qed

lemma register_all_keeps:
  "find_entry t p m = Some h \<Longrightarrow> find_entry (fst (register_all register rs t)) p m = Some h"
proof (induction rs arbitrary: t)
  case Nil
  then show ?case by simp
next
  case (Cons r rs)
  obtain k m' h' where r: "r = (k, m', h')" by (cases r)
  from register_keeps [OF Cons.prems, of k m' h'] Cons.IH show ?case
    by (auto simp: r split: prod.split option.split)
qed

lemma register_all_found:
  "register_all register rs t = (t', None) \<Longrightarrow>
   find_entry t' p m = (case map_of (entries rs) (p, m) of Some h \<Rightarrow> Some h | None \<Rightarrow> find_entry t p m)
   \<and> distinct (map fst (entries rs)) \<and> (\<forall>(q, m') \<in> fst ` set (entries rs). find_entry t q m' = None)"
proof (induction rs arbitrary: t)
  case Nil
  then show ?case by simp
next
  case (Cons r rs)
  obtain k m1 h1 where r: "r = (k, m1, h1)" by (cases r)
  obtain t1 e1 where reg: "register k m1 h1 t = (t1, e1)" by fastforce
  with Cons.prems r have e1: "e1 = None" and rest: "register_all register rs t1 = (t', None)"
    by (auto split: option.splits)
  have new: "find_entry t (pos k) m1 = None"
    using register_dup [of t k m1 h1] reg e1 by (cases "find_entry t (pos k) m1") auto
  note f1 = register_find [OF reg]
  note IH = Cons.IH [OF rest]
  have own: "find_entry t1 (pos k) m1 = Some h1" using f1 e1 by simp
  have notin: "(pos k, m1) \<notin> fst ` set (entries rs)" using IH own by auto
  have "map_of (entries rs) (pos k, m1) = None" using notin by (simp add: map_of_eq_None_iff)
  with IH own have v: "find_entry t' p m = (case map_of (entries (r # rs)) (p, m) of
      Some h \<Rightarrow> Some h | None \<Rightarrow> find_entry t p m)"
    using f1 e1 r by (auto split: option.split)
  have "\<forall>(q, m') \<in> fst ` set (entries rs). find_entry t q m' = None"
    using IH f1 e1 notin by (fastforce split: if_splits)
  with v IH notin new r show ?case by (simp add: image_image)
qed

end

definition register_node ::
    "segment list \<times> bool \<Rightarrow> string \<Rightarrow> 'h \<Rightarrow> 'h routeNode option \<Rightarrow> 'h routeNode option \<times> route_error option" where
  "register_node k m h root = insert_tree m (fst k) h (snd k) root"

lemma insert_node_dup:
  "handlers_at (map step_of segs) n m \<noteq> None \<Longrightarrow> snd (insert_node m h sub segs n) \<noteq> None"
proof (induction segs arbitrary: n)
  case Nil
  then show ?case by simp
next
  case (Cons seg segs)
  then obtain c where c: "child_at (step_of seg) n = Some c"
    and "handlers_at (map step_of segs) c m \<noteq> None"
    by (auto split: option.splits)
  with Cons.IH [of c] show ?case
    by (auto simp: insert_node_Cons child_or_new_def Let_def split: option.split prod.splits)
qed

lemma insert_tree_find:
  assumes "insert_tree m segs h sub root = (root', e)"
  shows "find_route root' ss m' =
    (if e = None \<and> ss = map step_of segs \<and> m' = m then Some h else find_route root ss m')"
proof -
  define r where "r = child_or_new root empty_root"
  obtain n' e' where ins: "insert_node m h sub segs r = (n', e')" by fastforce
  with assms have "root' = Some n'" "e = e'" by (auto simp: insert_tree_def simp flip: r_def)
  moreover have "handlers_at ss r m' = find_route root ss m'"
    by (auto simp: r_def child_or_new_def find_route_def handlers_at_fresh split: option.split)
  ultimately show ?thesis
    using insert_node_handlers [OF ins, of ss m'] by (simp add: find_route_def)
qed

interpretation rtree: route_registry register_node find_route "\<lambda>k. map step_of (fst k)"
proof unfold_locales
  fix k :: "segment list \<times> bool" and m and h :: 'a and t :: "'a routeNode option" and t' e p m'
  assume "register_node k m h t = (t', e)"
  then show "find_route t' p m' =
      (if e = None \<and> p = map step_of (fst k) \<and> m' = m then Some h else find_route t p m')"
    by (simp add: register_node_def insert_tree_find)
next
  fix t :: "'a routeNode option" and k :: "segment list \<times> bool" and m and h :: 'a
  assume "find_route t (map step_of (fst k)) m \<noteq> None"
  then obtain n where n: "t = Some n" "handlers_at (map step_of (fst k)) n m \<noteq> None"
    by (auto simp: find_route_def split: option.splits)
  from insert_node_dup [OF n(2), of h "snd k"] n(1) show "snd (register_node k m h t) \<noteq> None"
    by (auto simp: register_node_def insert_tree_def child_or_new_def split: prod.splits)
qed

text \<open>Insertion in the route tree is the update of a table: a successful insertion adds the
  handler at the position and method of its pattern and changes no other entry, a failed one
  changes no entry at all, and inserting where the table has an entry always fails.\<close>

theorem insert_tree_table:
  "find_route (fst (insert_tree m segs h sub r0)) ss m' =
     (if snd (insert_tree m segs h sub r0) = None \<and> ss = map step_of segs \<and> m' = m then Some h
      else find_route r0 ss m')
   \<and> (case find_route r0 (map step_of segs) m of
        None \<Rightarrow> True
      | Some h' \<Rightarrow> snd (insert_tree m segs h sub r0) \<noteq> None)"
  using rtree.register_find [of "(segs, sub)" m h r0] rtree.register_dup [of r0 "(segs, sub)" m h]
  by (cases "insert_tree m segs h sub r0") (fastforce simp: register_node_def split: option.split)

subsection \<open>Failed insertions\<close>

text \<open>A node without children and handlers accepts every pattern, so a failure means that
  every node on the way was there before.\<close>

lemma set_at_same: "child_at s n = Some c \<Longrightarrow> set_at s c n = n"
proof (cases n)
  case (Node lit par wc sub hs cs pc wi)
  have "AList.update l c cs = cs" if "map_of cs l = Some c" for l
    using that by (induction cs) auto
  then show "child_at s n = Some c \<Longrightarrow> set_at s c n = n" using Node by (cases s) auto
qed

lemma name_clash_fresh [simp]: "name_clash seg (fresh_node seg) = None"
  by (simp add: name_clash_def fresh_node_def)

lemma insert_node_bare:
  "handlers n = [] \<Longrightarrow> (\<And>s. child_at s n = None) \<Longrightarrow> snd (insert_node m h sub segs n) = None"
proof (induction segs arbitrary: n)
  case Nil
  then show ?case by (simp add: Let_def)
next
  case (Cons seg segs)
  from Cons.IH [of "fresh_node seg"] Cons.prems(2) show ?case
    by (auto simp: insert_node_Cons child_or_new_def Let_def split: prod.split)
qed

lemma insert_node_failed:
  "insert_node m h sub segs n = (n', Some e) \<Longrightarrow> n' = n"
proof (induction segs arbitrary: n n')
  case Nil
  then show ?case by (auto simp: Let_def split: if_splits)
next
  case (Cons seg segs)
  show ?case
  proof (cases "child_at (step_of seg) n")
    case None
    then show ?thesis
      using Cons.prems insert_node_bare [of "fresh_node seg" m h sub segs]
      by (auto simp: insert_node_Cons child_or_new_def Let_def split: prod.splits)
  next
    case (Some c)
    then show ?thesis
      using Cons set_at_same [OF Some]
      by (auto simp: insert_node_Cons child_or_new_def Let_def split: option.splits prod.splits)
  qed
qed

lemma insert_tree_failed: "insert_tree m segs h sub r0 = (r1, Some e) \<Longrightarrow> r1 = r0"
proof -
  assume a: "insert_tree m segs h sub r0 = (r1, Some e)"
  have "child_at s (empty_root :: 'a routeNode) = None" for s
    by (cases s) (simp_all add: empty_root_def)
  then have "snd (insert_node m h sub segs (empty_root :: 'a routeNode)) = None"
    by (intro insert_node_bare) (simp_all add: empty_root_def)
  with a show ?thesis
    by (auto simp: insert_tree_def child_or_new_def dest: insert_node_failed split: option.splits prod.splits)
qed

subsection \<open>Well-formed trees\<close>

text \<open>
  Keys are distinct, a child is stored under its own literal, parameter and wildcard
  children are marked as such, a wildcard node is a leaf, and a node that serves a
  subtree has a handler.
\<close>

fun wf_node :: "'h routeNode \<Rightarrow> bool" where
  "wf_node (Node l p w s hs cs pc wc) \<longleftrightarrow>
     distinct (map fst hs) \<and> distinct (map fst cs) \<and> (s \<longrightarrow> hs \<noteq> [])
     \<and> (w \<longrightarrow> cs = [] \<and> pc = None \<and> wc = None)
     \<and> (\<forall>kc \<in> set cs. literal (snd kc) = fst kc \<and> \<not> wildcard (snd kc) \<and> wf_node (snd kc))
     \<and> (case pc of None \<Rightarrow> True | Some c \<Rightarrow> param c \<noteq> [] \<and> \<not> wildcard c \<and> wf_node c)
     \<and> (case wc of None \<Rightarrow> True | Some c \<Rightarrow> wildcard c \<and> wf_node c)"


text \<open>What holds at one node, and what a child stored at a step must satisfy.\<close>

definition wf_local :: "'h routeNode \<Rightarrow> bool" where
  "wf_local n \<longleftrightarrow>
     distinct (map fst (handlers n)) \<and> distinct (map fst (children n))
     \<and> (subtree n \<longrightarrow> handlers n \<noteq> [])
     \<and> (wildcard n \<longrightarrow> children n = [] \<and> paramChild n = None \<and> wildChild n = None)"

definition wf_child :: "step \<Rightarrow> 'h routeNode \<Rightarrow> bool" where
  "wf_child s c \<longleftrightarrow> wf_node c \<and> (case s of
       Lit l \<Rightarrow> literal c = l \<and> \<not> wildcard c
     | Par \<Rightarrow> param c \<noteq> [] \<and> \<not> wildcard c
     | Wild \<Rightarrow> wildcard c)"

lemma all_steps: "(\<forall>s. P s) \<longleftrightarrow> (\<forall>l. P (Lit l)) \<and> P Par \<and> P Wild"
  by (metis step.exhaust)

lemma wf_node_iff:
  "wf_node n \<longleftrightarrow> wf_local n \<and> (\<forall>s c. child_at s n = Some c \<longrightarrow> wf_child s c)"
proof (cases n)
  case (Node l p w s hs cs pc wc)
  have cs: "distinct (map fst cs) \<Longrightarrow>
      (\<forall>kc \<in> set cs. literal (snd kc) = fst kc \<and> \<not> wildcard (snd kc) \<and> wf_node (snd kc))
      \<longleftrightarrow> (\<forall>l c. map_of cs l = Some c \<longrightarrow> wf_child (Lit l) c)"
    by (auto simp: wf_child_def dest: map_of_SomeD)
  show ?thesis
    unfolding Node all_steps using cs
    by (auto simp: wf_local_def wf_child_def split: option.splits)
qed

declare wf_node.simps [simp del]

lemma wf_node_child: "wf_node n \<Longrightarrow> child_at s n = Some c \<Longrightarrow> wf_child s c"
  by (simp add: wf_node_iff [of n])

lemma wf_local_set_at:
  "wf_local n \<Longrightarrow> \<not> wildcard n \<Longrightarrow> wf_local (set_at s c n)"
  by (cases s) (simp_all add: wf_local_def distinct_update)

lemma wf_node_set_at:
  "wf_node n \<Longrightarrow> wf_child s c \<Longrightarrow> \<not> wildcard n \<Longrightarrow> wf_node (set_at s c n)"
  by (simp add: wf_node_iff [of n] wf_node_iff [of "set_at s c n"] wf_local_set_at)

lemma wf_fresh_node: "wf_child (step_of seg) (fresh_node seg)"
  by (auto simp: wf_child_def wf_node_iff [of "fresh_node seg"])
    (auto simp: wf_local_def fresh_node_def step_of_def new_wild_def new_param_def new_literal_def)

lemma insert_node_sel:
  "insert_node m h sub segs n = (n', e) \<Longrightarrow>
   literal n' = literal n \<and> param n' = param n \<and> wildcard n' = wildcard n"
  by (cases segs) (auto simp: insert_node_Cons Let_def split: if_splits option.splits prod.splits)

lemma insert_node_wf:
  "wf_node n \<Longrightarrow> \<not> list_ex s_wildcard (butlast segs) \<Longrightarrow> (wildcard n \<longrightarrow> segs = []) \<Longrightarrow>
   insert_node m h sub segs n = (n', e) \<Longrightarrow> wf_node n'"
proof (induction segs arbitrary: n n' e)
  case Nil
  then show ?case
    by (auto simp: Let_def wf_node_iff [of n] wf_node_iff [of n'] wf_local_def distinct_update
        split: if_splits)
next
  case (Cons seg segs)
  define c where "c = child_or_new (child_at (step_of seg) n) (fresh_node seg)"
  have c: "wf_child (step_of seg) c"
    using wf_node_child [OF Cons.prems(1)] wf_fresh_node
    by (auto simp: c_def child_or_new_def split: option.split)
  have w: "\<not> wildcard n" using Cons.prems(3) by simp
  show ?case
  proof (cases "name_clash seg c")
    case (Some e')
    with Cons.prems(4) have "n' = set_at (step_of seg) c n"
      by (simp add: insert_node_Cons Let_def flip: c_def)
    with wf_node_set_at [OF Cons.prems(1) c w] show ?thesis by simp
  next
    case None
    obtain c' e' where rec: "insert_node m h sub segs c = (c', e')" by fastforce
    have "wildcard c \<longrightarrow> segs = []" "\<not> list_ex s_wildcard (butlast segs)"
      using c Cons.prems(2)
      by (auto simp: wf_child_def step_of_def split: if_splits)
    with Cons.IH [OF _ _ _ rec] c have "wf_node c'" by (simp add: wf_child_def)
    with insert_node_sel [OF rec] c have "wf_child (step_of seg) c'"
      by (auto simp: wf_child_def split: step.split)
    moreover from None rec Cons.prems(4) have "n' = set_at (step_of seg) c' n"
      by (simp add: insert_node_Cons Let_def flip: c_def)
    ultimately show ?thesis using wf_node_set_at [OF Cons.prems(1) _ w] by simp
  qed
qed

end
