(* ===== verification/RouteLookup.thy ===== *)
theory RouteLookup
  imports RouteTree
begin

text \<open>
  \<open>lookup\<close> and \<open>allowHeader\<close> of \<open>router.go\<close>. The source walks the tree with a byte
  index; \<open>match_parts\<close> is the reference: a structural recursion over the path's
  segments. The refinement between the two carries all statements about what a request
  path matches.
\<close>

text \<open>\<open>core.Param\<close>.\<close>

record Param =
  Name :: string
  Value :: string

text \<open>
  The loop of \<open>lookup\<close> with its variables \<open>cur\<close>, \<open>idx\<close>, \<open>best\<close> and the parameters
  appended through the pointer. The source's result \<open>(nil, false)\<close> is \<open>None\<close>.
\<close>

function lookup_loop ::
    "string \<Rightarrow> 'h routeNode \<Rightarrow> nat \<Rightarrow> 'h routeNode option \<Rightarrow> Param list \<Rightarrow> 'h routeNode option \<times> Param list" where
  "lookup_loop path cur idx best0 params =
     (let best = (if subtree cur \<and> (idx < length path \<or> has_suffix path ''/'') then Some cur else best0)
      in if idx \<ge> length path then
           (if handlers cur \<noteq> [] \<and> subtree cur \<and> has_suffix path ''/'' then (Some cur, params)
            else if handlers cur \<noteq> [] \<and> \<not> subtree cur \<and> \<not> has_suffix path ''/'' then (Some cur, params)
            else if wildChild cur \<noteq> None \<and> has_suffix path ''/'' then
              (wildChild cur, params @ [\<lparr>Name = param (the (wildChild cur)), Value = []\<rparr>])
            else (best, params))
         else
           (let (seg, next) = nextSegment path idx
            in case map_of (children cur) seg of
                 Some child \<Rightarrow> lookup_loop path child (next_index path next) best params
               | None \<Rightarrow>
                   (case paramChild cur of
                      Some pc \<Rightarrow> lookup_loop path pc (next_index path next) best
                                  (params @ [\<lparr>Name = param pc, Value = seg\<rparr>])
                    | None \<Rightarrow>
                        (case wildChild cur of
                           Some w \<Rightarrow> (Some w, params @ [\<lparr>Name = param w, Value = drop idx path\<rparr>])
                         | None \<Rightarrow> (best, params)))))"
  by pat_completeness auto
termination
proof (relation "measure (\<lambda>(path, cur, idx, best, params). length path - idx)", goal_cases)
  case 1
  then show ?case by simp
next
  case (2 path cur idx best0 params best x seg nx child)
  then show ?case
    using nextSegment_refines(1,2) [of idx path seg nx] by (simp add: diff_less_mono2)
next
  case (3 path cur idx best0 params best x seg nx pc)
  then show ?case
    using nextSegment_refines(1,2) [of idx path seg nx] by (simp add: diff_less_mono2)
qed

declare lookup_loop.simps [simp del]

definition lookup :: "'h routeNode option \<Rightarrow> string \<Rightarrow> Param list \<Rightarrow> 'h routeNode option \<times> Param list" where
  "lookup root path params =
     (case root of None \<Rightarrow> (None, params) | Some r \<Rightarrow> lookup_loop path r 0 None params)"

subsection \<open>allowHeader\<close>

definition allow_methods :: "'h routeNode \<Rightarrow> string list" where
  "allow_methods node =
     (let ms = map fst (handlers node);
          ms' = (if ''GET'' \<in> set ms then ''HEAD'' # ms else ms)
      in sort (remdups ms'))"

definition allowHeader :: "'h routeNode \<Rightarrow> string" where
  "allowHeader node = join_with '', '' (allow_methods node)"

text \<open>The \<open>Allow\<close> header lists each method registered at the node once, in byte order,
  and \<open>HEAD\<close> as soon as \<open>GET\<close> is registered; it does not depend on the order in which
  the handler map is ranged over.\<close>

theorem allow_methods_spec:
  "sorted (allow_methods n) \<and> distinct (allow_methods n)
   \<and> set (allow_methods n) = fst ` set (handlers n)
       \<union> (if ''GET'' \<in> fst ` set (handlers n) then {''HEAD''} else {})
   \<and> allow_methods n = sorted_list_of_set (set (allow_methods n))"
proof -
  have "sorted (allow_methods n)" "distinct (allow_methods n)"
    by (simp_all add: allow_methods_def Let_def)
  moreover from this have "allow_methods n = sorted_list_of_set (set (allow_methods n))"
    by (simp add: sorted_list_of_set.idem_if_sorted_distinct)
  ultimately show ?thesis by (auto simp: allow_methods_def Let_def)
qed

subsection \<open>The reference: matching the segments of a path\<close>

text \<open>
  \<open>path_parts rs\<close> lists the segments still to be matched, each with the bytes of the
  path from its position on (the value a wildcard takes). A rest of slashes only is one
  empty segment, as it is for \<open>nextSegment\<close>.
\<close>

function path_parts :: "string \<Rightarrow> (string \<times> string) list" where
  "path_parts [] = []"
| "path_parts (c # rs) = (let (seg, rs') = next_part (c # rs) in (seg, c # rs) # path_parts rs')"
  by pat_completeness auto

lemma next_part_shorter: "rs \<noteq> [] \<Longrightarrow> next_part rs = (seg, rs') \<Longrightarrow> length rs' < length rs"
proof -
  assume "rs \<noteq> []" and n: "next_part rs = (seg, rs')"
  let ?d = "dropWhile (\<lambda>x. x \<noteq> CHR ''/'') (dropWhile (\<lambda>x. x = CHR ''/'') rs)"
  have le: "length ?d \<le> length rs"
    by (meson le_trans length_dropWhile_le)
  have "rs' = tl ?d" using n by (simp only: next_part_def Let_def prod.inject)
  then have "length rs' = length ?d - 1" by simp
  with le \<open>rs \<noteq> []\<close> show ?thesis by (cases rs) auto
qed

termination path_parts
proof (relation "measure length", goal_cases)
  case 1
  then show ?case by simp
next
  case (2 c rs x seg rs')
  then show ?case using next_part_shorter [of "c # rs" seg rs'] by simp
qed

definition match_end ::
    "bool \<Rightarrow> 'h routeNode \<Rightarrow> 'h routeNode option \<Rightarrow> Param list \<Rightarrow> 'h routeNode option \<times> Param list" where
  "match_end slash cur best params =
     (if handlers cur \<noteq> [] \<and> subtree cur = slash then (Some cur, params)
      else (case wildChild cur of
              Some w \<Rightarrow> if slash then (Some w, params @ [\<lparr>Name = param w, Value = []\<rparr>])
                       else (best, params)
            | None \<Rightarrow> (if subtree cur \<and> slash then Some cur else best, params)))"

fun match_parts ::
    "bool \<Rightarrow> 'h routeNode \<Rightarrow> (string \<times> string) list \<Rightarrow> 'h routeNode option \<Rightarrow> Param list
       \<Rightarrow> 'h routeNode option \<times> Param list" where
  "match_parts slash cur [] best params = match_end slash cur best params"
| "match_parts slash cur ((seg, rs) # parts) best params =
     (let best' = (if subtree cur then Some cur else best)
      in case map_of (children cur) seg of
           Some child \<Rightarrow> match_parts slash child parts best' params
         | None \<Rightarrow>
             (case paramChild cur of
                Some pc \<Rightarrow> match_parts slash pc parts best' (params @ [\<lparr>Name = param pc, Value = seg\<rparr>])
              | None \<Rightarrow>
                  (case wildChild cur of
                     Some w \<Rightarrow> (Some w, params @ [\<lparr>Name = param w, Value = rs\<rparr>])
                   | None \<Rightarrow> (best', params))))"

lemma lookup_loop_parts:
  "idx \<le> length path \<Longrightarrow>
   lookup_loop path cur idx best params =
     match_parts (has_suffix path ''/'') cur (path_parts (drop idx path)) best params"
proof (induction path cur idx best params rule: lookup_loop.induct)
  case (1 path cur idx best0 params)
  show ?case
  proof (cases "idx < length path")
    case False
    with 1(3) have "idx = length path" by simp
    then show ?thesis
      by (auto simp: lookup_loop.simps [of path cur] match_end_def split: option.split)
  next
    case True
    obtain seg nxt where ns: "nextSegment path idx = (seg, nxt)" by fastforce
    note r = nextSegment_refines [OF True ns]
    have d: "drop idx path = path ! idx # drop (Suc idx) path"
      using True by (rule Cons_nth_drop_Suc [symmetric])
    have parts: "path_parts (drop idx path) =
        (seg, drop idx path) # path_parts (drop (next_index path nxt) path)"
      using r(3) unfolding d by simp
    show ?thesis
      using True 1(1) [OF refl _ ns [symmetric]] 1(2) [OF refl _ ns [symmetric]] r(2)
      by (auto simp: lookup_loop.simps [of path cur] ns parts Let_def split: option.split)
  qed
qed

text \<open>C31. The byte-index loop of \<open>lookup\<close> computes exactly the structural match of the path's
  segments against the tree, for every tree, path and parameter buffer.\<close>

theorem lookup_refines_match:
  "lookup (Some r) path params =
   match_parts (has_suffix path ''/'') r (path_parts path) None params"
  by (simp add: lookup_def lookup_loop_parts)


lemma next_part_slash [simp]: "next_part (CHR ''/'' # rs) = next_part rs"
  by (simp add: next_part_def)

subsection \<open>Priority of the alternatives at one node\<close>

text \<open>
  The three kinds of child in the order in which the source tries them. The order is
  the linear order of the type, so that "the first alternative that exists" is a
  minimum.
\<close>

datatype child_kind = Literal_child | Param_child | Wild_child

fun kind_rank :: "child_kind \<Rightarrow> nat" where
  "kind_rank Literal_child = 0"
| "kind_rank Param_child = 1"
| "kind_rank Wild_child = 2"

instantiation child_kind :: linorder
begin

definition less_eq_child_kind :: "child_kind \<Rightarrow> child_kind \<Rightarrow> bool" where
  "less_eq_child_kind a b \<longleftrightarrow> kind_rank a \<le> kind_rank b"

definition less_child_kind :: "child_kind \<Rightarrow> child_kind \<Rightarrow> bool" where
  "less_child_kind a b \<longleftrightarrow> kind_rank a < kind_rank b"

instance
proof
  fix a b :: child_kind
  show "a = b" if "a \<le> b" "b \<le> a"
    using that by (cases a; cases b) (simp_all add: less_eq_child_kind_def)
qed (auto simp: less_eq_child_kind_def less_child_kind_def)

end

definition kinds_at :: "'h routeNode \<Rightarrow> string \<Rightarrow> child_kind set" where
  "kinds_at n seg =
     (if map_of (children n) seg \<noteq> None then {Literal_child} else {})
     \<union> (if paramChild n \<noteq> None then {Param_child} else {})
     \<union> (if wildChild n \<noteq> None then {Wild_child} else {})"

definition step_via :: "child_kind \<Rightarrow> string \<Rightarrow> step" where
  "step_via k seg = (case k of Literal_child \<Rightarrow> Lit seg | Param_child \<Rightarrow> Par | Wild_child \<Rightarrow> Wild)"

lemma Min_kinds:
  "map_of (children n) seg \<noteq> None \<Longrightarrow> Min (kinds_at n seg) = Literal_child"
  "map_of (children n) seg = None \<Longrightarrow> paramChild n \<noteq> None \<Longrightarrow> Min (kinds_at n seg) = Param_child"
  "map_of (children n) seg = None \<Longrightarrow> paramChild n = None \<Longrightarrow> wildChild n \<noteq> None \<Longrightarrow>
     Min (kinds_at n seg) = Wild_child"
  by (auto simp: kinds_at_def less_eq_child_kind_def min_def)

text \<open>At every node the match goes down the child of least kind (literal before parameter
  before wildcard) and never looks at another one; it stops with the remembered subtree
  exactly when the node has no child for the segment.\<close>

theorem match_takes_least_kind:
  "match_parts slash n ((seg, rs) # parts) best ps =
   (let best' = (if subtree n then Some n else best); k = Min (kinds_at n seg)
    in if kinds_at n seg = {} then (best', ps)
       else (case (k, child_at (step_via k seg) n) of
           (Literal_child, Some c) \<Rightarrow> match_parts slash c parts best' ps
         | (Param_child, Some c) \<Rightarrow>
             match_parts slash c parts best' (ps @ [\<lparr>Name = param c, Value = seg\<rparr>])
         | (Wild_child, Some c) \<Rightarrow> (Some c, ps @ [\<lparr>Name = param c, Value = rs\<rparr>])
         | (_, None) \<Rightarrow> (None, ps)))"
proof (cases "map_of (children n) seg")
  case (Some c)
  then show ?thesis using Min_kinds(1) [of n seg] by (simp add: step_via_def kinds_at_def)
next
  case None
  then show ?thesis
    using Min_kinds(2,3) [of n seg]
    by (cases "paramChild n"; cases "wildChild n") (simp_all add: step_via_def kinds_at_def)
qed

subsection \<open>Soundness: what a returned node stands for\<close>

text \<open>
  \<open>reaches n parts m ss vs rest\<close>: from \<open>n\<close> the segments \<open>parts\<close> can be read along the
  steps \<open>ss\<close> down to \<open>m\<close>, binding the parameters \<open>vs\<close> and leaving \<open>rest\<close>.
\<close>

inductive reaches ::
    "'h routeNode \<Rightarrow> (string \<times> string) list \<Rightarrow> 'h routeNode \<Rightarrow> step list \<Rightarrow> Param list
      \<Rightarrow> (string \<times> string) list \<Rightarrow> bool" where
  reaches_here: "reaches n parts n [] [] parts"
| reaches_lit: "map_of (children n) seg = Some c \<Longrightarrow> reaches c parts m ss vs rest \<Longrightarrow>
    reaches n ((seg, rs) # parts) m (Lit seg # ss) vs rest"
| reaches_par: "paramChild n = Some c \<Longrightarrow> reaches c parts m ss vs rest \<Longrightarrow>
    reaches n ((seg, rs) # parts) m (Par # ss) (\<lparr>Name = param c, Value = seg\<rparr> # vs) rest"
| reaches_wild: "wildChild n = Some w \<Longrightarrow>
    reaches n ((seg, rs) # parts) w [Wild] [\<lparr>Name = param w, Value = rs\<rparr>] []"
| reaches_wild_end: "wildChild n = Some w \<Longrightarrow>
    reaches n [] w [Wild] [\<lparr>Name = param w, Value = []\<rparr>] []"

inductive_simps reaches_Nil_steps: "reaches n parts m [] vs rest"

lemma reaches_node_at: "reaches n parts m ss vs rest \<Longrightarrow> node_at ss n = Some m"
  by (induction rule: reaches.induct) simp_all

text \<open>How the match ended: exactly, in a wildcard, or in an enclosing subtree.\<close>

definition match_result ::
    "bool \<Rightarrow> 'h routeNode \<Rightarrow> step list \<Rightarrow> (string \<times> string) list \<Rightarrow> bool" where
  "match_result slash n ss rest \<longleftrightarrow>
     (rest = [] \<and> handlers n \<noteq> [] \<and> subtree n = slash)
     \<or> (ss \<noteq> [] \<and> last ss = Wild \<and> rest = [])
     \<or> (subtree n \<and> (rest \<noteq> [] \<or> slash))"

lemma match_result_Cons: "match_result slash n ss rest \<Longrightarrow> match_result slash n (s # ss) rest"
  by (auto simp: match_result_def)

lemma match_end_sound:
  assumes "match_end slash cur best ps = (Some n, ps')"
  shows "(best = Some n \<and> ps' = ps) \<or>
    (\<exists>ss vs rest. reaches cur [] n ss vs rest \<and> match_result slash n ss rest \<and> ps' = ps @ vs)"
proof -
  consider "best = Some n" "ps' = ps" | "n = cur" "ps' = ps" "handlers cur \<noteq> []" "subtree cur = slash"
    | "n = cur" "ps' = ps" "subtree cur" "slash"
    | "wildChild cur = Some n" "ps' = ps @ [\<lparr>Name = param n, Value = []\<rparr>]"
    using assms by (auto simp: match_end_def split: if_splits option.splits)
  then show ?thesis
  proof cases
    case 4
    with reaches_wild_end [OF 4(1)] show ?thesis by (fastforce simp: match_result_def)
  qed (auto simp: match_result_def intro!: reaches_here exI [of _ "[]"])
qed

lemma match_parts_sound:
  "match_parts slash cur parts best ps = (Some n, ps') \<Longrightarrow>
   (best = Some n \<and> prefix ps ps') \<or>
   (\<exists>ss vs rest. reaches cur parts n ss vs rest \<and> match_result slash n ss rest \<and> prefix (ps @ vs) ps'
      \<and> (rest = [] \<longrightarrow> ps' = ps @ vs))"
proof (induction slash cur parts best ps rule: match_parts.induct)
  case (1 slash cur best params)
  then show ?case using match_end_sound [of slash cur best params n ps'] by fastforce
next
  case (2 slash cur seg rs parts best params)
  let ?best = "if subtree cur then Some cur else best"
  have here: ?case if "?best = Some n" "prefix params ps'"
  proof (cases "subtree cur")
    case True
    with that have "reaches cur ((seg, rs) # parts) n [] [] ((seg, rs) # parts)"
      by (simp add: reaches_here)
    with True that show ?thesis by (fastforce simp: match_result_def)
  qed (use that in simp)
  show ?case
  proof (cases "map_of (children cur) seg")
    case (Some c)
    with 2(3) 2(2) [OF refl Some] consider "?best = Some n" "prefix params ps'"
      | ss vs rest where "reaches cur ((seg, rs) # parts) n (Lit seg # ss) vs rest"
        "match_result slash n ss rest" "prefix (params @ vs) ps'" "rest = [] \<longrightarrow> ps' = params @ vs"
      by (auto simp: Let_def intro: reaches_lit)
    then show ?thesis
    proof cases
      case 1
      then show ?thesis by (rule here)
    next
      case 2
      then show ?thesis using match_result_Cons by blast
    qed
  next
    case lit: None
    show ?thesis
    proof (cases "paramChild cur")
      case (Some c)
      let ?v = "\<lparr>Name = param c, Value = seg\<rparr>"
      from 2(3) 2(1) [OF refl lit Some] lit Some consider "?best = Some n" "prefix (params @ [?v]) ps'"
        | ss vs rest where "reaches cur ((seg, rs) # parts) n (Par # ss) (?v # vs) rest"
          "match_result slash n ss rest" "prefix (params @ ?v # vs) ps'" "rest = [] \<longrightarrow> ps' = params @ ?v # vs"
        by (auto simp: Let_def intro: reaches_par)
      then show ?thesis
      proof cases
        case 1
        with here show ?thesis by (meson append_prefixD)
      next
        case 2
        then show ?thesis using match_result_Cons by blast
      qed
    next
      case par: None
      show ?thesis
      proof (cases "wildChild cur")
        case (Some w)
        with lit par 2(3) have "n = w" "ps' = params @ [\<lparr>Name = param w, Value = rs\<rparr>]"
          by (auto simp: Let_def)
        with reaches_wild [OF Some, of seg rs parts] show ?thesis
          by (fastforce simp: match_result_def)
      next
        case None
        with lit par 2(3) have "?best = Some n" "ps' = params" by (auto simp: Let_def)
        with here show ?thesis by simp
      qed
    qed
  qed
qed


text \<open>C29. A returned node is never arbitrary: it sits in the tree at a position whose steps the
  path's segments can be read along, and the match is exact (with the trailing slash a
  subtree node asks for), or ends in a wildcard that takes the rest, or is an enclosing
  subtree. The parameters start with the segments bound on the way, and are exactly
  those whenever the whole path was read.\<close>

theorem lookup_sound:
  assumes "lookup root path [] = (Some n, ps)"
  shows "\<exists>r ss vs rest. root = Some r \<and> node_at ss r = Some n
    \<and> reaches r (path_parts path) n ss vs rest
    \<and> match_result (has_suffix path ''/'') n ss rest
    \<and> prefix vs ps \<and> (rest = [] \<longrightarrow> ps = vs)"
proof -
  from assms obtain r where r: "root = Some r"
    by (auto simp: lookup_def split: option.splits)
  with assms have "match_parts (has_suffix path ''/'') r (path_parts path) None [] = (Some n, ps)"
    by (simp add: lookup_def lookup_loop_parts)
  from match_parts_sound [OF this] r show ?thesis
    by (auto dest: reaches_node_at)
qed

text \<open>The tree of \<open>/users/:id\<close> and \<open>/files/*path\<close>.\<close>

definition demo_tree :: "nat routeNode option" where
  "demo_tree = fst (insert_tree ''GET'' [literal_segment ''files'', wildcard_segment ''path''] 2 False
     (fst (insert_tree ''GET'' [literal_segment ''users'', param_segment ''id''] 1 False None)))"

theorem lookup_sound_witness:
  "\<exists>n r ss vs rest. demo_tree = Some r \<and> node_at ss r = Some n \<and> handlers n = [(''GET'', 1)]
    \<and> reaches r (path_parts ''/users/42'') n ss vs rest
    \<and> match_result (has_suffix ''/users/42'' ''/'') n ss rest
    \<and> prefix vs [\<lparr>Name = ''id'', Value = ''42''\<rparr>]"
proof -
  define n where "n = the (fst (lookup demo_tree ''/users/42'' []))"
  have l: "lookup demo_tree ''/users/42'' [] = (Some n, [\<lparr>Name = ''id'', Value = ''42''\<rparr>])"
    and h: "handlers n = [(''GET'', 1)]"
    unfolding n_def by code_simp+
  from lookup_sound [OF l] h show ?thesis by blast
qed

subsection \<open>Completeness: which requests reach a registered route\<close>

text \<open>The node of a pattern, reached through children that carry the pattern's own names.\<close>

fun pattern_at :: "'h routeNode \<Rightarrow> segment list \<Rightarrow> 'h routeNode option" where
  "pattern_at n [] = Some n"
| "pattern_at n (seg # segs) =
     (case child_at (step_of seg) n of
        Some c \<Rightarrow> (if name_clash seg c = None then pattern_at c segs else None)
      | None \<Rightarrow> None)"

text \<open>
  The values \<open>vals\<close> instantiate the literals and parameters \<open>segs\<close>, and no literal child of the
  tree shadows one of the parameters on the way.
\<close>

fun clear_way :: "'h routeNode \<Rightarrow> segment list \<Rightarrow> string list \<Rightarrow> bool" where
  "clear_way n [] [] = True"
| "clear_way n (seg # segs) (v # vals) =
     (case step_of seg of
        Lit l \<Rightarrow> v = l \<and> (case child_at (Lit l) n of Some c \<Rightarrow> clear_way c segs vals | None \<Rightarrow> False)
      | Par \<Rightarrow> map_of (children n) v = None
          \<and> (case child_at Par n of Some c \<Rightarrow> clear_way c segs vals | None \<Rightarrow> False)
      | Wild \<Rightarrow> False)"
| "clear_way n _ _ = False"

text \<open>
  A pattern may end in a wildcard. Then \<open>rest\<close> is what the path has behind the slash after the
  other segments, and the wildcard may be shadowed too: by a parameter in its place, by a literal
  child for the next segment of the path, and, when \<open>rest\<close> is empty, by a static tree served at the
  path before it.
\<close>

definition ends_wild :: "segment list \<Rightarrow> bool" where
  "ends_wild segs \<longleftrightarrow> segs \<noteq> [] \<and> s_wildcard (last segs)"

definition unshadowed :: "'h routeNode \<Rightarrow> segment list \<Rightarrow> string list \<Rightarrow> string \<Rightarrow> bool" where
  "unshadowed n segs vals rest \<longleftrightarrow>
     (if ends_wild segs
      then clear_way n (butlast segs) vals
        \<and> (case node_at (map step_of (butlast segs)) n of
             None \<Rightarrow> False
           | Some p \<Rightarrow> paramChild p = None \<and> map_of (children p) (fst (next_part rest)) = None
               \<and> \<not> (subtree p \<and> rest = [] \<and> vals \<noteq> []))
      else clear_way n segs vals \<and> rest = [])"

fun param_bindings :: "segment list \<Rightarrow> string list \<Rightarrow> Param list" where
  "param_bindings (seg # segs) (v # vals) =
     (if step_of seg = Par then [\<lparr>Name = s_param seg, Value = v\<rparr>] else []) @ param_bindings segs vals"
| "param_bindings _ _ = []"

lemma match_parts_follow:
  "clear_way r segs (map fst pairs) \<Longrightarrow> pattern_at r segs = Some n \<Longrightarrow>
   \<exists>best'. match_parts slash r (pairs @ parts) best ps =
     match_parts slash n parts best' (ps @ param_bindings segs (map fst pairs))"
proof (induction segs arbitrary: r pairs best ps)
  case Nil
  then show ?case by (cases pairs) auto
next
  case (Cons seg segs)
  then obtain v rs pairs' where p: "pairs = (v, rs) # pairs'"
    by (cases pairs) auto
  from Cons.prems(2) obtain c where c: "child_at (step_of seg) r = Some c"
    "name_clash seg c = None" "pattern_at c segs = Some n"
    by (auto split: option.splits if_splits)
  show ?case
  proof (cases "step_of seg")
    case (Lit l)
    with Cons.prems(1) p c have "clear_way c segs (map fst pairs')" "v = l" by auto
    with Cons.IH [OF _ c(3), of pairs' "if subtree r then Some r else best" ps] Lit c p
    show ?thesis by (simp add: Let_def)
  next
    case Par
    with Cons.prems(1) p c have "clear_way c segs (map fst pairs')" "map_of (children r) v = None"
      by auto
    moreover from Par c(2) have "param c = s_param seg"
      by (auto simp: name_clash_def step_of_def split: if_splits)
    ultimately show ?thesis
      using Cons.IH [OF _ c(3), of pairs' "if subtree r then Some r else best"
          "ps @ [\<lparr>Name = s_param seg, Value = v\<rparr>]"] Par c p
      by (simp add: Let_def)
  next
    case Wild
    with Cons.prems(1) p show ?thesis by simp
  qed
qed

text \<open>Request paths: \<open>/v1/v2/...\<close>.\<close>

definition path_of :: "string list \<Rightarrow> string" where
  "path_of vals = concat (map (\<lambda>v. CHR ''/'' # v) vals)"

definition path_value :: "string \<Rightarrow> bool" where
  "path_value v \<longleftrightarrow> v \<noteq> [] \<and> CHR ''/'' \<notin> set v"

lemma path_of_simps [simp]: "path_of [] = []" "path_of (v # vals) = CHR ''/'' # v @ path_of vals"
  by (simp_all add: path_of_def)

lemma next_part_value:
  assumes "path_value v" and "tail = [] \<or> hd tail = CHR ''/''"
  shows "next_part (v @ tail) = (v, tl tail)"
proof -
  obtain c v' where v: "v = c # v'" "c \<noteq> CHR ''/''"
    using assms(1) by (cases v) (auto simp: path_value_def)
  have "dropWhile (\<lambda>x. x = CHR ''/'') (v @ tail) = v @ tail"
    using v by simp
  moreover have "list_all (\<lambda>x. x \<noteq> CHR ''/'') v"
    using assms(1) by (auto simp: path_value_def list_all_iff)
  ultimately show ?thesis
    using span_valid [of "\<lambda>x. x \<noteq> CHR ''/''" v tail] assms(2)
    by (simp only: next_part_def Let_def) simp
qed

lemma path_parts_value:
  assumes "path_value v" and "tail = [] \<or> hd tail = CHR ''/''"
  shows "path_parts (v @ tail) = (v, v @ tail) # path_parts (tl tail)"
    "path_parts (CHR ''/'' # v @ tail) = (v, CHR ''/'' # v @ tail) # path_parts (tl tail)"
proof -
  obtain c v' where "v = c # v'" using assms(1) by (cases v) (auto simp: path_value_def)
  with next_part_value [OF assms] show
    "path_parts (v @ tail) = (v, v @ tail) # path_parts (tl tail)"
    "path_parts (CHR ''/'' # v @ tail) = (v, CHR ''/'' # v @ tail) # path_parts (tl tail)"
    by simp_all
qed

lemma path_of_head: "path_of vals @ tail = [] \<or> hd (path_of vals @ tail) = CHR ''/''"
  if "tail = [] \<or> hd tail = CHR ''/''"
  using that by (cases vals) auto

lemma path_parts_path_of:
  assumes "list_all path_value vals" "vals \<noteq> []" and tail: "tail = [] \<or> hd tail = CHR ''/''"
  shows "\<exists>pairs. map fst pairs = vals \<and> path_parts (path_of vals @ tail) = pairs @ path_parts (tl tail)"
proof -
  have inner: "\<exists>pairs. map fst pairs = vals \<and>
      path_parts (tl (path_of vals @ tail)) = pairs @ path_parts (tl tail)"
    if "list_all path_value vals" for vals
    using that
  proof (induction vals)
    case Nil
    then show ?case by simp
  next
    case (Cons v vals)
    then obtain pairs where "map fst pairs = vals"
      "path_parts (tl (path_of vals @ tail)) = pairs @ path_parts (tl tail)" by auto
    with path_parts_value(1) [of v "path_of vals @ tail"] path_of_head [OF tail] Cons.prems
    show ?case by (intro exI [of _ "(v, v @ path_of vals @ tail) # pairs"]) simp
  qed
  obtain v vs where v: "vals = v # vs" using assms(2) by (cases vals) auto
  with inner [of vs] assms(1) obtain pairs where "map fst pairs = vs"
    "path_parts (tl (path_of vs @ tail)) = pairs @ path_parts (tl tail)" by auto
  with path_parts_value(2) [of v "path_of vs @ tail"] path_of_head [OF tail] assms(1) v
  show ?thesis by (intro exI [of _ "(v, CHR ''/'' # v @ path_of vs @ tail) # pairs"]) simp
qed

lemma path_of_no_suffix:
  "list_all path_value vals \<Longrightarrow> \<not> has_suffix (path_of vals) ''/''"
proof (induction vals rule: rev_induct)
  case Nil
  then show ?case by simp
next
  case (snoc v vals)
  then have v: "v \<noteq> []" "CHR ''/'' \<notin> set v" by (simp_all add: path_value_def)
  then have "last v \<noteq> CHR ''/''" using last_in_set [of v] by metis
  moreover have "path_of (vals @ [v]) = path_of vals @ CHR ''/'' # v" by (simp add: path_of_def)
  ultimately show ?case using v(1) by (auto simp: suffix_def dest: arg_cong [where f = last])
qed

text \<open>The request for a pattern with given values, and the parameters it binds. A wildcard takes the rest
  of the path as it is, slashes included, and the empty string when the path ends in the slash before
  it; a wildcard that is the whole pattern also takes the leading slash.\<close>

definition request_path :: "segment list \<Rightarrow> string list \<Rightarrow> string \<Rightarrow> string" where
  "request_path segs vals rest = path_of vals @ (if ends_wild segs then CHR ''/'' # rest else [])"

definition pattern_bindings :: "segment list \<Rightarrow> string list \<Rightarrow> string \<Rightarrow> Param list" where
  "pattern_bindings segs vals rest =
     param_bindings segs vals
     @ (if ends_wild segs
        then [\<lparr>Name = s_param (last segs), Value = (if vals = [] then CHR ''/'' # rest else rest)\<rparr>] else [])"

lemma lookup_clear_way:
  assumes "pattern_at r segs = Some n" and "handlers n \<noteq> []" and "\<not> subtree n"
    and "clear_way r segs vals" and "list_all path_value vals" and "vals \<noteq> []"
  shows "lookup (Some r) (path_of vals) ps = (Some n, ps @ param_bindings segs vals)"
proof -
  obtain pairs where pairs: "map fst pairs = vals" "path_parts (path_of vals) = pairs"
    using path_parts_path_of [OF assms(5,6), of "[]"] by auto
  obtain best where "match_parts False r (pairs @ []) None ps =
      match_parts False n [] best (ps @ param_bindings segs vals)"
    using match_parts_follow [of r segs pairs n False "[]" None ps] assms(1,4) pairs(1) by blast
  with pairs path_of_no_suffix [OF assms(5)] assms(2,3) show ?thesis
    by (simp add: lookup_def lookup_loop_parts match_end_def)
qed

lemma lookup_wildcard:
  assumes "pattern_at r segs = Some n" and "clear_way r segs vals" and "list_all path_value vals"
    and "wildChild n = Some w" and "paramChild n = None"
    and "map_of (children n) (fst (next_part rest)) = None"
    and "\<not> (subtree n \<and> rest = [] \<and> vals \<noteq> [])"
  shows "lookup (Some r) (path_of vals @ CHR ''/'' # rest) ps =
    (Some w, ps @ param_bindings segs vals @ [\<lparr>Name = param w, Value = (if vals = [] then CHR ''/'' # rest else rest)\<rparr>])"
proof (cases "vals = []")
  case True
  with assms(2) have segs: "segs = []" by (cases segs) simp_all
  obtain seg rs' where next_part: "next_part rest = (seg, rs')" by fastforce
  with True segs assms show ?thesis by (simp add: lookup_def lookup_loop_parts)
next
  case vals: False
  let ?path = "path_of vals @ CHR ''/'' # rest"
  obtain pairs where pairs: "map fst pairs = vals" "path_parts ?path = pairs @ path_parts rest"
    using path_parts_path_of [OF assms(3) vals, of "CHR ''/'' # rest"] by auto
  obtain best where m: "match_parts (has_suffix ?path ''/'') r (pairs @ path_parts rest) None ps =
      match_parts (has_suffix ?path ''/'') n (path_parts rest) best (ps @ param_bindings segs vals)"
    using match_parts_follow [of r segs pairs n "has_suffix ?path ''/''" "path_parts rest" None ps]
      assms(1,2) pairs(1) by blast
  show ?thesis
  proof (cases rest)
    case Nil
    moreover have "has_suffix (path_of vals @ ''/'') ''/''" by (rule has_suffix_append)
    ultimately show ?thesis
      using m pairs(2) assms(4,7) vals by (simp add: lookup_def lookup_loop_parts match_end_def)
  next
    case (Cons c rs)
    obtain seg rs' where "next_part rest = (seg, rs')" by fastforce
    with m pairs(2) assms(4,5,6) Cons vals show ?thesis
      by (simp add: lookup_def lookup_loop_parts)
  qed
qed

lemma pattern_at_append:
  "pattern_at n (xs @ ys) = (case pattern_at n xs of None \<Rightarrow> None | Some c \<Rightarrow> pattern_at c ys)"
  by (induction xs arbitrary: n) (simp_all split: option.split)

lemma pattern_at_node: "pattern_at n segs = Some x \<Longrightarrow> node_at (map step_of segs) n = Some x"
  by (induction segs arbitrary: n) (auto split: option.splits if_splits)

lemma param_bindings_short: "length vals = length segs \<Longrightarrow> param_bindings (segs @ more_segs) vals = param_bindings segs vals"
proof (induction segs arbitrary: vals)
  case Nil
  then show ?case by (cases more_segs) simp_all
next
  case (Cons seg segs)
  then show ?case by (cases vals) simp_all
qed

lemma clear_way_length: "clear_way n segs vals \<Longrightarrow> length vals = length segs"
  by (induction n segs vals rule: clear_way.induct) (auto split: step.splits option.splits)

lemma lookup_follows:
  assumes "pattern_at r segs = Some n" and "handlers n \<noteq> []" and "\<not> subtree n"
    and "unshadowed r segs vals rest" and "list_all path_value vals" and "segs \<noteq> []"
  shows "lookup (Some r) (request_path segs vals rest) ps = (Some n, ps @ pattern_bindings segs vals rest)"
proof (cases "ends_wild segs")
  case False
  with assms(4) have way: "clear_way r segs vals" by (simp add: unshadowed_def)
  with assms(6) have "vals \<noteq> []" by (cases segs) auto
  from lookup_clear_way [OF assms(1-3) way assms(5) this] False show ?thesis
    by (simp add: request_path_def pattern_bindings_def)
next
  case True
  define init w where "init = butlast segs" and "w = last segs"
  have segs: "segs = init @ [w]" and wild: "s_wildcard w"
    using assms(6) True by (simp_all add: init_def w_def ends_wild_def)
  from assms(1) obtain p where p: "pattern_at r init = Some p" "pattern_at p [w] = Some n"
    by (auto simp: segs pattern_at_append split: option.splits)
  then have n: "wildChild p = Some n" "param n = s_param w"
    using wild by (auto simp: step_of_def name_clash_def split: option.splits if_splits)
  from assms(4) True pattern_at_node [OF p(1)] have way: "clear_way r init vals"
    and free: "paramChild p = None" "map_of (children p) (fst (next_part rest)) = None" "\<not> (subtree p \<and> rest = [] \<and> vals \<noteq> [])"
    by (simp_all add: unshadowed_def flip: init_def)
  from lookup_wildcard [OF p(1) way assms(5) n(1) free, of ps] True n(2)
    param_bindings_short [OF clear_way_length [OF way], of "[w]"] show ?thesis
    by (simp add: request_path_def pattern_bindings_def segs)
qed

text \<open>C30. A request for an instance of a registered pattern, with or without a wildcard at its end,
  reaches it, with each parameter bound to its own segment and the wildcard to the rest of the path,
  unless a literal child shadows a parameter on the way, or a literal, a parameter or a static tree
  the wildcard.\<close>

theorem lookup_complete:
  assumes "pattern_at r segs = Some n" and "handlers n \<noteq> []" and "\<not> subtree n"
    and "unshadowed r segs vals rest" and "list_all path_value vals" and "segs \<noteq> []"
  shows "lookup (Some r) (request_path segs vals rest) ps = (Some n, ps @ pattern_bindings segs vals rest)"
  using assms by (rule lookup_follows)

theorem lookup_complete_witness:
  "lookup demo_tree ''/users/42'' [] =
    (pattern_at (the demo_tree) [literal_segment ''users'', param_segment ''id''],
     [\<lparr>Name = ''id'', Value = ''42''\<rparr>])
   \<and> lookup demo_tree ''/files/a/b.txt'' [] =
    (pattern_at (the demo_tree) [literal_segment ''files'', wildcard_segment ''path''],
     [\<lparr>Name = ''path'', Value = ''a/b.txt''\<rparr>])"
proof -
  let ?us = "[literal_segment ''users'', param_segment ''id'']" and ?fs = "[literal_segment ''files'', wildcard_segment ''path'']"
  define r where "r = the demo_tree"
  define n k where "n = the (pattern_at r ?us)" and "k = the (pattern_at r ?fs)"
  have "demo_tree = Some r" and pat: "pattern_at r ?us = Some n" "pattern_at r ?fs = Some k"
    and n: "handlers n \<noteq> []" "\<not> subtree n" "unshadowed r ?us [''users'', ''42''] []" "list_all path_value [''users'', ''42'']"
    and k: "handlers k \<noteq> []" "\<not> subtree k" "unshadowed r ?fs [''files''] ''a/b.txt''" "list_all path_value [''files'']"
    and req: "request_path ?us [''users'', ''42''] [] = ''/users/42''" "request_path ?fs [''files''] ''a/b.txt'' = ''/files/a/b.txt''"
    and bind: "pattern_bindings ?us [''users'', ''42''] [] = [\<lparr>Name = ''id'', Value = ''42''\<rparr>]"
      "pattern_bindings ?fs [''files''] ''a/b.txt'' = [\<lparr>Name = ''path'', Value = ''a/b.txt''\<rparr>]"
    unfolding n_def k_def r_def by code_simp+
  from lookup_complete [OF pat(1) n, of "[]"] lookup_complete [OF pat(2) k, of "[]"] this show ?thesis
    by (simp flip: r_def)
qed

end
