(* ===== verification/RouterServe.thy ===== *)
theory RouterServe
  imports RouteLookup
begin

text \<open>
  The \<open>Router\<close> of \<open>router.go\<close> on top of the tree: \<open>Handle\<close>,
  \<open>HandleStaticWithOptions\<close> and the routing decision of \<open>ServeHTTP\<close>.

  A \<open>requestHandler\<close> is a closure in the source; here it is the data it closes over: the
  chain and parameter names of \<open>wrapRequestHandler\<close>, or the static file handler. The
  type variables are the handler functions and the file systems. The parameter pool
  \<open>paramBuf\<close> only reuses memory: a request starts with an empty buffer.
\<close>

record StaticOptions =
  MaxAge :: int
  DisableIndex :: bool
  EnableETag :: bool

datatype ('c, 'f) requestHandler =
    ChainHandler "'c list" "string list"
  | StaticHandler string 'f StaticOptions

record ('c, 'f) Router =
  root :: "('c, 'f) requestHandler routeNode option"
  noRoute :: 'c
  noMethod :: 'c
  maxBody :: int

definition NewRouter :: "'c \<Rightarrow> 'c \<Rightarrow> ('c, 'f) Router" where
  "NewRouter noRt noMeth = \<lparr>root = None, noRoute = noRt, noMethod = noMeth, maxBody = 0\<rparr>"

definition SetMaxBodyBytes :: "int \<Rightarrow> ('c, 'f) Router \<Rightarrow> ('c, 'f) Router" where
  "SetMaxBodyBytes n rt = rt\<lparr>maxBody := n\<rparr>"

definition insert_route ::
    "string \<Rightarrow> segment list \<Rightarrow> ('c, 'f) requestHandler \<Rightarrow> bool \<Rightarrow> ('c, 'f) Router
      \<Rightarrow> ('c, 'f) Router \<times> route_error option" where
  "insert_route method segs handler sub rt =
     (let (r, e) = insert_tree method segs handler sub (root rt) in (rt\<lparr>root := r\<rparr>, e))"

text \<open>
  \<open>Handle\<close>. The error of \<open>parsePattern\<close> is dropped (\<open>segs, _ := parsePattern(translated)\<close>)
  and a nil slice of segments is inserted in its place.
\<close>

definition Handle ::
    "string \<Rightarrow> string \<Rightarrow> 'c list \<Rightarrow> ('c, 'f) Router \<Rightarrow> ('c, 'f) Router \<times> route_error option" where
  "Handle method path chain rt =
     (case translateGinPattern path of
        Inl err \<Rightarrow> (rt, Some err)
      | Inr (translated, params) \<Rightarrow>
          (if method = [] then (rt, Some (MethodEmpty path))
           else (let segs = (case parsePattern translated of Inl _ \<Rightarrow> [] | Inr segs \<Rightarrow> segs)
                 in insert_route method segs (ChainHandler chain params) False rt)))"

definition HandleStaticWithOptions ::
    "string \<Rightarrow> 'f \<Rightarrow> StaticOptions \<Rightarrow> ('c, 'f) Router \<Rightarrow> ('c, 'f) Router \<times> route_error option" where
  "HandleStaticWithOptions pre fs opts rt =
     (let pattern0 = (if pre = [] then ''/'' else pre);
          pattern = (if \<not> has_suffix pattern0 ''/'' then pattern0 @ ''/'' else pattern0)
      in case parsePattern pattern of
           Inl err \<Rightarrow> (rt, Some err)
         | Inr segs \<Rightarrow>
             (let handler = StaticHandler (trim_suffix pattern ''/'') fs opts
              in case insert_route ''GET'' segs handler True rt of
                   (rt1, Some err) \<Rightarrow> (rt1, Some err)
                 | (rt1, None) \<Rightarrow> insert_route ''HEAD'' segs handler True rt1))"

definition HandleStatic :: "string \<Rightarrow> 'f \<Rightarrow> ('c, 'f) Router \<Rightarrow> ('c, 'f) Router \<times> route_error option" where
  "HandleStatic pre fs rt =
     HandleStaticWithOptions pre fs \<lparr>MaxAge = 0, DisableIndex = False, EnableETag = False\<rparr> rt"

text \<open>
  The branches of \<open>ServeHTTP\<close>: what is done with the request. The second lookup appends
  to the same parameter buffer, whose content the redirect does not use.
\<close>

datatype ('c, 'f) serve_action =
    Dispatch "('c, 'f) requestHandler" "Param list"
  | Redirect301 string
  | Options204 string
  | MethodNotAllowed405 string
  | NotFound404

definition serve :: "('c, 'f) Router \<Rightarrow> string \<Rightarrow> string \<Rightarrow> ('c, 'f) serve_action" where
  "serve rt method path =
     (case lookup (root rt) path [] of
        (None, params) \<Rightarrow>
          (if \<not> has_suffix path ''/'' then
             (case lookup (root rt) (path @ ''/'') params of
                (Some n, _) \<Rightarrow> if subtree n then Redirect301 (path @ ''/'') else NotFound404
              | (None, _) \<Rightarrow> NotFound404)
           else NotFound404)
      | (Some node, params) \<Rightarrow>
          (case (case map_of (handlers node) method of
                   Some h \<Rightarrow> Some h
                 | None \<Rightarrow> if method = ''HEAD'' then map_of (handlers node) ''GET'' else None) of
             Some h \<Rightarrow> Dispatch h params
           | None \<Rightarrow> if method = ''OPTIONS'' then Options204 (allowHeader node)
                    else MethodNotAllowed405 (allowHeader node)))"

subsection \<open>Registered nodes and their requests\<close>

lemma insert_node_pattern:
  "insert_node m h sub segs n = (n', None) \<Longrightarrow> wf_node n \<Longrightarrow>
   \<exists>x. pattern_at n' segs = Some x \<and> map_of (handlers x) m = Some h \<and> subtree x = sub"
proof (induction segs arbitrary: n n')
  case Nil
  then show ?case
    by (auto simp: Let_def wf_node_iff [of n] wf_local_def split: if_splits)
next
  case (Cons seg segs)
  define c where "c = child_or_new (child_at (step_of seg) n) (fresh_node seg)"
  have wf: "wf_node c"
    using wf_node_child [OF Cons.prems(2)] wf_fresh_node
    by (auto simp: c_def child_or_new_def wf_child_def split: option.split)
  from Cons.prems(1) have clash: "name_clash seg c = None"
    by (auto simp: insert_node_Cons Let_def simp flip: c_def split: option.splits)
  obtain c' e' where rec: "insert_node m h sub segs c = (c', e')" by fastforce
  with clash Cons.prems(1) have n': "n' = set_at (step_of seg) c' n" "e' = None"
    by (simp_all add: insert_node_Cons Let_def flip: c_def)
  from Cons.IH [OF _ wf] rec n' obtain x where
    "pattern_at c' segs = Some x" "map_of (handlers x) m = Some h" "subtree x = sub" by auto
  moreover have "name_clash seg c' = None"
    using clash insert_node_sel [OF rec] by (simp add: name_clash_def split: if_splits)
  ultimately show ?case using n' by simp
qed

definition wf_root :: "'h routeNode option \<Rightarrow> bool" where
  "wf_root rt = (case rt of None \<Rightarrow> True | Some n \<Rightarrow> wf_node n \<and> \<not> wildcard n)"

lemma wf_empty_root [simp]: "wf_node (empty_root :: 'h routeNode)" "\<not> wildcard (empty_root :: 'h routeNode)"
proof -
  have "child_at s (empty_root :: 'h routeNode) = None" for s :: step by (cases s) simp_all
  then show "wf_node (empty_root :: 'h routeNode)"
    by (simp add: wf_node_iff [of empty_root]) (simp add: wf_local_def)
qed (simp add: empty_root_def)

lemma wf_child_or_new: "wf_root r \<Longrightarrow> wf_node (child_or_new r empty_root) \<and> \<not> wildcard (child_or_new r empty_root)"
  by (auto simp: wf_root_def child_or_new_def split: option.splits)

text \<open>Every registration, successful or not, keeps the tree well formed: keys stay distinct,
  a child sits under its own literal, parameter and wildcard nodes keep their mark, a
  wildcard node stays a leaf and a subtree node keeps a handler.\<close>

theorem insert_tree_wf:
  assumes "wf_root r0" and "\<not> list_ex s_wildcard (butlast segs)"
  shows "wf_root (fst (insert_tree m segs h sub r0))"
proof -
  obtain n' e where ins: "insert_node m h sub segs (child_or_new r0 empty_root) = (n', e)"
    by fastforce
  from insert_node_wf [OF _ assms(2) _ ins] insert_node_sel [OF ins] wf_child_or_new [OF assms(1)]
  have "wf_node n' \<and> \<not> wildcard n'" by auto
  with ins show ?thesis by (simp add: insert_tree_def wf_root_def)
qed

theorem insert_tree_wf_witness:
  "wf_root (fst (insert_tree ''GET'' [literal_segment ''a'', wildcard_segment ''p''] (0::nat) False None))"
  by (rule insert_tree_wf) (simp_all add: wf_root_def segment_defs)

lemma Handle_clean:
  assumes "clean_pattern segs" and "m \<noteq> []"
  shows "Handle m (render_gin segs) chain rt =
    insert_route m segs (ChainHandler chain (param_names segs)) False rt"
  using translate_render [OF assms(1), of "render_gin segs" "[]" "[]"] parse_render [OF assms(1)] assms(2)
  by (simp add: Handle_def translateGinPattern_def)

text \<open>The segments under which a pattern is registered and the names of its parameters. A pattern without
  segments is registered at the root: those of slashes alone and those whose braces the parser refuses.\<close>

definition pattern_segments :: "string \<Rightarrow> segment list" where
  "pattern_segments path =
     (case translateGinPattern path of
        Inl _ \<Rightarrow> []
      | Inr (translated, _) \<Rightarrow> (case parsePattern translated of Inl _ \<Rightarrow> [] | Inr segs \<Rightarrow> segs))"

definition pattern_names :: "string \<Rightarrow> string list" where
  "pattern_names path = (case translateGinPattern path of Inl _ \<Rightarrow> [] | Inr (_, params) \<Rightarrow> params)"

lemma pattern_clean:
  assumes "clean_pattern segs"
  shows "pattern_segments (render_gin segs) = segs" "pattern_names (render_gin segs) = param_names segs"
  using translate_render [OF assms, of "render_gin segs" "[]" "[]"] parse_render [OF assms]
  by (simp_all add: pattern_segments_def pattern_names_def translateGinPattern_def)

lemma Handle_insert:
  "Handle m path chain rt =
     (case translateGinPattern path of
        Inl err \<Rightarrow> (rt, Some err)
      | Inr (_, params) \<Rightarrow>
          (if m = [] then (rt, Some (MethodEmpty path))
           else insert_route m (pattern_segments path) (ChainHandler chain params) False rt))"
  by (auto simp: Handle_def pattern_segments_def Let_def split: sum.split)

definition stored_pattern :: "('c, 'f) Router \<Rightarrow> segment list \<Rightarrow> string \<Rightarrow> ('c, 'f) requestHandler \<Rightarrow> bool" where
  "stored_pattern rt segs m h \<longleftrightarrow> (\<exists>r x. root rt = Some r \<and> pattern_at r segs = Some x
     \<and> map_of (handlers x) m = Some h \<and> \<not> subtree x)"

lemma Handle_pattern_stored:
  assumes "wf_root (root rt)" "Handle m path chain rt = (rt1, None)"
  shows "stored_pattern rt1 (pattern_segments path) m (ChainHandler chain (pattern_names path))"
proof -
  let ?h = "ChainHandler chain (pattern_names path)"
  obtain n' where ins: "insert_node m ?h False (pattern_segments path) (child_or_new (root rt) empty_root) = (n', None)"
    and "root rt1 = Some n'"
    using assms(2) by (auto simp: Handle_insert pattern_names_def insert_route_def insert_tree_def split: sum.splits if_splits prod.splits)
  with insert_node_pattern [OF ins] wf_child_or_new [OF assms(1)] show ?thesis by (auto simp: stored_pattern_def)
qed

lemma stored_pattern_serve:
  assumes "stored_pattern rt segs m h" and "root rt = Some r" and "unshadowed r segs vals rest"
    and "list_all path_value vals" and "segs \<noteq> []"
  shows "serve rt m (request_path segs vals rest) = Dispatch h (pattern_bindings segs vals rest)"
proof -
  obtain x where x: "pattern_at r segs = Some x" "map_of (handlers x) m = Some h" "\<not> subtree x"
    using assms(1,2) unfolding stored_pattern_def by auto
  then have "handlers x \<noteq> []" by auto
  from lookup_follows [OF x(1) this x(3) assms(3-5), of "[]"] x(2) assms(2) show ?thesis by (simp add: serve_def)
qed


text \<open>A concrete router: \<open>GET /users/:id\<close>, on top of \<open>GET /users/me\<close>.\<close>

definition demo_segs :: "segment list" where
  "demo_segs = [literal_segment ''users'', param_segment ''id'']"

definition demo_router :: "(nat, nat) Router" where
  "demo_router = fst (Handle ''GET'' ''/users/me'' [6] (NewRouter 404 405))"

definition demo_handled :: "(nat, nat) Router" where
  "demo_handled = fst (Handle ''GET'' (render_gin demo_segs) [7] demo_router)"


subsection \<open>Later registrations\<close>

lemma insert_node_persist:
  "insert_node m h sub segs n = (n', e) \<Longrightarrow> node_at ss n = Some x \<Longrightarrow> map_of (handlers x) m' = Some h' \<Longrightarrow>
   \<exists>x'. node_at ss n' = Some x' \<and> map_of (handlers x') m' = Some h' \<and> subtree x' = subtree x"
proof (induction segs arbitrary: n n' e ss)
  case Nil
  then show ?case
    by (cases ss) (auto simp: Let_def split: if_splits option.splits)
next
  case (Cons seg segs)
  define c where "c = child_or_new (child_at (step_of seg) n) (fresh_node seg)"
  obtain c' e' where rec: "insert_node m h sub segs c = (c', e')" by fastforce
  have n': "n' = set_at (step_of seg) c n \<or> n' = set_at (step_of seg) c' n"
    using Cons.prems(1) rec
    by (cases "name_clash seg c") (simp_all add: insert_node_Cons Let_def flip: c_def)
  show ?case
  proof (cases ss)
    case Nil
    with Cons.prems n' show ?thesis by auto
  next
    case ss: (Cons s ss')
    show ?thesis
    proof (cases "s = step_of seg")
      case False
      with ss Cons.prems n' show ?thesis by auto
    next
      case True
      with ss Cons.prems(2) have x: "node_at ss' c = Some x"
        by (auto simp: c_def child_or_new_def split: option.splits)
      from Cons.IH [OF rec x Cons.prems(3)] x Cons.prems(3) n' ss True show ?thesis by auto
    qed
  qed
qed

text \<open>A handler stored at a position of the router's tree.\<close>

definition stored :: "('c, 'f) Router \<Rightarrow> step list \<Rightarrow> string \<Rightarrow> ('c, 'f) requestHandler \<Rightarrow> bool \<Rightarrow> bool" where
  "stored rt ss m h sub \<longleftrightarrow> (case root rt of None \<Rightarrow> False | Some r \<Rightarrow>
     (case node_at ss r of None \<Rightarrow> False
      | Some x \<Rightarrow> map_of (handlers x) m = Some h \<and> subtree x = sub))"

lemma insert_route_stored:
  "stored rt ss m h sub \<Longrightarrow> stored (fst (insert_route m' segs h' sub' rt)) ss m h sub"
proof -
  assume "stored rt ss m h sub"
  then obtain r x where r: "root rt = Some r" "node_at ss r = Some x" "map_of (handlers x) m = Some h"
    "subtree x = sub" by (auto simp: stored_def split: option.splits)
  obtain n' e where ins: "insert_node m' h' sub' segs r = (n', e)" by fastforce
  from insert_node_persist [OF ins r(2,3)] ins r show ?thesis
    by (auto simp: stored_def insert_route_def insert_tree_def child_or_new_def)
qed

lemma Handle_stored: "stored rt ss m h sub \<Longrightarrow> stored (fst (Handle m' path chain rt)) ss m h sub"
  using insert_route_stored
  by (fastforce simp: Handle_def split: sum.split prod.split)

lemma parsePattern_wild: "parsePattern p = Inr segs \<Longrightarrow> \<not> list_ex s_wildcard (butlast segs)"
  by (auto simp: parsePattern_def Let_def split: if_splits)

text \<open>Whatever insertions of parsed patterns keep, the registrations keep.\<close>

lemma HandleStatic_invariant:
  fixes P :: "('c, 'f) Router \<Rightarrow> bool"
  assumes step: "\<And>m segs h sub rt. P rt \<Longrightarrow> \<not> list_ex s_wildcard (butlast segs) \<Longrightarrow> P (fst (insert_route m segs h sub rt))"
    and init: "P rt"
  shows "P (fst (HandleStaticWithOptions pre fs opts rt))"
proof -
  define pattern where "pattern = (let p = (if pre = [] then ''/'' else pre) in if \<not> has_suffix p ''/'' then p @ ''/'' else p)"
  define h :: "('c, 'f) requestHandler" where "h = StaticHandler (trim_suffix pattern ''/'') fs opts"
  show ?thesis
  proof (cases "parsePattern pattern")
    case (Inl e)
    with init show ?thesis
      by (simp add: HandleStaticWithOptions_def Let_def flip: pattern_def [unfolded Let_def])
  next
    case (Inr segs)
    note wild = parsePattern_wild [OF Inr]
    obtain rt1 e1 where i1: "insert_route ''GET'' segs h True rt = (rt1, e1)" by fastforce
    from step [OF init wild, of "''GET''" h True] i1 have P1: "P rt1" by simp
    from step [OF P1 wild, of "''HEAD''" h True] P1 i1 Inr show ?thesis
      by (cases e1) (simp_all add: HandleStaticWithOptions_def Let_def h_def flip: pattern_def [unfolded Let_def])
  qed
qed

lemma Handle_invariant:
  assumes step: "\<And>m segs h sub rt. P rt \<Longrightarrow> \<not> list_ex s_wildcard (butlast segs) \<Longrightarrow> P (fst (insert_route m segs h sub rt))"
    and init: "P rt"
  shows "P (fst (Handle m path chain rt))"
  using init parsePattern_wild
  by (auto simp: Handle_def Let_def split: sum.split prod.split intro!: step)

lemma insert_route_wf:
  assumes "wf_root (root rt)" and "\<not> list_ex s_wildcard (butlast segs)"
  shows "wf_root (root (fst (insert_route m segs h sub rt)))"
proof -
  obtain n' e where ins: "insert_node m h sub segs (child_or_new (root rt) empty_root) = (n', e)"
    by fastforce
  from insert_node_wf [OF _ assms(2) _ ins] insert_node_sel [OF ins] wf_child_or_new [OF assms(1)]
  have "wf_node n' \<and> \<not> wildcard n'" by auto
  with ins show ?thesis by (simp add: insert_route_def insert_tree_def wf_root_def)
qed

lemma Handle_wf: "wf_root (root rt) \<Longrightarrow> wf_root (root (fst (Handle m path chain rt)))"
  by (rule Handle_invariant [where P = "\<lambda>rt. wf_root (root rt)", OF insert_route_wf])

lemma HandleStatic_wf:
  "wf_root (root rt) \<Longrightarrow> wf_root (root (fst (HandleStaticWithOptions pre fs opts rt)))"
  by (rule HandleStatic_invariant [where P = "\<lambda>rt. wf_root (root rt)", OF insert_route_wf])

lemma HandleStatic_stored:
  "stored rt ss m h sub \<Longrightarrow> stored (fst (HandleStaticWithOptions pre fs opts rt)) ss m h sub"
  by (rule HandleStatic_invariant [where P = "\<lambda>rt. stored rt ss m h sub", OF insert_route_stored])

text \<open>A handler stored at a pattern, with the parameter names of the pattern; it stays there too.\<close>

lemma insert_pattern_persist:
  "insert_node m h sub segs n = (n', e) \<Longrightarrow> pattern_at n ss = Some x \<Longrightarrow> map_of (handlers x) m' = Some h' \<Longrightarrow>
   \<exists>x'. pattern_at n' ss = Some x' \<and> map_of (handlers x') m' = Some h' \<and> subtree x' = subtree x"
proof (induction segs arbitrary: n n' e ss)
  case Nil
  then show ?case
    by (cases ss) (auto simp: Let_def split: if_splits option.splits)
next
  case (Cons seg segs)
  define c where "c = child_or_new (child_at (step_of seg) n) (fresh_node seg)"
  obtain c' e' where rec: "insert_node m h sub segs c = (c', e')" by fastforce
  have n': "n' = set_at (step_of seg) c n \<or> n' = set_at (step_of seg) c' n"
    using Cons.prems(1) rec
    by (cases "name_clash seg c") (simp_all add: insert_node_Cons Let_def flip: c_def)
  show ?case
  proof (cases ss)
    case Nil
    with Cons.prems n' show ?thesis by auto
  next
    case ss: (Cons s ss')
    show ?thesis
    proof (cases "step_of s = step_of seg")
      case False
      with ss Cons.prems n' show ?thesis by auto
    next
      case True
      with ss Cons.prems(2) have x: "pattern_at c ss' = Some x" "name_clash s c = None"
        by (auto simp: c_def child_or_new_def split: option.splits if_splits)
      have "name_clash s c' = name_clash s c" using insert_node_sel [OF rec] by (simp add: name_clash_def)
      with x(2) have "name_clash s c' = None" by simp
      with Cons.IH [OF rec x(1) Cons.prems(3)] x Cons.prems(3) n' ss True show ?thesis by auto
    qed
  qed
qed

lemma insert_route_pattern:
  assumes "stored_pattern rt segs m h"
  shows "stored_pattern (fst (insert_route m' segs' h' sub rt)) segs m h"
proof -
  obtain r x where r: "root rt = Some r" "pattern_at r segs = Some x" "map_of (handlers x) m = Some h" "\<not> subtree x"
    using assms unfolding stored_pattern_def by blast
  obtain n' e where ins: "insert_node m' h' sub segs' r = (n', e)" by fastforce
  from insert_pattern_persist [OF ins r(2,3)] ins r show ?thesis
    by (auto simp: stored_pattern_def insert_route_def insert_tree_def child_or_new_def)
qed

lemma Handle_pattern: "stored_pattern rt segs m h \<Longrightarrow> stored_pattern (fst (Handle m' path chain rt)) segs m h"
  by (rule Handle_invariant [where P = "\<lambda>rt. stored_pattern rt segs m h", OF insert_route_pattern])

definition register_handle :: "string \<Rightarrow> string \<Rightarrow> 'c list \<Rightarrow> ('c, 'f) Router \<Rightarrow> ('c, 'f) Router \<times> route_error option" where
  "register_handle path method chain rt = Handle method path chain rt"

lemma handle_all_stored:
  "stored rt ss m h sub \<Longrightarrow> stored (fst (register_all register_handle rs rt)) ss m h sub"
proof (induction rs arbitrary: rt)
  case Nil
  then show ?case by simp
next
  case (Cons r rs)
  obtain path m' chain where r: "r = (path, m', chain)" by (cases r)
  from Handle_stored [OF Cons.prems, of m' path chain] Cons.IH show ?case
    by (auto simp: r register_handle_def split: prod.split option.split)
qed

lemma pattern_at_literals:
  "node_at (map Lit ls) r = Some x \<Longrightarrow>
   pattern_at r (map literal_segment ls) = Some x \<and> clear_way r (map literal_segment ls) ls
   \<and> param_bindings (map literal_segment ls) ls = []"
proof (induction ls arbitrary: r)
  case Nil
  then show ?case by simp
next
  case (Cons l ls)
  then show ?case
    by (auto simp: step_of_def name_clash_def literal_segment_def split: option.splits)
qed

lemma literals_not_wild [simp]: "\<not> ends_wild (map literal_segment ls)"
  by (cases ls rule: rev_cases) (simp_all add: ends_wild_def literal_segment_def)

lemma literals_unshadowed:
  assumes "node_at (map Lit ls) r = Some x"
  shows "unshadowed r (map literal_segment ls) ls []" "request_path (map literal_segment ls) ls [] = path_of ls"
    "pattern_bindings (map literal_segment ls) ls [] = []"
  using pattern_at_literals [OF assms] by (simp_all add: unshadowed_def request_path_def pattern_bindings_def)

lemma stored_literals:
  assumes "stored_pattern rt (map literal_segment ls) m h" "root rt = Some r"
  obtains x where "node_at (map Lit ls) r = Some x"
proof -
  obtain x where "pattern_at r (map literal_segment ls) = Some x" using assms unfolding stored_pattern_def by auto
  then have "node_at (map step_of (map literal_segment ls)) r = Some x" by (rule pattern_at_node)
  moreover have "map step_of (map literal_segment ls) = map Lit ls" by (simp add: step_of_def literal_segment_def)
  ultimately show thesis using that by (simp only:)
qed

lemma stored_literal_serve:
  assumes "stored rt (map Lit ls) m h False" and "list_all path_value ls" and "ls \<noteq> []"
  shows "serve rt m (path_of ls) = Dispatch h []"
proof -
  from assms(1) obtain r x where r: "root rt = Some r" "node_at (map Lit ls) r = Some x"
    "map_of (handlers x) m = Some h" "\<not> subtree x" by (auto simp: stored_def split: option.splits)
  have ne: "handlers x \<noteq> []" using r(3) by auto
  note p = conjunct1 [OF pattern_at_literals [OF r(2)]] and u = literals_unshadowed [OF r(2)]
  from lookup_follows [OF p ne r(4) u(1) assms(2), of "[]"] u(2,3) r(1,3) assms(3)
  show ?thesis by (simp add: serve_def)
qed

lemma Handle_literal_stored:
  assumes "wf_root (root rt)" and "list_all clean_literal ls" and "m \<noteq> []"
    and "Handle m (path_of ls) chain rt = (rt1, None)"
  shows "stored rt1 (map Lit ls) m (ChainHandler chain []) False"
proof -
  let ?segs = "map literal_segment ls"
  have path: "render_gin ?segs = path_of ls" "param_names ?segs = []"
    by (induction ls) (simp_all add: render_gin_segment_def literal_segment_def)
  have "\<not> list_ex s_wildcard (butlast ?segs)"
    by (simp add: map_butlast [symmetric] list_ex_iff literal_segment_def)
  moreover have "list_all clean_segment ?segs"
    using assms(2) by (simp add: list_all_iff clean_segment_def literal_segment_def)
  ultimately have "clean_pattern ?segs" by (simp add: clean_pattern_def)
  from Handle_clean [OF this assms(3), of chain rt] assms(4) path
  obtain n' where ins: "insert_node m (ChainHandler chain []) False ?segs (child_or_new (root rt) empty_root) = (n', None)"
    and rt1: "root rt1 = Some n'"
    by (auto simp: insert_route_def insert_tree_def split: prod.splits)
  have at: "pattern_at r ?segs = Some x \<Longrightarrow> node_at (map Lit ls) r = Some x" for r :: "('a, 'b) requestHandler routeNode" and x
    by (induction ls arbitrary: r)
      (auto simp: step_of_def literal_segment_def split: option.splits if_splits)
  from insert_node_pattern [OF ins] wf_child_or_new [OF assms(1)] at rt1
  show ?thesis by (fastforce simp: stored_def)
qed

text \<open>A route without parameters is always reachable: once \<open>Handle\<close> has accepted it, every
  request for its path and method runs its chain, whatever is registered afterwards and
  whether or not those registrations succeed.\<close>

theorem literal_route_stays:
  assumes "wf_root (root rt)" and "ls \<noteq> []" and "list_all path_value ls" and "list_all clean_literal ls"
    and "m \<noteq> []" and "Handle m (path_of ls) chain rt = (rt1, None)"
    and "register_all register_handle rs rt1 = (rt2, e)"
  shows "serve rt2 m (path_of ls) = Dispatch (ChainHandler chain []) []"
proof -
  from handle_all_stored [OF Handle_literal_stored [OF assms(1,4,5,6)], of rs] assms(7)
  have "stored rt2 (map Lit ls) m (ChainHandler chain []) False" by simp
  with stored_literal_serve assms(2,3) show ?thesis by blast
qed

theorem literal_route_stays_witness:
  "serve (fst (register_all register_handle
      [(''/:x/me'', ''GET'', [8]), (''/users/me'', ''GET'', [9]), (''/never'', ''GET'', [1])] demo_router))
    ''GET'' ''/users/me'' = Dispatch (ChainHandler [6] []) []"
proof -
  have h: "wf_root (root (NewRouter 404 405 :: (nat, nat) Router))" "[''users'', ''me''] \<noteq> []"
    "list_all path_value [''users'', ''me'']" "list_all clean_literal [''users'', ''me'']" "''GET'' \<noteq> []"
    "Handle ''GET'' (path_of [''users'', ''me'']) [6] (NewRouter 404 405) = (demo_router, None)"
    by code_simp+
  from literal_route_stays [OF h surjective_pairing] show ?thesis
    by (simp only: path_of_simps append.simps append_Nil2)
qed

subsection \<open>The router as a route registry\<close>

definition pattern_position :: "string \<Rightarrow> step list" where
  "pattern_position path = map step_of (pattern_segments path)"

definition find_chain :: "('c, 'f) Router \<Rightarrow> step list \<Rightarrow> string \<Rightarrow> 'c list option" where
  "find_chain rt ss m =
     (case find_route (root rt) ss m of Some (ChainHandler chain _) \<Rightarrow> Some chain | _ \<Rightarrow> None)"

lemma insert_route_find:
  assumes "insert_route m segs h sub rt = (rt', e)"
  shows "find_route (root rt') ss m' =
    (if e = None \<and> ss = map step_of segs \<and> m' = m then Some h else find_route (root rt) ss m')"
  using assms insert_tree_find [of m segs h sub "root rt"]
  by (auto simp: insert_route_def split: prod.splits)

interpretation router: route_registry register_handle find_chain pattern_position
proof unfold_locales
  fix path m and chain :: "'a list" and rt :: "('a, 'b) Router" and rt' e p m'
  assume reg: "register_handle path m chain rt = (rt', e)"
  show "find_chain rt' p m' =
      (if e = None \<and> p = pattern_position path \<and> m' = m then Some chain else find_chain rt p m')"
  proof (cases "translateGinPattern path")
    case (Inl err)
    with reg show ?thesis by (auto simp: register_handle_def Handle_insert)
  next
    case (Inr tp)
    with reg insert_route_find [of m "pattern_segments path" _ False rt rt' e p m'] show ?thesis
      by (cases tp; cases "m = []")
        (auto simp: register_handle_def Handle_insert find_chain_def pattern_position_def)
  qed
next
  fix rt :: "('a, 'b) Router" and path m and chain :: "'a list"
  assume "find_chain rt (pattern_position path) m \<noteq> None"
  then have found: "find_route (root rt) (map step_of (pattern_segments path)) m \<noteq> None"
    by (auto simp: find_chain_def pattern_position_def split: option.splits)
  show "snd (register_handle path m chain rt) \<noteq> None"
  proof (cases "translateGinPattern path")
    case (Inl err)
    then show ?thesis by (simp add: register_handle_def Handle_insert)
  next
    case (Inr tp)
    with rtree.register_dup [of "root rt" "(pattern_segments path, False)" m "ChainHandler chain (snd tp)"] found
    show ?thesis
      by (cases tp) (auto simp: register_handle_def Handle_insert insert_route_def register_node_def
          split: prod.splits)
  qed
qed

text \<open>C32. Registering a list of routes as \<open>Start\<close> does (stop at the first error): if it succeeds,
  the table holds exactly the chains it held before plus the listed ones, no two of the
  listed routes share a position and method, and none of them was registered before.\<close>

theorem handle_all_table:
  assumes "register_all register_handle rs rt = (rt', None)"
  shows "find_chain rt' p m =
      (case map_of (map (\<lambda>(path, m, chain). ((pattern_position path, m), chain)) rs) (p, m) of
         Some chain \<Rightarrow> Some chain | None \<Rightarrow> find_chain rt p m)
    \<and> distinct (map (\<lambda>(path, m, chain). (pattern_position path, m)) rs)
    \<and> (\<forall>(path, m', chain) \<in> set rs. find_chain rt (pattern_position path) m' = None)"
proof -
  have fst_entry: "fst \<circ> (\<lambda>(path, m, chain). ((pattern_position path, m), chain)) =
      (\<lambda>(path, m, chain). (pattern_position path, m))" by auto
  show ?thesis
    using router.register_all_found [OF assms, of p m]
    unfolding map_map fst_entry by (auto split: prod.splits)
qed

theorem handle_all_table_witness:
  "find_chain (fst (register_all register_handle [(''/a'', ''GET'', [1]), (''/b/:x'', ''PUT'', [2])]
      (NewRouter 404 405 :: (nat, nat) Router))) [Lit ''b'', Par] ''PUT'' = Some [2]"
proof -
  obtain rt' where reg: "register_all register_handle [(''/a'', ''GET'', [1]), (''/b/:x'', ''PUT'', [2])]
      (NewRouter 404 405 :: (nat, nat) Router) = (rt', None)"
  proof
    show "register_all register_handle [(''/a'', ''GET'', [1]), (''/b/:x'', ''PUT'', [2])]
      (NewRouter 404 405 :: (nat, nat) Router) = (fst (register_all register_handle
        [(''/a'', ''GET'', [1]), (''/b/:x'', ''PUT'', [2])] (NewRouter 404 405)), None)" by code_simp
  qed
  have "pattern_position ''/a'' = [Lit ''a'']" "pattern_position ''/b/:x'' = [Lit ''b'', Par]"
    by code_simp+
  with handle_all_table [OF reg, of "[Lit ''b'', Par]" "''PUT''"] reg show ?thesis by simp
qed

text \<open>A failed \<open>Handle\<close> leaves the router exactly as it was, whichever of its errors it returns:
  although nodes are created on the way down before the checks, no failure can come
  after a creation.\<close>

theorem failed_handle_unchanged:
  assumes "Handle m path chain rt = (rt', Some err)"
  shows "rt' = rt"
  using assms insert_tree_failed [of m _ _ _ "root rt"]
  by (fastforce simp: Handle_def insert_route_def Let_def split: sum.splits if_splits prod.splits)

theorem failed_handle_unchanged_witness:
  "fst (Handle ''GET'' ''/users/:name'' [1] demo_handled) = demo_handled"
proof -
  have "snd (Handle ''GET'' ''/users/:name'' [1] demo_handled) = Some (ParamConflict ''id'' ''name'')"
    by code_simp
  then show ?thesis
    using failed_handle_unchanged [of "''GET''" "''/users/:name''" "[1]" demo_handled]
    by (cases "Handle ''GET'' ''/users/:name'' [1] demo_handled") simp
qed

subsection \<open>What a request gets\<close>

text \<open>A redirect is only ever issued to a path with a trailing slash whose lookup is a subtree
  (static files), and only when the path itself matches nothing; in particular no request
  is redirected to a path that would be redirected again.\<close>

theorem redirect_only_to_subtree:
  assumes "serve rt m path = Redirect301 loc"
  shows "loc = path @ ''/'' \<and> \<not> has_suffix path ''/'' \<and> fst (lookup (root rt) path []) = None
    \<and> (\<forall>m'. serve rt m' loc \<noteq> Redirect301 (loc @ ''/''))"
proof -
  from assms have "loc = path @ ''/'' \<and> \<not> has_suffix path ''/'' \<and> fst (lookup (root rt) path []) = None"
    by (auto simp: serve_def split: option.splits prod.splits if_splits)
  moreover from this have "has_suffix loc ''/''" using has_suffix_append by blast
  ultimately show ?thesis
    by (auto simp: serve_def split: option.splits prod.splits)
qed


theorem redirect_only_to_subtree_witness:
  "serve (fst (HandleStatic ''/static'' 0 demo_router)) ''GET'' ''/static'' = Redirect301 ''/static/''
   \<and> serve (fst (HandleStatic ''/static'' 0 demo_router)) ''POST'' ''/static/'' \<noteq> Redirect301 ''/static//''"
proof -
  have r: "serve (fst (HandleStatic ''/static'' 0 demo_router)) ''GET'' ''/static'' = Redirect301 ''/static/''"
    by code_simp
  from redirect_only_to_subtree [OF r] r show ?thesis by simp
qed

text \<open>The method decision at a matched node: the registered chain if there is one, the \<open>GET\<close>
  chain for \<open>HEAD\<close>, 204 for an unregistered \<open>OPTIONS\<close>, and otherwise 405, where the
  \<open>Allow\<close> header never offers the refused method.\<close>

theorem serve_at_node:
  assumes "lookup (root rt) path [] = (Some n, ps)"
  shows "(serve rt m path = Dispatch h qs \<longleftrightarrow>
      qs = ps \<and> (map_of (handlers n) m = Some h
        \<or> (map_of (handlers n) m = None \<and> m = ''HEAD'' \<and> map_of (handlers n) ''GET'' = Some h)))
    \<and> (serve rt m path = Options204 a \<longleftrightarrow>
      map_of (handlers n) m = None \<and> m = ''OPTIONS'' \<and> a = allowHeader n)
    \<and> (serve rt m path = MethodNotAllowed405 a \<longleftrightarrow>
      m \<notin> set (allow_methods n) \<and> m \<noteq> ''OPTIONS'' \<and> a = allowHeader n)"
proof -
  have "set (allow_methods n) = fst ` set (handlers n)
      \<union> (if ''GET'' \<in> fst ` set (handlers n) then {''HEAD''} else {})"
    by (auto simp: allow_methods_def Let_def)
  then have "m \<notin> set (allow_methods n) \<longleftrightarrow>
      map_of (handlers n) m = None \<and> (m = ''HEAD'' \<longrightarrow> map_of (handlers n) ''GET'' = None)"
    by (auto simp: map_of_eq_None_iff)
  then show ?thesis
    using assms by (auto simp: serve_def split: option.splits if_splits)
qed

theorem serve_at_node_witness:
  "serve demo_router ''HEAD'' ''/users/me'' = Dispatch (ChainHandler [6] []) []
   \<and> serve demo_router ''PUT'' ''/users/me'' = MethodNotAllowed405 ''GET, HEAD''"
proof -
  define n where "n = the (fst (lookup (root demo_router) ''/users/me'' []))"
  have l: "lookup (root demo_router) ''/users/me'' [] = (Some n, [])"
    and h: "handlers n = [(''GET'', ChainHandler [6] [])]" and a: "allowHeader n = ''GET, HEAD''"
    and am: "''PUT'' \<notin> set (allow_methods n)"
    unfolding n_def by code_simp+
  from serve_at_node [OF l, of "''HEAD''" "ChainHandler [6] []" "[]"]
    serve_at_node [OF l, of "''PUT''" _ _ "''GET, HEAD''"] h a am
  show ?thesis by simp
qed

text \<open>The route \<open>"/"\<close> can be registered but never reached: \<open>Handle\<close> accepts it, and then
  every request path, \<open>"/"\<close> itself included, gets 404, whatever chain was registered.\<close>

theorem root_route_unreachable:
  "snd (Handle ''GET'' ''/'' chain (NewRouter nr nm :: ('c, 'f) Router)) = None
   \<and> (\<forall>path. serve (fst (Handle ''GET'' ''/'' chain (NewRouter nr nm :: ('c, 'f) Router))) ''GET'' (CHR ''/'' # path)
        = NotFound404)"
proof -
  have seg: "pattern_segments ''/'' = []" "translateGinPattern ''/'' = Inr (''/'', [])" by code_simp+
  define rt where "rt = fst (Handle ''GET'' ''/'' chain (NewRouter nr nm :: ('c, 'f) Router))"
  have H: "Handle ''GET'' ''/'' chain (NewRouter nr nm :: ('c, 'f) Router) =
      (\<lparr>root = Some (set_handlers [(''GET'', ChainHandler chain [])] empty_root),
        noRoute = nr, noMethod = nm, maxBody = 0\<rparr>, None)"
    by (simp add: Handle_insert seg insert_route_def insert_tree_def child_or_new_def NewRouter_def)
  then have r: "root rt = Some (set_handlers [(''GET'', ChainHandler chain [])] empty_root)"
    by (simp add: rt_def)
  have none: "fst (lookup (root rt) (CHR ''/'' # path) ps) = None" for path ps
    by (cases "next_part path") (simp add: r lookup_def lookup_loop_parts)
  have "serve rt ''GET'' (CHR ''/'' # path) = NotFound404" for path
  proof -
    obtain qs where q: "lookup (root rt) (CHR ''/'' # path) [] = (None, qs)"
      using none [of path "[]"] by (metis prod.collapse)
    obtain qs' where "lookup (root rt) (CHR ''/'' # path @ ''/'') qs = (None, qs')"
      using none [of "path @ ''/''" qs] by (metis prod.collapse)
    with q show ?thesis by (simp add: serve_def)
  qed
  with H show ?thesis by (simp add: rt_def)
qed

text \<open>The match does not backtrack: with \<open>/users/me\<close> and \<open>/users/:id/posts\<close> both registered,
  a request for \<open>/users/me/posts\<close> gets 404 although it is an instance of the second
  pattern and would be served by it alone.\<close>

theorem no_backtracking:
  "serve (fst (Handle ''GET'' ''/users/:id/posts'' [7] demo_router)) ''GET'' ''/users/me/posts'' = NotFound404
   \<and> serve (fst (Handle ''GET'' ''/users/:id/posts'' [7] (NewRouter 404 405 :: (nat, nat) Router))) ''GET'' ''/users/me/posts''
       = Dispatch (ChainHandler [7] [''id'']) [\<lparr>Name = ''id'', Value = ''me''\<rparr>]"
  by code_simp

text \<open>\<open>Handle\<close> drops the error of \<open>parsePattern\<close>: the pattern \<open>/{rest...}/x\<close>, which the
  parser rejects, is accepted and registered at the root of the tree instead.\<close>

theorem invalid_braces_registered_at_root:
  "parsePattern ''/{rest...}/x'' = Inl (WildNotLast ''/{rest...}/x'')
   \<and> snd (Handle ''GET'' ''/{rest...}/x'' chain rt) = snd (insert_route ''GET'' [] (ChainHandler chain []) False rt)
   \<and> fst (Handle ''GET'' ''/{rest...}/x'' chain rt) = fst (insert_route ''GET'' [] (ChainHandler chain []) False rt)"
proof -
  have "parsePattern ''/{rest...}/x'' = Inl (WildNotLast ''/{rest...}/x'')"
    "translateGinPattern ''/{rest...}/x'' = Inr (''/{rest...}/x'', [])"
    by code_simp+
  then show ?thesis by (simp add: Handle_def)
qed

end
