(* ===== verification/ResponseWriters.thy ===== *)
theory ResponseWriters
  imports HttpWriter
begin

text \<open>
  \<open>http.ResponseWriter\<close> and the writers that the middlewares put in front of it:
  \<open>timeoutWriter\<close> (\<open>middleware/timeout.go\<close>), \<open>gzipWriter\<close> (\<open>middleware/gzip.go\<close>) and
  \<open>countingWriter\<close> (\<open>middleware/accesslog.go\<close>).

  The writer of a request is the header map, which all wrappers share, the wrappers that a
  call passes through, the outermost first, and the log of the calls that reached the
  connection, each with the headers at that moment. A wrapper takes a call, may change the
  headers, and makes calls on the writer behind it.
\<close>

subsection \<open>The connection\<close>

datatype wevent = WHeader int header | WBytes string header | WFlush header

text \<open>
  What the client gets of a log: \<open>net/http\<close> sends the first explicit status, or 200 when
  bytes or a flush come first or the handler writes nothing, and ignores later \<open>WriteHeader\<close>
  calls; the headers sent are those of that first call.
\<close>

fun sent_status :: "wevent list \<Rightarrow> int" where
  "sent_status [] = 200"
| "sent_status (WHeader code h # _) = code"
| "sent_status (WBytes b h # _) = 200"
| "sent_status (WFlush h # _) = 200"

fun sent_body :: "wevent list \<Rightarrow> string" where
  "sent_body [] = []"
| "sent_body (WHeader code h # es) = sent_body es"
| "sent_body (WBytes b h # es) = b @ sent_body es"
| "sent_body (WFlush h # es) = sent_body es"

fun sent_header :: "wevent list \<Rightarrow> header option" where
  "sent_header [] = None"
| "sent_header (WHeader code h # _) = Some h"
| "sent_header (WBytes b h # _) = Some h"
| "sent_header (WFlush h # _) = Some h"

definition status_calls :: "wevent list \<Rightarrow> int list" where
  "status_calls es = List.map_filter (\<lambda>e. case e of WHeader code h \<Rightarrow> Some code | _ \<Rightarrow> None) es"

lemma status_calls_simps [simp]:
  "status_calls [] = []" "status_calls (WHeader code h # es) = code # status_calls es"
  "status_calls (WBytes b h # es) = status_calls es" "status_calls (WFlush h # es) = status_calls es"
  "status_calls (es @ es') = status_calls es @ status_calls es'"
  by (simp_all add: status_calls_def map_filter_def)

lemma sent_body_append [simp]: "sent_body (es @ es') = sent_body es @ sent_body es'"
  by (induction es rule: sent_body.induct) simp_all

lemma sent_status_append [simp]: "sent_status (es @ es') = (if es = [] then sent_status es' else sent_status es)"
  by (cases es rule: sent_status.cases) simp_all

lemma sent_header_append [simp]: "sent_header (es @ es') = (if es = [] then sent_header es' else sent_header es)"
  by (cases es rule: sent_header.cases) simp_all

subsection \<open>Wrappers\<close>

text \<open>The calls on a writer; \<open>CFlush\<close> is \<open>http.ResponseController.Flush\<close>, which looks for a
  \<open>Flush\<close> method along \<open>Unwrap\<close>.\<close>

datatype wcall = CWriteHeader int | CWrite string | CFlush

text \<open>
  \<open>timeoutWriter\<close>: its context is done when it was cancelled or its deadline has passed. The
  clock is \<open>tw_before\<close>, the number of calls that still come before the deadline.
\<close>

record timeoutWriter =
  tw_before :: nat
  tw_cancelled :: bool
  timedOut :: bool
  wroteHeader :: bool

definition ctx_done :: "timeoutWriter \<Rightarrow> bool" where
  "ctx_done w \<longleftrightarrow> tw_cancelled w \<or> tw_before w = 0"

fun tw_step :: "timeoutWriter \<Rightarrow> wcall \<Rightarrow> timeoutWriter \<times> wcall list" where
  "tw_step w (CWriteHeader code) =
     (if ctx_done w then (w\<lparr>timedOut := True\<rparr>, [])
      else (w\<lparr>wroteHeader := True, tw_before := tw_before w - 1\<rparr>, [CWriteHeader code]))"
| "tw_step w (CWrite b) =
     (if ctx_done w then (w\<lparr>timedOut := True\<rparr>, []) else (w\<lparr>tw_before := tw_before w - 1\<rparr>, [CWrite b]))"
| "tw_step w CFlush = (w, [CFlush])"

record countingWriter =
  cw_n :: int

fun cw_step :: "countingWriter \<Rightarrow> wcall \<Rightarrow> countingWriter \<times> wcall list" where
  "cw_step w (CWrite p) = (w\<lparr>cw_n := wrap64 (cw_n w + int (length p))\<rparr>, [CWrite p])"
| "cw_step w call = (w, [call])"

text \<open>
  \<open>gzip.Writer\<close> of \<open>compress/gzip\<close> is an argument: given the inputs since its last
  \<open>Reset\<close> and the next input, the chunks it writes.
\<close>

datatype gz_input = GzData string | GzFlush | GzClose

record gzipWriter =
  gz_out :: "gz_input list \<Rightarrow> gz_input \<Rightarrow> string list"
  gz_hist :: "gz_input list"
  wroteHead :: bool
  gw_started :: bool
  decided :: bool
  compress :: bool
  minSize :: int
  gw_buf :: string

definition key_content_encoding :: string where "key_content_encoding = ''Content-Encoding''"
definition key_content_type :: string where "key_content_type = ''Content-Type''"
definition key_vary :: string where "key_vary = ''Vary''"

text \<open>\<open>compressible\<close> decides once.\<close>

definition media_type :: "string \<Rightarrow> string" where
  "media_type ct = (let i = index_byte ct (CHR '';'') in if i \<ge> 0 then take (nat i) ct else ct)"

definition compressible_type :: "string \<Rightarrow> bool" where
  "compressible_type ct \<longleftrightarrow>
     has_prefix ct ''text/'' \<or> ct = ''application/json'' \<or> has_prefix ct ''application/javascript''
     \<or> has_prefix ct ''application/xml'' \<or> ct = ''application/xhtml+xml'' \<or> ct = ''image/svg+xml''"

definition compressible :: "gzipWriter \<Rightarrow> header \<Rightarrow> bool \<times> gzipWriter" where
  "compressible w h =
     (if decided w then (compress w, w)
      else (let ct = first_value (hindex h key_content_type);
                yes = (ct = [] \<or> compressible_type (media_type ct))
            in (yes, w\<lparr>decided := True, compress := yes\<rparr>)))"

definition mark_gzip :: "header \<Rightarrow> header" where
  "mark_gzip h = header_put_first key_vary ''Accept-Encoding'' (header_put_first key_content_encoding ''gzip'' h)"

text \<open>An input to the compressor.\<close>

definition gz_feed :: "gz_input \<Rightarrow> gzipWriter \<Rightarrow> gzipWriter \<times> wcall list" where
  "gz_feed inp w = (w\<lparr>gz_hist := gz_hist w @ [inp]\<rparr>, map CWrite (gz_out w (gz_hist w) inp))"

definition gw_WriteHeader :: "int \<Rightarrow> gzipWriter \<Rightarrow> header \<Rightarrow> gzipWriter \<times> header \<times> wcall list" where
  "gw_WriteHeader code w h =
     (if wroteHead w then (w, h, [])
      else (case compressible (w\<lparr>wroteHead := True\<rparr>) h of
              (False, w1) \<Rightarrow> (w1, AList.delete key_content_encoding h, [CWriteHeader code])
            | (True, w1) \<Rightarrow> (w1\<lparr>gz_hist := [], gw_started := True\<rparr>, mark_gzip h, [CWriteHeader code])))"

definition startGzip :: "int \<Rightarrow> gzipWriter \<Rightarrow> header \<Rightarrow> gzipWriter \<times> header \<times> wcall list" where
  "startGzip code w h =
     (if wroteHead w then (w, h, [])
      else (let w1 = w\<lparr>wroteHead := True, gz_hist := [], gw_started := True\<rparr>
            in if gw_buf w1 = [] then (w1, mark_gzip h, [CWriteHeader code])
               else (case gz_feed (GzData (gw_buf w1)) w1 of
                       (w2, calls) \<Rightarrow> (w2\<lparr>gw_buf := []\<rparr>, mark_gzip h, CWriteHeader code # calls))))"

definition gw_Write :: "string \<Rightarrow> gzipWriter \<Rightarrow> header \<Rightarrow> gzipWriter \<times> header \<times> wcall list" where
  "gw_Write p w h =
     (case compressible w h of
        (False, w1) \<Rightarrow> (w1, h, [CWrite p])
      | (True, w1) \<Rightarrow>
          (if \<not> gw_started w1 then
             (let w2 = w1\<lparr>gw_buf := gw_buf w1 @ p\<rparr>
              in if int (length (gw_buf w2)) \<ge> minSize w2 then startGzip 200 w2 h else (w2, h, []))
           else (case gz_feed (GzData p) w1 of (w2, calls) \<Rightarrow> (w2, h, calls))))"

definition gw_Flush :: "gzipWriter \<Rightarrow> header \<Rightarrow> gzipWriter \<times> header \<times> wcall list" where
  "gw_Flush w h =
     (case (if \<not> gw_started w \<and> gw_buf w \<noteq> [] then startGzip 200 w h else (w, h, [])) of
        (w1, h1, calls) \<Rightarrow>
          (if gw_started w1 then (case gz_feed GzFlush w1 of (w2, out) \<Rightarrow> (w2, h1, calls @ out))
           else (w1, h1, calls)))"

definition gw_Close :: "gzipWriter \<Rightarrow> header \<Rightarrow> gzipWriter \<times> header \<times> wcall list" where
  "gw_Close w h =
     (if gw_started w then (case gz_feed GzClose w of (w1, calls) \<Rightarrow> (w1, h, calls))
      else if gw_buf w \<noteq> [] then (w\<lparr>gw_buf := []\<rparr>, AList.delete key_content_encoding h, [CWrite (gw_buf w)])
      else (w, h, []))"

fun gw_step :: "gzipWriter \<Rightarrow> wcall \<Rightarrow> header \<Rightarrow> gzipWriter \<times> header \<times> wcall list" where
  "gw_step w (CWriteHeader code) h = gw_WriteHeader code w h"
| "gw_step w (CWrite p) h = gw_Write p w h"
| "gw_step w CFlush h = gw_Flush w h"

subsection \<open>Calls through the wrappers\<close>

datatype wrapper = TimeoutW timeoutWriter | CountW countingWriter | GzipW gzipWriter

fun wrapper_step :: "wrapper \<Rightarrow> wcall \<Rightarrow> header \<Rightarrow> wrapper \<times> header \<times> wcall list" where
  "wrapper_step (TimeoutW w) call h = (case tw_step w call of (w', calls) \<Rightarrow> (TimeoutW w', h, calls))"
| "wrapper_step (CountW w) call h = (case cw_step w call of (w', calls) \<Rightarrow> (CountW w', h, calls))"
| "wrapper_step (GzipW w) call h = (case gw_step w call h of (w', h', calls) \<Rightarrow> (GzipW w', h', calls))"

fun event :: "header \<Rightarrow> wcall \<Rightarrow> wevent" where
  "event h (CWriteHeader code) = WHeader code h"
| "event h (CWrite b) = WBytes b h"
| "event h CFlush = WFlush h"

text \<open>\<open>through\<close> makes calls on the wrapper \<open>w\<close>, whose own calls go \<open>down\<close> the wrappers
  \<open>ws\<close> behind it; \<open>pass_down n\<close> makes calls on a stack of \<open>n\<close> wrappers.\<close>

fun through ::
    "(wrapper list \<Rightarrow> wcall list \<Rightarrow> header \<Rightarrow> wrapper list \<times> header \<times> wevent list)
      \<Rightarrow> wrapper \<Rightarrow> wrapper list \<Rightarrow> wcall list \<Rightarrow> header \<Rightarrow> wrapper list \<times> header \<times> wevent list" where
  "through down w ws [] h = (w # ws, h, [])"
| "through down w ws (call # calls) h =
     (case wrapper_step w call h of (w1, h1, sub) \<Rightarrow>
       (case down ws sub h1 of (ws1, h2, es) \<Rightarrow>
         (case through down w1 ws1 calls h2 of (ws2, h3, es') \<Rightarrow> (ws2, h3, es @ es'))))"

primrec pass_down :: "nat \<Rightarrow> wrapper list \<Rightarrow> wcall list \<Rightarrow> header \<Rightarrow> wrapper list \<times> header \<times> wevent list" where
  "pass_down 0 ws calls h = (ws, h, map (event h) calls)"
| "pass_down (Suc n) ws calls h = through (pass_down n) (hd ws) (tl ws) calls h"

record Writer =
  w_header :: header
  w_log :: "wevent list"
  w_stack :: "wrapper list"

definition new_writer :: Writer where
  "new_writer = \<lparr>w_header = [], w_log = [], w_stack = []\<rparr>"

definition writer_calls :: "wcall list \<Rightarrow> Writer \<Rightarrow> Writer" where
  "writer_calls calls w =
     (case pass_down (length (w_stack w)) (w_stack w) calls (w_header w) of
        (ws, h, es) \<Rightarrow> \<lparr>w_header = h, w_log = w_log w @ es, w_stack = ws\<rparr>)"

definition WriteHeader :: "int \<Rightarrow> Writer \<Rightarrow> Writer" where
  "WriteHeader code w = writer_calls [CWriteHeader code] w"

definition Write :: "string \<Rightarrow> Writer \<Rightarrow> Writer" where
  "Write b w = writer_calls [CWrite b] w"

definition Flush :: "Writer \<Rightarrow> Writer" where
  "Flush w = writer_calls [CFlush] w"

definition map_header :: "(header \<Rightarrow> header) \<Rightarrow> Writer \<Rightarrow> Writer" where
  "map_header f w = w\<lparr>w_header := f (w_header w)\<rparr>"

text \<open>A writer without wrappers is the connection itself.\<close>

lemma writer_sel [simp]:
  "w_header (map_header f w) = f (w_header w)" "w_log (map_header f w) = w_log w"
  "w_stack (map_header f w) = w_stack w"
  by (simp_all add: map_header_def)

lemma writer_plain [simp]:
  assumes "w_stack w = []"
  shows "w_header (WriteHeader code w) = w_header w" "w_header (Write b w) = w_header w"
    "w_stack (WriteHeader code w) = []" "w_stack (Write b w) = []"
    "w_log (WriteHeader code w) = w_log w @ [WHeader code (w_header w)]"
    "w_log (Write b w) = w_log w @ [WBytes b (w_header w)]"
  using assms by (simp_all add: WriteHeader_def Write_def writer_calls_def)

lemma new_writer_sel [simp]: "w_stack new_writer = []" "w_log new_writer = []" "w_header new_writer = []"
  by (simp_all add: new_writer_def)

text \<open>
  \<open>SetWriter\<close> of a new wrapper around the current writer, and of the writer that was current
  when the stack had \<open>n\<close> wrappers; \<open>nth_from_base n\<close> is the wrapper right in front of it.
\<close>

definition push_wrapper :: "wrapper \<Rightarrow> Writer \<Rightarrow> Writer" where
  "push_wrapper x w = w\<lparr>w_stack := x # w_stack w\<rparr>"

definition restore_writer :: "nat \<Rightarrow> Writer \<Rightarrow> Writer" where
  "restore_writer n w = w\<lparr>w_stack := drop (length (w_stack w) - n) (w_stack w)\<rparr>"

definition base_index :: "nat \<Rightarrow> Writer \<Rightarrow> nat" where
  "base_index n w = length (w_stack w) - n - 1"

lemma stack_sel [simp]:
  "w_header (push_wrapper x w) = w_header w" "w_log (push_wrapper x w) = w_log w"
  "w_stack (push_wrapper x w) = x # w_stack w"
  "w_header (restore_writer n w) = w_header w" "w_log (restore_writer n w) = w_log w"
  "w_stack (restore_writer n w) = drop (length (w_stack w) - n) (w_stack w)"
  by (simp_all add: push_wrapper_def restore_writer_def)

end
