(* ===== verification/ReqContext.thy ===== *)
theory ReqContext
  imports ResponseWriters RouteLookup
begin

text \<open>
  \<open>core.Context\<close> of \<open>internal/core/context.go\<close>: its fields and the operations that do not
  run the handler chain. The chain itself, whose handlers are programs over these
  operations, is in \<open>HandlerChain\<close>; the type variable is the type of handlers.

  \<open>any\<close> values stored under a key are strings or opaque. \<open>net.ParseIP\<close> is an
  argument of the operations that use it.
\<close>

datatype anyval = StrVal string | OtherVal nat

record 'h Context =
  writer :: Writer
  request :: Request
  params :: "Param list"
  "values" :: "(string, anyval) gomap"
  ctx_route :: string
  ctx_group :: string
  trusted :: "IPNet list"
  handlers_of :: "'h list"
  index :: int
  aborted :: bool
  status :: int
  wrote :: bool
  maxBodyBytes :: int

subsection \<open>Creation and pooling\<close>

definition nil_request :: Request where
  "nil_request = \<lparr>req_method = [], req_path = [], req_query = [], req_header = [], req_body = [], body_limits = [],
     content_length = 0, remote_addr = [], req_host = [], raw_query = [], req_proto = [],
     proto_major = 0, req_tls = False\<rparr>"

definition NewContext :: "Writer \<Rightarrow> Request \<Rightarrow> 'h Context" where
  "NewContext w r = \<lparr>writer = w, request = r, params = [], values = [], ctx_route = [], ctx_group = [],
     trusted = [], handlers_of = [], index = -1, aborted = False, status = 0, wrote = False,
     maxBodyBytes = 0\<rparr>"

text \<open>\<open>Reset\<close>; the nil writer and request are rebound by \<open>Acquire\<close> before any use.\<close>

definition Reset :: "'h Context \<Rightarrow> 'h Context" where
  "Reset c = c\<lparr>writer := new_writer, request := nil_request, params := [], values := [],
     ctx_route := [], ctx_group := [], trusted := [], handlers_of := [], index := -1,
     aborted := False, status := 0, wrote := False, maxBodyBytes := 0\<rparr>"

definition Acquire :: "'h Context \<Rightarrow> Writer \<Rightarrow> Request \<Rightarrow> 'h Context" where
  "Acquire pooled w r = (Reset pooled)\<lparr>writer := w, request := r\<rparr>"

text \<open>Pooling leaks nothing from one request to the next: whatever state the pooled context
  is in, \<open>Acquire\<close> gives the context that \<open>NewContext\<close> would create for the request.\<close>

theorem acquire_fresh: "Acquire pooled w r = NewContext w r"
  by (simp add: Acquire_def Reset_def NewContext_def)

subsection \<open>Setters and getters\<close>

definition SetWriter :: "Writer \<Rightarrow> 'h Context \<Rightarrow> 'h Context" where
  "SetWriter w c = c\<lparr>writer := w\<rparr>"

definition SetRequest :: "Request \<Rightarrow> 'h Context \<Rightarrow> 'h Context" where
  "SetRequest r c = c\<lparr>request := r\<rparr>"

definition SetMaxBody :: "int \<Rightarrow> 'h Context \<Rightarrow> 'h Context" where
  "SetMaxBody n c = c\<lparr>maxBodyBytes := n\<rparr>"

definition SetParams :: "Param list \<Rightarrow> 'h Context \<Rightarrow> 'h Context" where
  "SetParams ps c = c\<lparr>params := ps\<rparr>"

text \<open>\<open>Param\<close>: the loop keeps the last value of the name.\<close>

fun param_loop :: "string \<Rightarrow> string \<Rightarrow> Param list \<Rightarrow> string" where
  "param_loop key val [] = val"
| "param_loop key val (p # ps) = param_loop key (if Name p = key then Value p else val) ps"

definition Param_of :: "string \<Rightarrow> 'h Context \<Rightarrow> string" where
  "Param_of key c = param_loop key [] (params c)"

definition SetRoute :: "string \<Rightarrow> 'h Context \<Rightarrow> 'h Context" where
  "SetRoute rt c = c\<lparr>ctx_route := rt\<rparr>"

definition SetGroup :: "string \<Rightarrow> 'h Context \<Rightarrow> 'h Context" where
  "SetGroup g c = c\<lparr>ctx_group := g\<rparr>"

definition SetTrustedProxies :: "IPNet list \<Rightarrow> 'h Context \<Rightarrow> 'h Context" where
  "SetTrustedProxies ps c = c\<lparr>trusted := ps\<rparr>"

definition Query :: "string \<Rightarrow> 'h Context \<Rightarrow> string" where
  "Query key c = first_value (hindex (req_query (request c)) key)"

definition GetHeader :: "string \<Rightarrow> 'h Context \<Rightarrow> string" where
  "GetHeader key c = header_get (req_header (request c)) key"

definition GetHeaderCanonical :: "string \<Rightarrow> 'h Context \<Rightarrow> string" where
  "GetHeaderCanonical key c = first_value (hindex (req_header (request c)) key)"

definition SetHeaderCanonical :: "string \<Rightarrow> string \<Rightarrow> 'h Context \<Rightarrow> 'h Context" where
  "SetHeaderCanonical key v c = c\<lparr>writer := map_header (header_put_first key v) (writer c)\<rparr>"

definition SetRequestHeaderCanonical :: "string \<Rightarrow> string \<Rightarrow> 'h Context \<Rightarrow> 'h Context" where
  "SetRequestHeaderCanonical key v c =
     c\<lparr>request := (request c)\<lparr>req_header := header_put_first key v (req_header (request c))\<rparr>\<rparr>"

definition Set_val :: "string \<Rightarrow> anyval \<Rightarrow> 'h Context \<Rightarrow> 'h Context" where
  "Set_val key v c = c\<lparr>values := AList.update key v (values c)\<rparr>"

definition Get_val :: "string \<Rightarrow> 'h Context \<Rightarrow> anyval option" where
  "Get_val key c = map_of (values c) key"

definition GetString :: "string \<Rightarrow> 'h Context \<Rightarrow> string" where
  "GetString key c = (case Get_val key c of Some (StrVal s) \<Rightarrow> s | _ \<Rightarrow> [])"

definition RequestID :: "'h Context \<Rightarrow> string" where
  "RequestID c = GetString ''requestId'' c"

text \<open>A parameter name that matched several times reads as its last value; a name that did not
  match reads as the empty string.\<close>

theorem param_last_value:
  "Param_of key c = last ([] # map Value (filter (\<lambda>p. Name p = key) (params c)))"
proof -
  have "param_loop key val ps = last (val # map Value (filter (\<lambda>p. Name p = key) ps))" for val ps
    by (induction ps arbitrary: val) auto
  then show ?thesis by (simp add: Param_of_def)
qed

subsection \<open>Writing the response\<close>

definition writeHeader :: "int \<Rightarrow> 'h Context \<Rightarrow> 'h Context" where
  "writeHeader code c =
     (if wrote c then c
      else c\<lparr>wrote := True, status := code, writer := WriteHeader code (writer c)\<rparr>)"

definition Status :: "int \<Rightarrow> 'h Context \<Rightarrow> 'h Context" where
  "Status code c = writeHeader code c"

definition StatusCode :: "'h Context \<Rightarrow> int" where
  "StatusCode c = (if status c = 0 then 200 else status c)"

definition Header :: "string \<Rightarrow> string \<Rightarrow> 'h Context \<Rightarrow> 'h Context" where
  "Header key v c = c\<lparr>writer := map_header (header_set key v) (writer c)\<rparr>"

definition write_bytes :: "string \<Rightarrow> 'h Context \<Rightarrow> 'h Context" where
  "write_bytes b c = c\<lparr>writer := Write b (writer c)\<rparr>"

definition setContentType :: "string \<Rightarrow> Writer \<Rightarrow> Writer" where
  "setContentType v w = map_header (header_put_first ''Content-Type'' v) w"

text \<open>\<open>html.EscapeString\<close>.\<close>

definition html_escape_char :: "char \<Rightarrow> string" where
  "html_escape_char c =
     (if c = CHR ''&'' then ''&amp;'' else if c = char_of (39::nat) then ''&#39;''
      else if c = CHR ''<'' then ''&lt;'' else if c = CHR ''>'' then ''&gt;''
      else if c = char_of (34::nat) then ''&#34;'' else [c])"

definition html_escape :: "string \<Rightarrow> string" where
  "html_escape s = concat (map html_escape_char s)"

text \<open>\<open>Redirect\<close>; \<open>status_text\<close> is \<open>http.StatusText\<close>.\<close>

definition redirect_status :: "int \<Rightarrow> int" where
  "redirect_status st = (if st < 300 \<or> st > 399 then 302 else st)"

definition Redirect :: "(int \<Rightarrow> string) \<Rightarrow> int \<Rightarrow> string \<Rightarrow> 'h Context \<Rightarrow> 'h Context" where
  "Redirect status_text st location c =
     (let code = redirect_status st;
          c1 = writeHeader code (Header ''Location'' location c)
      in write_bytes (''<a href='' @ [char_of (34::nat)] @ html_escape location @ [char_of (34::nat)]
           @ ''>'' @ status_text code @ ''</a>'') c1)"

text \<open>\<open>JSON\<close> and \<open>String\<close>: the encoder's and the formatter's bytes are arguments; a
  failed \<open>Encode\<close> writes nothing and is returned.\<close>

definition JSON :: "int \<Rightarrow> string option \<Rightarrow> 'h Context \<Rightarrow> 'h Context \<times> bool" where
  "JSON code encoded c =
     (let c1 = writeHeader code (c\<lparr>writer := setContentType ''application/json; charset=utf-8'' (writer c)\<rparr>)
      in case encoded of None \<Rightarrow> (c1, False) | Some b \<Rightarrow> (write_bytes b c1, True))"

definition String_resp :: "(string \<Rightarrow> 'a list \<Rightarrow> string) \<Rightarrow> int \<Rightarrow> string \<Rightarrow> 'a list \<Rightarrow> 'h Context \<Rightarrow> 'h Context" where
  "String_resp sprintf code format as c =
     (let c1 = writeHeader code (c\<lparr>writer := setContentType ''text/plain; charset=utf-8'' (writer c)\<rparr>)
      in if as = [] \<and> CHR ''%'' \<notin> set format then write_bytes format c1
         else write_bytes (sprintf format as) c1)"

text \<open>\<open>SetSecureCookie\<close>: the attributes it forces, before \<open>http.SetCookie\<close> renders them.\<close>

record Cookie =
  cookie_name :: string
  cookie_value :: string
  Secure :: bool
  HttpOnly :: bool
  SameSite :: int

definition secure_cookie :: "Cookie \<Rightarrow> Cookie" where
  "secure_cookie k =
     (let k1 = (if \<not> Secure k then k\<lparr>Secure := True\<rparr> else k);
          k2 = (if \<not> HttpOnly k1 then k1\<lparr>HttpOnly := True\<rparr> else k1)
      in if SameSite k2 = 0 then k2\<lparr>SameSite := 2\<rparr> else k2)"

definition Abort :: "'h Context \<Rightarrow> 'h Context" where
  "Abort c = c\<lparr>aborted := True\<rparr>"

definition IsAborted :: "'h Context \<Rightarrow> bool" where
  "IsAborted c = aborted c"

definition ResetWriteState :: "'h Context \<Rightarrow> 'h Context" where
  "ResetWriteState c = c\<lparr>wrote := False, status := 0\<rparr>"

subsection \<open>The address of the client\<close>

definition remoteHost :: "'h Context \<Rightarrow> string" where
  "remoteHost c =
     (case split_host (remote_addr (request c)) of
        None \<Rightarrow> remote_addr (request c) | Some host \<Rightarrow> host)"

definition isTrustedProxy :: "(string \<Rightarrow> 8 word list option) \<Rightarrow> string \<Rightarrow> 'h Context \<Rightarrow> bool" where
  "isTrustedProxy parse_ip ip c =
     (case parse_ip ip of None \<Rightarrow> False
      | Some parsed \<Rightarrow> list_ex (\<lambda>n. ipnet_contains n parsed) (trusted c))"

definition RemoteIP :: "(string \<Rightarrow> 8 word list option) \<Rightarrow> 'h Context \<Rightarrow> string" where
  "RemoteIP parse_ip c =
     (let remote = remoteHost c
      in if isTrustedProxy parse_ip remote c then
           (let xff = GetHeaderCanonical ''X-Forwarded-For'' c
            in if xff \<noteq> [] then trim_space (hd (split_on (CHR '','') xff))
               else (let xri = GetHeaderCanonical ''X-Real-Ip'' c
                     in if xri \<noteq> [] then trim_space xri else remote))
         else remote)"

text \<open>C40. The client address cannot be forged from outside the trusted networks: unless the peer
  itself is in one of them, no request header has any influence on \<open>RemoteIP\<close>, which is
  the host of the connection.\<close>

theorem remote_ip_unforgeable:
  assumes "\<not> isTrustedProxy parse_ip (remoteHost c) c"
  shows "RemoteIP parse_ip (c\<lparr>request := (request c)\<lparr>req_header := h\<rparr>\<rparr>) = remoteHost c"
proof -
  have "remoteHost (c\<lparr>request := (request c)\<lparr>req_header := h\<rparr>\<rparr>) = remoteHost c"
    by (simp add: remoteHost_def split: option.split)
  moreover have "\<not> isTrustedProxy parse_ip (remoteHost c) (c\<lparr>request := (request c)\<lparr>req_header := h\<rparr>\<rparr>)"
    using assms by (simp add: isTrustedProxy_def split: option.splits)
  ultimately show ?thesis by (simp add: RemoteIP_def Let_def)
qed

text \<open>A parser for two addresses, and a context whose trusted network is 10.0.0.0/8.\<close>

definition demo_parse_ip :: "string \<Rightarrow> 8 word list option" where
  "demo_parse_ip s =
     (if s = ''10.1.2.3'' then Some [10, 1, 2, 3] else if s = ''9.9.9.9'' then Some [9, 9, 9, 9] else None)"

definition demo_context :: "string \<Rightarrow> nat Context" where
  "demo_context addr =
     SetTrustedProxies [\<lparr>net_ip = [10, 0, 0, 0], net_mask = [255, 0, 0, 0]\<rparr>]
       (NewContext new_writer (nil_request\<lparr>remote_addr := addr\<rparr>))"

theorem remote_ip_unforgeable_witness:
  "RemoteIP demo_parse_ip ((demo_context ''9.9.9.9:5'')\<lparr>request :=
     (request (demo_context ''9.9.9.9:5''))\<lparr>req_header := [(''X-Forwarded-For'', [''1.2.3.4''])]\<rparr>\<rparr>) = ''9.9.9.9''
   \<and> RemoteIP demo_parse_ip ((demo_context ''10.1.2.3:5'')\<lparr>request :=
     (request (demo_context ''10.1.2.3:5''))\<lparr>req_header := [(''X-Forwarded-For'', ['' 1.2.3.4, 5.6.7.8''])]\<rparr>\<rparr>) = ''1.2.3.4''"
proof
  have un: "\<not> isTrustedProxy demo_parse_ip (remoteHost (demo_context ''9.9.9.9:5'')) (demo_context ''9.9.9.9:5'')"
    and host: "remoteHost (demo_context ''9.9.9.9:5'') = ''9.9.9.9''"
    by code_simp+
  show "RemoteIP demo_parse_ip ((demo_context ''9.9.9.9:5'')\<lparr>request :=
     (request (demo_context ''9.9.9.9:5''))\<lparr>req_header := [(''X-Forwarded-For'', [''1.2.3.4''])]\<rparr>\<rparr>) = ''9.9.9.9''"
    by (simp only: remote_ip_unforgeable [OF un] host)
  show "RemoteIP demo_parse_ip ((demo_context ''10.1.2.3:5'')\<lparr>request :=
     (request (demo_context ''10.1.2.3:5''))\<lparr>req_header := [(''X-Forwarded-For'', ['' 1.2.3.4, 5.6.7.8''])]\<rparr>\<rparr>) = ''1.2.3.4''"
    by code_simp
qed

subsection \<open>Binding and files\<close>

text \<open>
  \<open>BindJSON\<close>: the decoder (an argument) reads the body through \<open>http.MaxBytesReader\<close>
  when a limit is set: at most \<open>maxBody\<close> bytes, then an error instead of the end of the
  input.
\<close>

definition bind_body :: "'h Context \<Rightarrow> string \<times> bool" where
  "bind_body c =
     body_view ((if maxBodyBytes c > 0 then [maxBodyBytes c] else []) @ body_limits (request c)) (req_body (request c))"

definition BindJSON :: "(string \<times> bool \<Rightarrow> 'o option) \<Rightarrow> 'h Context \<Rightarrow> 'o option" where
  "BindJSON decode c = decode (bind_body c)"

datatype bind_kind = Bind_JSON | Bind_Form | Bind_Query

definition Bind_dispatch :: "'h Context \<Rightarrow> bind_kind" where
  "Bind_dispatch c =
     (let ct = to_lower (header_get (req_header (request c)) ''Content-Type'')
      in if contains ct ''application/json'' then Bind_JSON
         else if contains ct ''multipart/form-data'' \<or> contains ct ''application/x-www-form-urlencoded''
           then Bind_Form
         else Bind_Query)"

text \<open>\<open>statusRecorder\<close> and \<open>File\<close>: \<open>serve\<close> is \<open>http.ServeContent\<close> on the recorder.\<close>

record statusRecorder =
  rec_writer :: Writer
  rec_status :: int

definition recorder_WriteHeader :: "int \<Rightarrow> statusRecorder \<Rightarrow> statusRecorder" where
  "recorder_WriteHeader code w =
     w\<lparr>rec_status := (if rec_status w = 0 then code else rec_status w),
       rec_writer := WriteHeader code (rec_writer w)\<rparr>"

text \<open>The other methods are those of the writer it embeds. A run of \<open>http.ServeContent\<close> sets headers, sends
  a status (200, 206, 304, 416 or an error) and writes the content it has to send.\<close>

definition recorder_Write :: "string \<Rightarrow> statusRecorder \<Rightarrow> statusRecorder" where
  "recorder_Write b w = w\<lparr>rec_writer := Write b (rec_writer w)\<rparr>"

definition run_ServeContent :: "(header \<Rightarrow> header) \<Rightarrow> int \<Rightarrow> string list \<Rightarrow> statusRecorder \<Rightarrow> statusRecorder" where
  "run_ServeContent f code chunks w =
     fold recorder_Write chunks (recorder_WriteHeader code (w\<lparr>rec_writer := map_header f (rec_writer w)\<rparr>))"

definition File :: "bool \<Rightarrow> bool \<Rightarrow> (statusRecorder \<Rightarrow> statusRecorder) \<Rightarrow> 'h Context \<Rightarrow> 'h Context" where
  "File open_ok stat_ok serve c =
     (if \<not> open_ok then writeHeader 404 c
      else if \<not> stat_ok then writeHeader 500 c
      else (let r = serve \<lparr>rec_writer = writer c, rec_status = 0\<rparr>
            in c\<lparr>writer := rec_writer r, status := rec_status r, wrote := True\<rparr>))"

end
