(* ===== verification/GoText.thy ===== *)
theory GoText
  imports Prelude
begin

text \<open>
  Decimal texts (\<open>strconv.AppendInt\<close>, \<open>strconv.Itoa\<close>) and hexadecimal digits, each
  with the reader that inverts it.
\<close>

definition digit_char :: "nat \<Rightarrow> char" where
  "digit_char d = char_of (48 + d)"

definition is_digit :: "char \<Rightarrow> bool" where
  "is_digit c \<longleftrightarrow> CHR ''0'' \<le> c \<and> c \<le> CHR ''9''"

definition digit_val :: "char \<Rightarrow> nat" where
  "digit_val c = of_char c - 48"

fun dec_nat :: "nat \<Rightarrow> string" where
  "dec_nat n = (if n < 10 then [digit_char n] else dec_nat (n div 10) @ [digit_char (n mod 10)])"

declare dec_nat.simps [simp del]

definition itoa :: "int \<Rightarrow> string" where
  "itoa i = (if i < 0 then CHR ''-'' # dec_nat (nat (- i)) else dec_nat (nat i))"

definition read_nat :: "string \<Rightarrow> nat" where
  "read_nat s = foldl (\<lambda>a c. 10 * a + digit_val c) 0 s"

text \<open>Reads a decimal integer off the front of a text.\<close>

definition read_int :: "string \<Rightarrow> (int \<times> string) option" where
  "read_int s =
     (case s of
        [] \<Rightarrow> None
      | c # cs \<Rightarrow>
          (let neg = (c = CHR ''-''); t = (if neg then cs else s); ds = takeWhile is_digit t
           in if ds = [] then None
              else Some (if neg then - int (read_nat ds) else int (read_nat ds), dropWhile is_digit t)))"

lemma digit_char_props [simp]:
  "d < 10 \<Longrightarrow> digit_val (digit_char d) = d" "d < 10 \<Longrightarrow> is_digit (digit_char d)"
  "d < 10 \<Longrightarrow> digit_char d \<noteq> CHR ''-''"
proof -
  have "list_all (\<lambda>d. digit_val (digit_char d) = d \<and> is_digit (digit_char d) \<and> digit_char d \<noteq> CHR ''-'') [0..<10]"
    by code_simp
  then show "d < 10 \<Longrightarrow> digit_val (digit_char d) = d" "d < 10 \<Longrightarrow> is_digit (digit_char d)"
    "d < 10 \<Longrightarrow> digit_char d \<noteq> CHR ''-''"
    by (simp_all add: list_all_iff)
qed

lemma dec_nat_digits: "list_all is_digit (dec_nat n) \<and> dec_nat n \<noteq> []"
proof (induction n rule: dec_nat.induct)
  case (1 n)
  then show ?case by (subst (1 2) dec_nat.simps) auto
qed

lemma read_dec_nat [simp]: "read_nat (dec_nat n) = n"
proof (induction n rule: dec_nat.induct)
  case (1 n)
  show ?case
  proof (cases "n < 10")
    case True
    then show ?thesis by (subst dec_nat.simps) (simp add: read_nat_def)
  next
    case False
    with 1 have "read_nat (dec_nat (n div 10)) = n div 10" by simp
    with False show ?thesis
      by (subst dec_nat.simps) (simp add: read_nat_def)
  qed
qed

lemma not_digit_minus [simp]: "\<not> is_digit (CHR ''-'')"
  by (simp add: is_digit_def less_eq_char_def)

lemma read_itoa:
  assumes "rest = [] \<or> \<not> is_digit (hd rest)"
  shows "read_int (itoa i @ rest) = Some (i, rest)"
proof -
  have take_drop: "takeWhile is_digit (dec_nat n @ rest) = dec_nat n"
    "dropWhile is_digit (dec_nat n @ rest) = rest" for n
    using dec_nat_digits [of n] assms
    by (cases rest; auto simp: takeWhile_append list_all_iff dropWhile_append2)+
  have ne: "dec_nat n \<noteq> []" for n using dec_nat_digits by blast
  show ?thesis
  proof (cases "i < 0")
    case True
    then show ?thesis using ne [of "nat (- i)"] by (simp add: itoa_def read_int_def Let_def take_drop)
  next
    case False
    obtain d ds where d: "dec_nat (nat i) = d # ds" using ne by (cases "dec_nat (nat i)") auto
    have "is_digit d" using dec_nat_digits [of "nat i"] d by simp
    then have "d \<noteq> CHR ''-''" by auto
    then show ?thesis
      using False d take_drop [of "nat i"] by (simp add: itoa_def read_int_def Let_def) (use ne d read_dec_nat [of "nat i"] in auto)
  qed
qed

lemma itoa_head: "\<exists>c cs. itoa i = c # cs \<and> (c = CHR ''-'' \<or> is_digit c)"
proof (cases "i < 0")
  case False
  obtain d ds where "dec_nat (nat i) = d # ds"
    using dec_nat_digits [of "nat i"] by (cases "dec_nat (nat i)") auto
  with False dec_nat_digits [of "nat i"] show ?thesis by (simp add: itoa_def)
qed (simp add: itoa_def)

subsection \<open>Hexadecimal digits\<close>

definition hexDigits :: string where
  "hexDigits = ''0123456789abcdef''"

definition hex_val :: "char \<Rightarrow> nat option" where
  "hex_val c =
     (if is_digit c then Some (digit_val c)
      else if CHR ''a'' \<le> c \<and> c \<le> CHR ''f'' then Some (of_char c - 87) else None)"

lemma hex_digit_val: "d < 16 \<Longrightarrow> hex_val (hexDigits ! d) = Some d"
proof -
  have "list_all (\<lambda>d. hex_val (hexDigits ! d) = Some d) [0..<16]" by code_simp
  then show "d < 16 \<Longrightarrow> hex_val (hexDigits ! d) = Some d" by (simp add: list_all_iff)
qed

end
