(* ===== verification/Response.thy ===== *)
theory Response
  imports ReqContext GoText
begin

text \<open>
  The standardized responses of \<open>internal/core/response.go\<close>: the JSON string encoder, the
  response envelope and the operations that write it, and the error mapping of
  \<open>errorhandler.go\<close>. A reader for the envelope states that the bytes written mean what
  was put in.

  \<open>json.Marshal\<close> and \<open>time.Now\<close> are arguments. \<open>goval\<close> are the values a handler can
  pass as data, by their \<open>reflect.Kind\<close>.
\<close>

subsection \<open>appendJSONString\<close>

definition quote :: char where "quote = CHR 0x22"
definition backslash :: char where "backslash = CHR 0x5C"

definition json_char :: "char \<Rightarrow> string" where
  "json_char c =
     (if c = quote \<or> c = backslash then [backslash, c]
      else if c = CHR ''<'' then backslash # ''u003c''
      else if c = CHR ''>'' then backslash # ''u003e''
      else if c = CHR ''&'' then backslash # ''u0026''
      else if of_char c < (0x20::nat) then
        backslash # ''u00'' @ [hexDigits ! (of_char c div 16), hexDigits ! (of_char c mod 16)]
      else [c])"

fun json_loop :: "string \<Rightarrow> string \<Rightarrow> string" where
  "json_loop b [] = b"
| "json_loop b (c # s) = json_loop (b @ json_char c) s"

definition appendJSONString :: "string \<Rightarrow> string \<Rightarrow> string" where
  "appendJSONString b s = json_loop (b @ [quote]) s @ [quote]"

lemma json_loop_concat: "json_loop b s = b @ concat (map json_char s)"
  by (induction s arbitrary: b) simp_all

lemma appendJSONString_concat:
  "appendJSONString b s = b @ quote # concat (map json_char s) @ [quote]"
  by (simp add: appendJSONString_def json_loop_concat)

text \<open>
  Reading a JSON string: the characters after the opening quote up to the closing one, and
  what follows it. \<open>None\<close> for a text that is no JSON string, as a control character or
  an unknown escape in it.
\<close>

fun read_string_body :: "string \<Rightarrow> (string \<times> string) option" where
  "read_string_body [] = None"
| "read_string_body (c # cs) =
     (if c = quote then Some ([], cs)
      else if c = backslash then
        (case cs of
           [] \<Rightarrow> None
         | d # ds \<Rightarrow>
             (if d = quote \<or> d = backslash then map_option (apfst ((#) d)) (read_string_body ds)
              else if d = CHR ''u'' then
                (case ds of
                   a # b # h # l # es \<Rightarrow>
                     (case (hex_val a, hex_val b, hex_val h, hex_val l) of
                        (Some 0, Some 0, Some x, Some y) \<Rightarrow>
                          (if x < 8 then map_option (apfst ((#) (char_of (16 * x + y)))) (read_string_body es)
                           else None)
                      | _ \<Rightarrow> None)
                 | _ \<Rightarrow> None)
              else None))
      else if of_char c < (0x20::nat) then None
      else map_option (apfst ((#) c)) (read_string_body cs))"

definition read_json_string :: "string \<Rightarrow> (string \<times> string) option" where
  "read_json_string t = (case t of [] \<Rightarrow> None | c # cs \<Rightarrow> if c = quote then read_string_body cs else None)"

lemma read_json_char:
  "read_string_body (json_char c @ cs) = map_option (apfst ((#) c)) (read_string_body cs)"
proof -
  have h0: "hex_val (CHR ''0'') = Some 0" "hex_val (CHR ''2'') = Some 2" "hex_val (CHR ''3'') = Some 3"
    "hex_val (CHR ''6'') = Some 6" "hex_val (CHR ''c'') = Some 12" "hex_val (CHR ''e'') = Some 14"
    "char_of (60::nat) = CHR ''<''" "char_of (62::nat) = CHR ''>''" "char_of (38::nat) = CHR ''&''"
    by code_simp+
  have qb: "quote \<noteq> backslash" "CHR ''u'' \<noteq> quote" "CHR ''u'' \<noteq> backslash"
    "backslash \<noteq> quote" by (simp_all add: quote_def backslash_def)
  consider (esc) "c = quote \<or> c = backslash" | (lt) "c = CHR ''<''" | (gt) "c = CHR ''>''" | (amp) "c = CHR ''&''"
    | (ctl) "\<not> (c = quote \<or> c = backslash)" "c \<notin> {CHR ''<'', CHR ''>'', CHR ''&''}" "of_char c < (0x20::nat)"
    | (plain) "\<not> (c = quote \<or> c = backslash)" "c \<notin> {CHR ''<'', CHR ''>'', CHR ''&''}" "\<not> of_char c < (0x20::nat)"
    by blast
  then show ?thesis
  proof cases
    case esc
    then show ?thesis using qb by (auto simp: json_char_def)
  next
    case ctl
    then have "of_char c div 16 < (2::nat)" "of_char c div 16 < (16::nat)" "of_char c mod 16 < (16::nat)" by simp_all
    with ctl show ?thesis using qb h0 by (simp add: json_char_def hex_digit_val)
  qed (use qb h0 in \<open>simp_all add: json_char_def quote_def backslash_def\<close>)
qed

lemma json_string_reads:
  "read_json_string (drop (length b) (appendJSONString b s) @ rest) = Some (s, rest)"
proof -
  have "read_string_body (concat (map json_char s) @ quote # rest) = Some (s, rest)"
    by (induction s) (simp_all add: read_json_char)
  then show ?thesis by (simp add: appendJSONString_concat read_json_string_def)
qed

text \<open>The encoder loses nothing: a reader of JSON strings gets the string back from what
  \<open>appendJSONString\<close> wrote, and continues exactly behind it, whatever follows; no string
  can therefore end its own literal or inject a field.\<close>

theorem json_string_roundtrip:
  "read_json_string (drop (length b) (appendJSONString b s) @ rest) = Some (s, rest)"
  by (rule json_string_reads)

text \<open>The bytes written for a string hold no control character and none of the characters
  that are special in HTML.\<close>

theorem json_string_html_safe:
  "set (drop (length b) (appendJSONString b s)) \<inter> {c. of_char c < (0x20::nat) \<or> c \<in> {CHR ''<'', CHR ''>'', CHR ''&''}} = {}"
proof -
  have hex: "\<not> of_char (hexDigits ! d) < (0x20::nat) \<and> hexDigits ! d \<notin> {CHR ''<'', CHR ''>'', CHR ''&''}"
    if "d < 16" for d
  proof -
    have "list_all (\<lambda>d. \<not> of_char (hexDigits ! d) < (0x20::nat)
        \<and> hexDigits ! d \<notin> {CHR ''<'', CHR ''>'', CHR ''&''}) [0..<16]" by code_simp
    with that show ?thesis by (simp add: list_all_iff)
  qed
  have "\<not> of_char x < (0x20::nat) \<and> x \<notin> {CHR ''<'', CHR ''>'', CHR ''&''}" if "x \<in> set (json_char c)" for x c
  proof -
    have "(of_char c :: nat) < 16 * 16" by simp
    then have "of_char c div 16 < (16::nat)" "of_char c mod 16 < (16::nat)"
      by (simp_all add: less_mult_imp_div_less)
    from this [THEN hex] that show ?thesis
      by (auto simp: json_char_def quote_def backslash_def split: if_splits)
  qed
  then show ?thesis
    by (auto simp: appendJSONString_concat quote_def)
qed

subsection \<open>The envelope\<close>

text \<open>Values by kind; a pointer or interface is its target, a function, channel or complex number opaque.\<close>

datatype goval =
    GArray "goval list" | GMap "(string \<times> goval) list" | GSlice "goval list" | GString string
  | GBool bool | GInt int | GUint nat | GFloat nat
  | GInterface "goval option" | GPointer "goval option"
  | GStruct "goval list" | GOpaque

fun isEmptyValue :: "goval \<Rightarrow> bool" where
  "isEmptyValue (GArray vs) = (length vs = 0)"
| "isEmptyValue (GMap kvs) = (length kvs = 0)"
| "isEmptyValue (GSlice vs) = (length vs = 0)"
| "isEmptyValue (GString s) = (length s = 0)"
| "isEmptyValue (GBool b) = (b = False)"
| "isEmptyValue (GInt i) = (i = 0)"
| "isEmptyValue (GUint n) = (n = 0)"
| "isEmptyValue (GFloat bits) = (bits = 0)"
| "isEmptyValue (GInterface v) = (v = None)"
| "isEmptyValue (GPointer v) = (v = None)"
| "isEmptyValue (GStruct fs) = False"
| "isEmptyValue GOpaque = False"

text \<open>A JSON key \<open>"k":\<close>.\<close>

definition jkey :: "string \<Rightarrow> string" where
  "jkey k = quote # k @ [quote, CHR '':'']"

definition envelope ::
    "(goval \<Rightarrow> string option) \<Rightarrow> int \<Rightarrow> string \<Rightarrow> goval option \<Rightarrow> string \<Rightarrow> int \<Rightarrow> string" where
  "envelope marshal code msg payload rid now =
     (let b = CHR ''{'' # jkey ''code'' @ itoa code;
          b = appendJSONString (b @ CHR '','' # jkey ''msg'') msg;
          b = (case payload of
                 None \<Rightarrow> b
               | Some v \<Rightarrow>
                   (if isEmptyValue v then b
                    else b @ CHR '','' # jkey ''data''
                      @ (case marshal v of None \<Rightarrow> ''null'' | Some bs \<Rightarrow> bs)));
          b = appendJSONString (b @ CHR '','' # jkey ''requestId'') rid
      in b @ CHR '','' # jkey ''timestamp'' @ itoa now @ ''}'')"

definition writeStandardized ::
    "(goval \<Rightarrow> string option) \<Rightarrow> int \<Rightarrow> int \<Rightarrow> string \<Rightarrow> goval option \<Rightarrow> int \<Rightarrow> 'h Context \<Rightarrow> 'h Context" where
  "writeStandardized marshal now httpStatus msg payload code c =
     (let b = envelope marshal code msg payload (RequestID c) now;
          c1 = c\<lparr>writer := setContentType ''application/json; charset=utf-8'' (writer c)\<rparr>
      in write_bytes b (writeHeader httpStatus c1))"

definition JSONResponse ::
    "(goval \<Rightarrow> string option) \<Rightarrow> int \<Rightarrow> int \<Rightarrow> string \<Rightarrow> goval option \<Rightarrow> 'h Context \<Rightarrow> 'h Context" where
  "JSONResponse marshal now httpStatus msg payload c =
     writeStandardized marshal now httpStatus msg payload httpStatus c"

definition Success :: "(goval \<Rightarrow> string option) \<Rightarrow> int \<Rightarrow> string \<Rightarrow> goval option \<Rightarrow> 'h Context \<Rightarrow> 'h Context" where
  "Success marshal now msg payload c = writeStandardized marshal now 200 msg payload 0 c"

definition Fail :: "(goval \<Rightarrow> string option) \<Rightarrow> int \<Rightarrow> int \<Rightarrow> int \<Rightarrow> string \<Rightarrow> 'h Context \<Rightarrow> 'h Context" where
  "Fail marshal now httpStatus code msg c = writeStandardized marshal now httpStatus msg None code c"

definition AbortWithStatusJSON ::
    "(goval \<Rightarrow> string option) \<Rightarrow> int \<Rightarrow> int \<Rightarrow> string \<Rightarrow> goval option \<Rightarrow> 'h Context \<Rightarrow> 'h Context" where
  "AbortWithStatusJSON marshal now httpStatus msg payload c =
     JSONResponse marshal now httpStatus msg payload (Abort c)"

text \<open>The texts of the fallback handlers, as UTF-8.\<close>

definition msg_not_found :: string where
  "msg_not_found =
     [CHR 0xE8, CHR 0xAF, CHR 0xB7, CHR 0xE6, CHR 0xB1, CHR 0x82, CHR 0xE7, CHR 0x9A,
      CHR 0x84, CHR 0xE8, CHR 0xB5, CHR 0x84, CHR 0xE6, CHR 0xBA, CHR 0x90, CHR 0xE4,
      CHR 0xB8, CHR 0x8D, CHR 0xE5, CHR 0xAD, CHR 0x98, CHR 0xE5, CHR 0x9C, CHR 0xA8]"

definition msg_no_method :: string where
  "msg_no_method =
     [CHR 0xE4, CHR 0xB8, CHR 0x8D, CHR 0xE6, CHR 0x94, CHR 0xAF, CHR 0xE6, CHR 0x8C,
      CHR 0x81, CHR 0xE7, CHR 0x9A, CHR 0x84, CHR 0xE8, CHR 0xAF, CHR 0xB7, CHR 0xE6,
      CHR 0xB1, CHR 0x82, CHR 0xE6, CHR 0x96, CHR 0xB9, CHR 0xE6, CHR 0xB3, CHR 0x95]"

definition NoRouteHandler :: "(goval \<Rightarrow> string option) \<Rightarrow> int \<Rightarrow> 'h Context \<Rightarrow> 'h Context" where
  "NoRouteHandler marshal now c = JSONResponse marshal now 404 msg_not_found None c"

definition NoMethodHandler :: "(goval \<Rightarrow> string option) \<Rightarrow> int \<Rightarrow> 'h Context \<Rightarrow> 'h Context" where
  "NoMethodHandler marshal now c = JSONResponse marshal now 405 msg_no_method None c"

subsection \<open>Reading an envelope back\<close>

definition expect :: "string \<Rightarrow> string \<Rightarrow> string option" where
  "expect p t = (if has_prefix t p then Some (drop (length p) t) else None)"

lemma expect_append [simp]: "expect p (p @ t) = Some t"
  by (simp add: expect_def)

lemma expect_Cons [simp]: "expect (c # p) (c # t) = expect p t" "expect [] t = Some t"
  by (simp_all add: expect_def)

text \<open>
  A reader of envelopes without data: the fields \<open>code\<close>, \<open>msg\<close>, \<open>requestId\<close> and
  \<open>timestamp\<close>, in this order and nothing else.
\<close>

definition read_envelope :: "string \<Rightarrow> (int \<times> string \<times> string \<times> int) option" where
  "read_envelope t =
     Option.bind (expect (CHR ''{'' # jkey ''code'') t) (\<lambda>t.
     Option.bind (read_int t) (\<lambda>(code, t).
     Option.bind (expect (CHR '','' # jkey ''msg'') t) (\<lambda>t.
     Option.bind (read_json_string t) (\<lambda>(msg, t).
     Option.bind (expect (CHR '','' # jkey ''requestId'') t) (\<lambda>t.
     Option.bind (read_json_string t) (\<lambda>(rid, t).
     Option.bind (expect (CHR '','' # jkey ''timestamp'') t) (\<lambda>t.
     Option.bind (read_int t) (\<lambda>(ts, t).
     if t = ''}'' then Some (code, msg, rid, ts) else None))))))))"

lemma read_append_string [simp]:
  "read_json_string (quote # concat (map json_char s) @ quote # rest) = Some (s, rest)"
  using json_string_reads [of "[]" s rest] by (simp add: appendJSONString_concat)

lemma read_itoa_sep [simp]: "\<not> is_digit c \<Longrightarrow> read_int (itoa i @ c # rest) = Some (i, c # rest)"
  by (rule read_itoa) simp

lemma not_digit_sep [simp]: "\<not> is_digit (CHR '','')" "\<not> is_digit (CHR ''}'')"
  by (simp_all add: is_digit_def less_eq_char_def)

lemma envelope_reads:
  "(case payload of None \<Rightarrow> True | Some v \<Rightarrow> isEmptyValue v) \<Longrightarrow>
   read_envelope (envelope marshal code msg payload rid now) = Some (code, msg, rid, now)"
  by (cases payload) (simp_all add: envelope_def read_envelope_def Let_def appendJSONString_concat jkey_def)

lemma standardized_written:
  assumes "case payload of None \<Rightarrow> True | Some v \<Rightarrow> isEmptyValue v" "w_stack (writer c) = []"
  shows "\<exists>b. read_envelope b = Some (code, msg, RequestID c, now)
    \<and> w_log (writer (writeStandardized marshal now st msg payload code c)) = w_log (writer c)
        @ (if wrote c then [] else [WHeader st (header_put_first ''Content-Type'' ''application/json; charset=utf-8'' (w_header (writer c)))])
        @ [WBytes b (header_put_first ''Content-Type'' ''application/json; charset=utf-8'' (w_header (writer c)))]
    \<and> StatusCode (writeStandardized marshal now st msg payload code c) = (if wrote c then StatusCode c else if st = 0 then 200 else st)"
proof (intro exI conjI)
  show "read_envelope (envelope marshal code msg payload (RequestID c) now) = Some (code, msg, RequestID c, now)"
    using assms(1) by (rule envelope_reads)
qed (use assms(2) in \<open>simp_all add: writeStandardized_def Let_def write_bytes_def writeHeader_def setContentType_def StatusCode_def\<close>)

text \<open>C36. A standardized response without data (absent, or empty by the \<open>omitempty\<close> rule) is one
  well-formed envelope: what is written can be read back to the business code, the message,
  the request id of the context and the time, whatever bytes the message and the id hold,
  and the status goes out with it exactly when no status was sent before. The writer is the
  connection, without a wrapper in front of it.\<close>

theorem standardized_roundtrip:
  assumes "case payload of None \<Rightarrow> True | Some v \<Rightarrow> isEmptyValue v" "w_stack (writer c) = []"
  shows "\<exists>b. read_envelope b = Some (code, msg, RequestID c, now)
    \<and> w_log (writer (writeStandardized marshal now st msg payload code c)) = w_log (writer c)
        @ (if wrote c then [] else [WHeader st (header_put_first ''Content-Type'' ''application/json; charset=utf-8'' (w_header (writer c)))])
        @ [WBytes b (header_put_first ''Content-Type'' ''application/json; charset=utf-8'' (w_header (writer c)))]
    \<and> StatusCode (writeStandardized marshal now st msg payload code c) = (if wrote c then StatusCode c else if st = 0 then 200 else st)"
  using assms by (rule standardized_written)

theorem standardized_roundtrip_witness:
  "\<exists>b. read_envelope b = Some (404, msg_not_found, ''r1'', 17)
    \<and> w_log (writer (NoRouteHandler (\<lambda>_. None) 17 (Set_val ''requestId'' (StrVal ''r1'') (NewContext new_writer nil_request :: nat Context))))
      = [WHeader 404 [(''Content-Type'', [''application/json; charset=utf-8''])],
         WBytes b [(''Content-Type'', [''application/json; charset=utf-8''])]]"
proof -
  let ?c = "Set_val ''requestId'' (StrVal ''r1'') (NewContext new_writer nil_request :: nat Context)"
  have "case (None :: goval option) of None \<Rightarrow> True | Some v \<Rightarrow> isEmptyValue v" by simp
  moreover have "RequestID ?c = ''r1''" "\<not> wrote ?c" "writer ?c = new_writer" "w_stack (writer ?c) = []"
    by (simp_all add: RequestID_def GetString_def Get_val_def Set_val_def NewContext_def)
  moreover have "header_put_first ''Content-Type'' v [] = [(''Content-Type'', [v])]" for v
    by (simp add: header_put_first_def hindex_def)
  ultimately show ?thesis
    using standardized_roundtrip [of None ?c 404 msg_not_found 17 "\<lambda>_. None" 404]
    by (auto simp: NoRouteHandler_def JSONResponse_def new_writer_def)
qed

subsection \<open>Errors as responses\<close>

text \<open>
  \<open>errorhandler.go\<close>: \<open>kind_of\<close> and \<open>kind_status\<close> are \<open>errx.KindOf\<close> and
  \<open>errx.KindHTTPStatus\<close>, \<open>error_text\<close> the \<open>Error\<close> method.
\<close>

definition StatusForError :: "('k \<Rightarrow> int) \<Rightarrow> ('e \<Rightarrow> 'k) \<Rightarrow> 'e \<Rightarrow> int" where
  "StatusForError kind_status kind_of err = kind_status (kind_of err)"

definition RespondError ::
    "(goval \<Rightarrow> string option) \<Rightarrow> int \<Rightarrow> ('k \<Rightarrow> int) \<Rightarrow> ('e \<Rightarrow> 'k) \<Rightarrow> ('e \<Rightarrow> string) \<Rightarrow> 'e \<Rightarrow> 'h Context \<Rightarrow> 'h Context" where
  "RespondError marshal now kind_status kind_of error_text err c =
     (let st = StatusForError kind_status kind_of err in Fail marshal now st st (error_text err) c)"

record StandardizedResponse =
  Code :: int
  Msg :: string
  Data :: "goval option"
  RequestId :: string
  Timestamp :: int

definition RespondErrorWithData ::
    "(StandardizedResponse \<Rightarrow> string option) \<Rightarrow> int \<Rightarrow> ('k \<Rightarrow> int) \<Rightarrow> ('e \<Rightarrow> 'k) \<Rightarrow> ('e \<Rightarrow> string) \<Rightarrow> 'e
      \<Rightarrow> goval option \<Rightarrow> 'h Context \<Rightarrow> 'h Context" where
  "RespondErrorWithData encode now kind_status kind_of error_text err payload c =
     (let st = StatusForError kind_status kind_of err
      in fst (JSON st (encode \<lparr>Code = st, Msg = error_text err, Data = payload, RequestId = RequestID c,
                 Timestamp = now\<rparr>) c))"

end
