(* ===== verification/HandlerChain.thy ===== *)
theory HandlerChain
  imports Response
begin

text \<open>
  The handler chain of \<open>core.Context\<close>: \<open>SetHandlers\<close>, \<open>Run\<close>, \<open>Next\<close>, \<open>Abort\<close>.

  A \<open>HandlerFunc\<close> is a program over the operations of the context: it does operations,
  branches on what it reads, calls \<open>Next\<close> anywhere and any number of times, returns or
  panics. \<open>exec\<close> and \<open>run_loop\<close> follow the source, with its mutable \<open>index\<close>; since
  handlers call \<open>Next\<close> from inside the loop of \<open>Next\<close>, they carry fuel for the depth of
  calls. The reference \<open>onion\<close> has no index: a handler sees the handlers behind it as one
  block that runs at most once.
\<close>

subsection \<open>Handlers\<close>

text \<open>What a handler can read of its context: everything but the chain it is in.\<close>

definition view :: "'h Context \<Rightarrow> unit Context" where
  "view c = \<lparr>writer = writer c, request = request c, params = params c, values = values c, ctx_route = ctx_route c,
     ctx_group = ctx_group c, trusted = trusted c, handlers_of = [], index = 0, aborted = aborted c, status = status c,
     wrote = wrote c, maxBodyBytes = maxBodyBytes c\<rparr>"

lemma view_frame [simp]: "view (c\<lparr>index := i\<rparr>) = view c" "view (c\<lparr>handlers_of := hs\<rparr>) = view c"
  by (simp_all add: view_def)

text \<open>The arguments of the encoders (time, marshalled data, formatted text) and the outcome of serving a
  file are part of the operation; \<open>OpWriterHeader\<close> and \<open>OpWriterCalls\<close> use \<open>Writer()\<close> past the context;
  \<open>OpWith\<close> is an operation that depends on what the context holds.\<close>

datatype ctx_op =
    OpSet string anyval
  | OpSetRoute string
  | OpSetGroup string
  | OpSetParams "Param list"
  | OpSetTrusted "IPNet list"
  | OpSetMaxBody int
  | OpSetRequest Request
  | OpSetHeaderCanonical string string
  | OpSetRequestHeaderCanonical string string
  | OpHeader string string
  | OpStatus int
  | OpRedirect string int string
  | OpJSON int "string option"
  | OpString int string
  | OpStandardized int int string "goval option" "string option" int
  | OpAbort
  | OpAbortWithStatusJSON int int string "goval option" "string option"
  | OpFile bool bool "header \<Rightarrow> header" int "string list"
  | OpResetWriteState
  | OpWriterHeader "header \<Rightarrow> header"
  | OpWriterCalls "wcall list"
  | OpSetWriter wrapper
  | OpWith "unit Context \<Rightarrow> ctx_op"

primrec apply_op :: "ctx_op \<Rightarrow> 'h Context \<Rightarrow> 'h Context" where
  "apply_op (OpSet k v) c = Set_val k v c"
| "apply_op (OpSetRoute r) c = SetRoute r c"
| "apply_op (OpSetGroup g) c = SetGroup g c"
| "apply_op (OpSetParams ps) c = SetParams ps c"
| "apply_op (OpSetTrusted ns) c = SetTrustedProxies ns c"
| "apply_op (OpSetMaxBody n) c = SetMaxBody n c"
| "apply_op (OpSetRequest r) c = SetRequest r c"
| "apply_op (OpSetHeaderCanonical k v) c = SetHeaderCanonical k v c"
| "apply_op (OpSetRequestHeaderCanonical k v) c = SetRequestHeaderCanonical k v c"
| "apply_op (OpHeader k v) c = Header k v c"
| "apply_op (OpStatus code) c = Status code c"
| "apply_op (OpRedirect text st loc) c = Redirect (\<lambda>_. text) st loc c"
| "apply_op (OpJSON code bs) c = fst (JSON code bs c)"
| "apply_op (OpString code text) c = String_resp (\<lambda>f (_ :: unit list). f) code text [] c"
| "apply_op (OpStandardized now st msg v m code) c = writeStandardized (\<lambda>_. m) now st msg v code c"
| "apply_op OpAbort c = Abort c"
| "apply_op (OpAbortWithStatusJSON now st msg v m) c = AbortWithStatusJSON (\<lambda>_. m) now st msg v c"
| "apply_op (OpFile open_ok stat_ok f code chunks) c = File open_ok stat_ok (run_ServeContent f code chunks) c"
| "apply_op OpResetWriteState c = ResetWriteState c"
| "apply_op (OpWriterHeader f) c = SetWriter (map_header f (writer c)) c"
| "apply_op (OpWriterCalls calls) c = SetWriter (writer_calls calls (writer c)) c"
| "apply_op (OpSetWriter x) c = SetWriter (push_wrapper x (writer c)) c"
| "apply_op (OpWith f) c = apply_op (f (view c)) c"

text \<open>What a handler can branch on.\<close>

datatype ctx_test =
    IsAborted_test
  | Value_test string "anyval option \<Rightarrow> bool"
  | StatusCode_test "int \<Rightarrow> bool"
  | Param_test string "string \<Rightarrow> bool"
  | Request_test "Request \<Rightarrow> bool"
  | View_test "unit Context \<Rightarrow> bool"

fun eval_test :: "ctx_test \<Rightarrow> 'h Context \<Rightarrow> bool" where
  "eval_test IsAborted_test c = IsAborted c"
| "eval_test (Value_test k p) c = p (Get_val k c)"
| "eval_test (StatusCode_test p) c = p (StatusCode c)"
| "eval_test (Param_test k p) c = p (Param_of k c)"
| "eval_test (Request_test p) c = p (request c)"
| "eval_test (View_test p) c = p (view c)"

datatype handler =
    Return
  | Panic
  | Do ctx_op handler
  | When ctx_test handler handler
  | CallNext handler

datatype ending = Returned | Panicked

lemmas op_defs = Set_val_def SetRoute_def SetGroup_def SetParams_def SetTrustedProxies_def SetMaxBody_def
  SetRequest_def SetHeaderCanonical_def SetRequestHeaderCanonical_def Header_def Status_def
  Redirect_def JSON_def String_resp_def writeStandardized_def Abort_def AbortWithStatusJSON_def
  JSONResponse_def writeHeader_def write_bytes_def RequestID_def GetString_def Get_val_def
  File_def ResetWriteState_def SetWriter_def Let_def

lemma apply_op_frame [simp]:
  "handlers_of (apply_op op c) = handlers_of c" "index (apply_op op c) = index c"
  "aborted c \<Longrightarrow> aborted (apply_op op c)"
  by (induction op arbitrary: c; simp add: op_defs split: option.split)+

lemma apply_op_index [simp]: "apply_op op (c\<lparr>index := i\<rparr>) = (apply_op op c)\<lparr>index := i\<rparr>"
  by (induction op arbitrary: c) (simp_all add: op_defs split: option.split)

lemma eval_test_index [simp]: "eval_test t (c\<lparr>index := i\<rparr>) = eval_test t c"
  by (cases t) (simp_all add: IsAborted_def Get_val_def StatusCode_def Param_of_def)

subsection \<open>Run and Next\<close>

definition SetHandlers :: "'h list \<Rightarrow> 'h Context \<Rightarrow> 'h Context" where
  "SetHandlers hs c = c\<lparr>handlers_of := hs\<rparr>"

text \<open>
  \<open>exec\<close> runs a handler's body; \<open>run_loop\<close> is the loop of \<open>Next\<close>. An index below zero is
  the slice's index panic; running out of fuel is \<open>None\<close>.
\<close>

function exec :: "nat \<Rightarrow> handler \<Rightarrow> handler Context \<Rightarrow> (handler Context \<times> ending) option"
  and run_loop :: "nat \<Rightarrow> handler Context \<Rightarrow> (handler Context \<times> ending) option" where
  "exec n Return c = Some (c, Returned)"
| "exec n Panic c = Some (c, Panicked)"
| "exec n (Do op k) c = exec n k (apply_op op c)"
| "exec n (When t a b) c = (if eval_test t c then exec n a c else exec n b c)"
| "exec 0 (CallNext k) c = None"
| "exec (Suc n) (CallNext k) c =
     (case run_loop n (c\<lparr>index := index c + 1\<rparr>) of
        Some (c', Returned) \<Rightarrow> exec (Suc n) k c'
      | r \<Rightarrow> r)"
| "run_loop 0 c =
     (if index c < int (length (handlers_of c)) \<and> \<not> aborted c then None else Some (c, Returned))"
| "run_loop (Suc n) c =
     (if index c < int (length (handlers_of c)) \<and> \<not> aborted c then
        (if index c < 0 then Some (c, Panicked)
         else (case exec n (handlers_of c ! nat (index c)) c of
                 Some (c', Returned) \<Rightarrow> run_loop n (c'\<lparr>index := index c' + 1\<rparr>)
               | r \<Rightarrow> r))
      else Some (c, Returned))"
  by pat_completeness auto
termination
  by (relation "measures [case_sum (\<lambda>(n, h, c). n) (\<lambda>(n, c). n), case_sum (\<lambda>(n, h, c). size h) (\<lambda>(n, c). 0)]") auto

definition Next :: "nat \<Rightarrow> handler Context \<Rightarrow> (handler Context \<times> ending) option" where
  "Next fuel c = run_loop fuel (c\<lparr>index := index c + 1\<rparr>)"

definition Run :: "nat \<Rightarrow> handler Context \<Rightarrow> (handler Context \<times> ending) option" where
  "Run fuel c = Next fuel (c\<lparr>index := -1\<rparr>)"

subsection \<open>The reference semantics\<close>

text \<open>
  \<open>onion rs c\<close> runs the handlers \<open>rs\<close>; \<open>onion_body rs called h c\<close> runs the rest \<open>h\<close> of a
  handler with the handlers \<open>rs\<close> behind it, \<open>called\<close> saying whether it has called them.
\<close>

function onion :: "handler list \<Rightarrow> 'h Context \<Rightarrow> 'h Context \<times> ending"
  and onion_body :: "handler list \<Rightarrow> bool \<Rightarrow> handler \<Rightarrow> 'h Context \<Rightarrow> 'h Context \<times> ending \<times> bool" where
  "onion [] c = (c, Returned)"
| "onion (h # rs) c =
     (if aborted c then (c, Returned)
      else (case onion_body rs False h c of
              (c', Panicked, _) \<Rightarrow> (c', Panicked)
            | (c', Returned, called) \<Rightarrow> if called then (c', Returned) else onion rs c'))"
| "onion_body rs called Return c = (c, Returned, called)"
| "onion_body rs called Panic c = (c, Panicked, called)"
| "onion_body rs called (Do op k) c = onion_body rs called k (apply_op op c)"
| "onion_body rs called (When t a b) c =
     (if eval_test t c then onion_body rs called a c else onion_body rs called b c)"
| "onion_body rs called (CallNext k) c =
     (if called then onion_body rs called k c
      else (case onion rs c of
              (c', Panicked) \<Rightarrow> (c', Panicked, True)
            | (c', Returned) \<Rightarrow> onion_body rs True k c'))"
  by pat_completeness auto
termination
  by (relation "measures [case_sum (\<lambda>(rs, c). length rs) (\<lambda>(rs, d, h, c). length rs),
        case_sum (\<lambda>(rs, c). 0) (\<lambda>(rs, d, h, c). Suc (size h))]") auto

subsection \<open>The loop implements the reference\<close>

definition strip :: "'h Context \<Rightarrow> 'h Context" where
  "strip c = c\<lparr>index := 0\<rparr>"

definition stopped :: "'h Context \<Rightarrow> bool" where
  "stopped c \<longleftrightarrow> int (length (handlers_of c)) \<le> index c \<or> aborted c"

lemma strip_simps [simp]:
  "handlers_of (strip c) = handlers_of c" "aborted (strip c) = aborted c"
  "apply_op op (strip c) = strip (apply_op op c)" "eval_test t (strip c) = eval_test t c"
  "strip (c\<lparr>index := i\<rparr>) = strip c"
  by (simp_all add: strip_def)

lemma run_loop_stopped [simp]: "stopped c \<Longrightarrow> run_loop n c = Some (c, Returned)"
  by (cases n) (auto simp: stopped_def)

lemma stopped_step [simp]: "stopped c \<Longrightarrow> stopped (c\<lparr>index := index c + 1\<rparr>)"
  "stopped c \<Longrightarrow> stopped (apply_op op c)"
  by (auto simp: stopped_def)

definition loop_agrees :: "handler list \<Rightarrow> handler Context \<Rightarrow> bool" where
  "loop_agrees rs c0 \<longleftrightarrow>
     (\<forall>c n i. c0 = strip c \<and> index c = int i \<and> rs = drop i (handlers_of c) \<and> 2 * length rs \<le> n \<longrightarrow>
        (\<exists>c' e. run_loop n c = Some (c', e) \<and> onion rs c0 = (strip c', e)
           \<and> handlers_of c' = handlers_of c \<and> (e = Returned \<longrightarrow> stopped c')))"

definition body_agrees :: "handler list \<Rightarrow> bool \<Rightarrow> handler \<Rightarrow> handler Context \<Rightarrow> bool" where
  "body_agrees rs called h c0 \<longleftrightarrow>
     (\<forall>c n i. c0 = strip c \<and> rs = drop (Suc i) (handlers_of c) \<and> (if called then stopped c else index c = int i)
          \<and> 2 * length rs < n \<longrightarrow>
        (\<exists>c' e called'. exec n h c = Some (c', e) \<and> onion_body rs called h c0 = (strip c', e, called')
           \<and> handlers_of c' = handlers_of c
           \<and> (e = Returned \<longrightarrow> (if called' then stopped c' else index c' = int i))))"

lemma loop_agreesD:
  assumes "loop_agrees rs c0" "c0 = strip c" "index c = int i" "rs = drop i (handlers_of c)" "2 * length rs \<le> n"
  obtains c' e where "run_loop n c = Some (c', e)" "onion rs c0 = (strip c', e)"
    "handlers_of c' = handlers_of c" "e = Returned \<longrightarrow> stopped c'"
  using assms unfolding loop_agrees_def by blast

lemma body_agreesD:
  assumes "body_agrees rs called h c0" "c0 = strip c" "rs = drop (Suc i) (handlers_of c)"
    "if called then stopped c else index c = int i" "2 * length rs < n"
  obtains c' e called' where "exec n h c = Some (c', e)" "onion_body rs called h c0 = (strip c', e, called')"
    "handlers_of c' = handlers_of c" "e = Returned \<longrightarrow> (if called' then stopped c' else index c' = int i)"
  using assms unfolding body_agrees_def by blast

lemma chain_agrees:
  "loop_agrees rs c0" "body_agrees rs' called h c0'"
proof (induction rs c0 and rs' called h c0' rule: onion_onion_body.induct)
  case (1 c)
  then show ?case
    by (auto simp: loop_agrees_def stopped_def)
next
  case (2 h rs c0)
  show ?case
    unfolding loop_agrees_def
  proof (intro allI impI, elim conjE)
    fix c n i
    assume c0: "c0 = strip c" and i: "index c = int i" and rs: "h # rs = drop i (handlers_of c)"
      and n: "2 * length (h # rs) \<le> n"
    from n obtain m where m: "n = Suc m" "2 * length rs < m" by (cases n) auto
    from rs have lt: "i < length (handlers_of c)"
      by (metis drop_all list.distinct(1) not_le_imp_less)
    with rs have h: "handlers_of c ! i = h" "rs = drop (Suc i) (handlers_of c)"
      by (metis Cons_nth_drop_Suc list.inject)+
    show "\<exists>c' e. run_loop n c = Some (c', e) \<and> onion (h # rs) c0 = (strip c', e)
        \<and> handlers_of c' = handlers_of c \<and> (e = Returned \<longrightarrow> stopped c')"
    proof (cases "aborted c")
      case True
      then have "stopped c" by (simp add: stopped_def)
      with c0 True show ?thesis by simp
    next
      case False
      with c0 have na: "\<not> aborted c0" by simp
      have inv: "if False then stopped c else index c = int i" using i by simp
      from body_agreesD [OF 2(1) [OF na] c0 h(2) inv m(2)] obtain c1 e called' where
        ex: "exec m h c = Some (c1, e)" and body: "onion_body rs False h c0 = (strip c1, e, called')"
        and hs: "handlers_of c1 = handlers_of c"
        and pos: "e = Returned \<longrightarrow> (if called' then stopped c1 else index c1 = int i)"
        by blast
      have run: "run_loop n c = (case Some (c1, e) of
          Some (c', Returned) \<Rightarrow> run_loop m (c'\<lparr>index := index c' + 1\<rparr>) | r \<Rightarrow> r)"
        using lt i h m(1) False ex by simp
      show ?thesis
      proof (cases e)
        case Panicked
        with run body hs na show ?thesis by simp
      next
        case Returned
        show ?thesis
        proof (cases called')
          case True
          with Returned pos run body hs na show ?thesis by simp
        next
          case notcalled: False
          let ?c = "c1\<lparr>index := index c1 + 1\<rparr>"
          have "onion (h # rs) c0 = onion rs (strip c1)"
            using na body Returned notcalled by simp
          moreover have "loop_agrees rs (strip c1)"
            using 2(2) [OF na body [symmetric] refl Returned] notcalled by blast
          ultimately show ?thesis
            using loop_agreesD [of rs "strip c1" ?c "Suc i" m] hs pos Returned notcalled h(2) m run
            by fastforce
        qed
      qed
    qed
  qed
next
  case (7 rs called k c0)
  show ?case
    unfolding body_agrees_def
  proof (intro allI impI, elim conjE)
    fix c n i
    assume c0: "c0 = strip c" and rs: "rs = drop (Suc i) (handlers_of c)"
      and pos: "if called then stopped c else index c = int i" and n: "2 * length rs < n"
    from n obtain m where m: "n = Suc m" "2 * length rs \<le> m" by (cases n) auto
    let ?c = "c\<lparr>index := index c + 1\<rparr>"
    show "\<exists>c' e called'. exec n (CallNext k) c = Some (c', e) \<and> onion_body rs called (CallNext k) c0 = (strip c', e, called')
        \<and> handlers_of c' = handlers_of c \<and> (e = Returned \<longrightarrow> (if called' then stopped c' else index c' = int i))"
    proof (cases called)
      case True
      with 7(1) have "body_agrees rs True k c0" by simp
      moreover have "c0 = strip ?c" "rs = drop (Suc i) (handlers_of ?c)" "if True then stopped ?c else index ?c = int i"
        using c0 rs pos True by simp_all
      ultimately obtain c' e called' where
        "exec n k ?c = Some (c', e)" "onion_body rs True k c0 = (strip c', e, called')"
        "handlers_of c' = handlers_of ?c" "e = Returned \<longrightarrow> (if called' then stopped c' else index c' = int i)"
        using n by (rule body_agreesD)
      moreover have "run_loop m ?c = Some (?c, Returned)" using pos True by simp
      ultimately show ?thesis using True m(1) by simp
    next
      case False
      with 7(2) have "loop_agrees rs c0" by blast
      moreover have "c0 = strip ?c" "index ?c = int (Suc i)" "rs = drop (Suc i) (handlers_of ?c)"
        using c0 rs pos False by simp_all
      ultimately obtain c1 e where run0: "run_loop m ?c = Some (c1, e)" "onion rs c0 = (strip c1, e)"
        "handlers_of c1 = handlers_of ?c" "e = Returned \<longrightarrow> stopped c1"
        using m(2) by (rule loop_agreesD)
      then have run: "run_loop m ?c = Some (c1, e)" "onion rs c0 = (strip c1, e)"
        "handlers_of c1 = handlers_of c" "e = Returned \<longrightarrow> stopped c1"
        by simp_all
      show ?thesis
      proof (cases e)
        case Panicked
        with run m(1) False show ?thesis by auto
      next
        case Returned
        with 7(3) [OF False run(2) [symmetric] Returned] have "body_agrees rs True k (strip c1)" by blast
        moreover have "strip c1 = strip c1" "rs = drop (Suc i) (handlers_of c1)" "if True then stopped c1 else index c1 = int i"
          using rs run(3,4) Returned by simp_all
        ultimately obtain c' e' called' where ex:
          "exec n k c1 = Some (c', e')" "onion_body rs True k (strip c1) = (strip c', e', called')"
          and fin: "handlers_of c' = handlers_of c1" "e' = Returned \<longrightarrow> (if called' then stopped c' else index c' = int i)"
          using n by (rule body_agreesD)
        have "exec n (CallNext k) c = Some (c', e')" using run(1) Returned m(1) ex(1) by simp
        moreover have "onion_body rs called (CallNext k) c0 = (strip c', e', called')"
          using run(2) Returned False ex(2) by simp
        moreover have "handlers_of c' = handlers_of c" using fin(1) run(3) by simp
        ultimately show ?thesis using fin(2) by blast
      qed
    qed
  qed
qed (fastforce simp: body_agrees_def)+

lemma chain_terminates:
  "\<exists>c' e. Run (2 * length hs + k) (SetHandlers hs c) = Some (c', e)
     \<and> onion hs ((SetHandlers hs c)\<lparr>index := 0\<rparr>) = (c'\<lparr>index := 0\<rparr>, e)"
proof -
  let ?c = "(SetHandlers hs c)\<lparr>index := 0\<rparr>"
  have "loop_agrees hs ?c" by (rule chain_agrees(1))
  moreover have "?c = strip ?c" "index ?c = int 0" "hs = drop 0 (handlers_of ?c)"
    "2 * length hs \<le> 2 * length hs + k"
    by (simp_all add: strip_def SetHandlers_def)
  ultimately obtain c' e where "run_loop (2 * length hs + k) ?c = Some (c', e)" "onion hs ?c = (strip c', e)"
    by (rule loop_agreesD)
  then show ?thesis by (auto simp: Run_def Next_def strip_def)
qed

text \<open>C4. Running a chain always ends, and ends as the reference says. However the handlers call
  \<open>Next\<close> (not at all, in the middle, several times), branch, abort or panic: twice the
  length of the chain is enough fuel, and the context left by the index loop is the one of
  the semantics in which every handler runs at most once, in order, the handlers behind it
  running inside its first \<open>Next\<close>, or after it when it never calls \<open>Next\<close>.\<close>

theorem chain_refines_onion:
  "map_option (\<lambda>(c', e). (c'\<lparr>index := 0\<rparr>, e)) (Run (2 * length hs + k) (SetHandlers hs c)) =
     Some (onion hs ((SetHandlers hs c)\<lparr>index := 0\<rparr>))"
  using chain_terminates [of hs k c] by auto

subsection \<open>Consequences\<close>

text \<open>A handler that is certain to abort before it lets the others run.\<close>

fun aborts_first :: "handler \<Rightarrow> bool" where
  "aborts_first (Do op k) \<longleftrightarrow>
     (case op of OpAbort \<Rightarrow> True | OpAbortWithStatusJSON now st msg v m \<Rightarrow> True | _ \<Rightarrow> aborts_first k)"
| "aborts_first (When t a b) \<longleftrightarrow> aborts_first a \<and> aborts_first b"
| "aborts_first Panic \<longleftrightarrow> True"
| "aborts_first _ \<longleftrightarrow> False"

lemma onion_aborted [simp]: "aborted c \<Longrightarrow> onion rs c = (c, Returned)"
  by (cases rs) simp_all

lemma onion_body_aborted:
  "aborted c \<Longrightarrow> \<exists>c' e d. onion_body rs called h c = (c', e, d) \<and> onion_body [] called h c = (c', e, d) \<and> aborted c'"
  by (induction h arbitrary: c called) auto

lemma onion_body_aborts:
  "aborts_first h \<Longrightarrow> \<exists>c' e d. onion_body rs called h c = (c', e, d) \<and> onion_body [] called h c = (c', e, d)
     \<and> (e = Returned \<longrightarrow> aborted c')"
proof (induction h arbitrary: c)
  case (Do op k)
  have "aborts_first k \<or> aborted (apply_op op c)"
    using Do.prems by (cases op) (auto simp: op_defs)
  then show ?case
    using Do.IH onion_body_aborted [of "apply_op op c" rs called k] by fastforce
qed auto

lemma onion_body_cong:
  fixes c :: "'h Context"
  assumes "\<And>c :: 'h Context. onion rs c = onion rs' c"
  shows "onion_body rs called h c = onion_body rs' called h c"
  by (induction h arbitrary: called c) (simp_all add: assms split: prod.split ending.split)

lemma onion_abort:
  "aborts_first h \<Longrightarrow> onion (pre @ h # rs) c = onion (pre @ [h]) c"
proof (induction pre arbitrary: c)
  case Nil
  from onion_body_aborts [OF Nil, of rs False c] show ?case
    by (auto split: ending.splits)
next
  case (Cons p pre)
  from onion_body_cong [OF Cons.IH [OF Cons.prems]] Cons.IH [OF Cons.prems] show ?case
    by (simp split: prod.split ending.split)
qed

text \<open>The list of handlers is read by the loop only, not by the handlers.\<close>

lemma apply_op_handlers [simp]: "apply_op op (c\<lparr>handlers_of := hs\<rparr>) = (apply_op op c)\<lparr>handlers_of := hs\<rparr>"
  by (induction op arbitrary: c) (simp_all add: op_defs split: option.split)

lemma eval_test_handlers [simp]: "eval_test t (c\<lparr>handlers_of := hs\<rparr>) = eval_test t c"
  by (cases t) (simp_all add: IsAborted_def Get_val_def StatusCode_def Param_of_def)

lemma onion_handlers:
  fixes c c' :: "'h Context"
  shows "onion rs (c\<lparr>handlers_of := hs\<rparr>) = apfst (\<lambda>c. c\<lparr>handlers_of := hs\<rparr>) (onion rs c)"
    and "onion_body rs' called h (c'\<lparr>handlers_of := hs\<rparr>) = apfst (\<lambda>c. c\<lparr>handlers_of := hs\<rparr>) (onion_body rs' called h c')"
proof (induction rs c and rs' called h c' rule: onion_onion_body.induct)
  case (2 h rs c)
  then show ?case by (auto split: prod.splits ending.splits)
next
  case (7 rs called k c)
  then show ?case by (auto split: prod.splits ending.splits)
qed simp_all

text \<open>What a run leaves, apart from the loop's own variables.\<close>

definition outcome :: "('h Context \<times> ending) option \<Rightarrow> ('h Context \<times> ending) option" where
  "outcome r = map_option (\<lambda>(c, e). (c\<lparr>index := 0, handlers_of := []\<rparr>, e)) r"

lemma outcome_Run:
  "outcome (Run (2 * length hs + k) (SetHandlers hs c)) = Some (onion hs (c\<lparr>index := 0, handlers_of := []\<rparr>))"
proof -
  obtain c' e where run: "Run (2 * length hs + k) (SetHandlers hs c) = Some (c', e)"
    and on: "onion hs ((SetHandlers hs c)\<lparr>index := 0\<rparr>) = (c'\<lparr>index := 0\<rparr>, e)"
    using chain_terminates by blast
  have "onion hs (((SetHandlers hs c)\<lparr>index := 0\<rparr>)\<lparr>handlers_of := []\<rparr>) = (c'\<lparr>index := 0\<rparr>\<lparr>handlers_of := []\<rparr>, e)"
    by (simp only: onion_handlers on) simp
  with run show ?thesis by (simp add: outcome_def SetHandlers_def)
qed

text \<open>\<open>Abort\<close> ends the chain: what a chain does up to a handler that aborts before calling
  \<open>Next\<close> does not depend on the handlers behind it; none of them has any effect.\<close>

theorem abort_skips_rest:
  assumes "aborts_first h"
  shows "outcome (Run (2 * length (pre @ h # rs) + k) (SetHandlers (pre @ h # rs) c)) =
    outcome (Run (2 * length (pre @ [h]) + k') (SetHandlers (pre @ [h]) c))"
  using onion_abort [OF assms, of pre rs "c\<lparr>index := 0, handlers_of := []\<rparr>"]
  by (simp only: outcome_Run)

text \<open>A logging handler, an authentication handler that rejects, and a handler that must not run.\<close>

definition demo_chain :: "handler list" where
  "demo_chain =
    [Do (OpSet ''log'' (StrVal ''in'')) (CallNext (Do (OpSet ''log'' (StrVal ''out'')) Return)),
     When (Request_test (\<lambda>r. req_method r = ''GET'')) (Do (OpAbortWithStatusJSON 0 401 ''no'' None None) Return)
       (Do OpAbort Return),
     Do (OpString 200 ''secret'') Return]"

theorem abort_skips_rest_witness:
  "outcome (Run 6 (SetHandlers demo_chain (NewContext new_writer nil_request))) =
   outcome (Run 4 (SetHandlers (take 2 demo_chain) (NewContext new_writer nil_request)))"
proof -
  have "aborts_first (demo_chain ! 1)" by (simp add: demo_chain_def)
  from abort_skips_rest [OF this, of "take 1 demo_chain" "drop 2 demo_chain" 0 "NewContext new_writer nil_request" 0]
  show ?thesis by (simp add: demo_chain_def)
qed

subsection \<open>One answer\<close>

text \<open>Nothing was sent, or one status, before everything else and directly to the connection, and it is
  the one the context reports.\<close>

definition write_inv :: "'h Context \<Rightarrow> bool" where
  "write_inv c \<longleftrightarrow> w_stack (writer c) = []
     \<and> (if wrote c then \<exists>h es. w_log (writer c) = WHeader (status c) h # es \<and> status_calls es = []
        else w_log (writer c) = [] \<and> status c = 0)"

text \<open>
  The operations that answer guard themselves with \<open>wrote\<close>, but \<open>File\<close> and \<open>ResetWriteState\<close> do not
  look at it, and \<open>Writer()\<close> leads past it. A chain is checked statically: \<open>progress\<close> is what is known
  of the context before an operation, whether a status may have been sent, has been sent for sure,
  and whether the chain is aborted for sure.
\<close>

record progress =
  may_sent :: bool
  has_sent :: bool
  is_aborted :: bool

primrec answers :: "ctx_op \<Rightarrow> bool" where
  "answers (OpSet k v) = False"
| "answers (OpSetRoute r) = False"
| "answers (OpSetGroup g) = False"
| "answers (OpSetParams ps) = False"
| "answers (OpSetTrusted ns) = False"
| "answers (OpSetMaxBody n) = False"
| "answers (OpSetRequest r) = False"
| "answers (OpSetHeaderCanonical k v) = False"
| "answers (OpSetRequestHeaderCanonical k v) = False"
| "answers (OpHeader k v) = False"
| "answers (OpStatus code) = True"
| "answers (OpRedirect text st loc) = True"
| "answers (OpJSON code bs) = True"
| "answers (OpString code text) = True"
| "answers (OpStandardized now st msg v m code) = True"
| "answers OpAbort = False"
| "answers (OpAbortWithStatusJSON now st msg v m) = True"
| "answers (OpFile open_ok stat_ok f code chunks) = True"
| "answers OpResetWriteState = False"
| "answers (OpWriterHeader f) = False"
| "answers (OpWriterCalls calls) = False"
| "answers (OpSetWriter x) = False"
| "answers (OpWith f) = (\<exists>v. answers (f v))"

text \<open>An operation that depends on the context is only known to do what it does in all of its cases.\<close>

primrec surely :: "(ctx_op \<Rightarrow> bool) \<Rightarrow> ctx_op \<Rightarrow> bool" where
  "surely P (OpSet k v) = P (OpSet k v)"
| "surely P (OpSetRoute r) = P (OpSetRoute r)"
| "surely P (OpSetGroup g) = P (OpSetGroup g)"
| "surely P (OpSetParams ps) = P (OpSetParams ps)"
| "surely P (OpSetTrusted ns) = P (OpSetTrusted ns)"
| "surely P (OpSetMaxBody n) = P (OpSetMaxBody n)"
| "surely P (OpSetRequest r) = P (OpSetRequest r)"
| "surely P (OpSetHeaderCanonical k v) = P (OpSetHeaderCanonical k v)"
| "surely P (OpSetRequestHeaderCanonical k v) = P (OpSetRequestHeaderCanonical k v)"
| "surely P (OpHeader k v) = P (OpHeader k v)"
| "surely P (OpStatus code) = P (OpStatus code)"
| "surely P (OpRedirect text st loc) = P (OpRedirect text st loc)"
| "surely P (OpJSON code bs) = P (OpJSON code bs)"
| "surely P (OpString code text) = P (OpString code text)"
| "surely P (OpStandardized now st msg v m code) = P (OpStandardized now st msg v m code)"
| "surely P OpAbort = P OpAbort"
| "surely P (OpAbortWithStatusJSON now st msg v m) = P (OpAbortWithStatusJSON now st msg v m)"
| "surely P (OpFile open_ok stat_ok f code chunks) = P (OpFile open_ok stat_ok f code chunks)"
| "surely P OpResetWriteState = P OpResetWriteState"
| "surely P (OpWriterHeader f) = P (OpWriterHeader f)"
| "surely P (OpWriterCalls calls) = P (OpWriterCalls calls)"
| "surely P (OpSetWriter x) = P (OpSetWriter x)"
| "surely P (OpWith f) = (\<forall>v. surely P (f v))"

definition aborts :: "ctx_op \<Rightarrow> bool" where
  "aborts op \<longleftrightarrow> (case op of OpAbort \<Rightarrow> True | OpAbortWithStatusJSON now st msg v m \<Rightarrow> True | _ \<Rightarrow> False)"

definition allowed_op :: "progress \<Rightarrow> ctx_op \<Rightarrow> bool" where
  "allowed_op p op \<longleftrightarrow>
     (case op of
        OpFile open_ok stat_ok f code chunks \<Rightarrow> \<not> may_sent p
      | OpResetWriteState \<Rightarrow> \<not> may_sent p
      | OpWriterCalls calls \<Rightarrow> has_sent p \<and> list_all (\<lambda>call. case call of CWriteHeader code \<Rightarrow> False | _ \<Rightarrow> True) calls
      | OpSetWriter x \<Rightarrow> False
      | _ \<Rightarrow> True)"

definition after_op :: "ctx_op \<Rightarrow> progress \<Rightarrow> progress" where
  "after_op op p =
     \<lparr>may_sent = may_sent p \<or> answers op, has_sent = has_sent p \<or> surely answers op,
      is_aborted = is_aborted p \<or> surely aborts op\<rparr>"

text \<open>The check follows the reference semantics; what the handlers behind a call of \<open>Next\<close> may send
  is not looked at.\<close>

function answers_once :: "handler list \<Rightarrow> progress \<Rightarrow> bool"
  and body_once :: "handler list \<Rightarrow> bool \<Rightarrow> handler \<Rightarrow> progress \<Rightarrow> bool" where
  "answers_once [] p = True"
| "answers_once (h # rs) p = (is_aborted p \<or> body_once rs False h p)"
| "body_once rs called Return p = (called \<or> answers_once rs p)"
| "body_once rs called Panic p = True"
| "body_once rs called (Do op k) p = (surely (allowed_op p) op \<and> body_once rs called k (after_op op p))"
| "body_once rs called (When t a b) p = (body_once rs called a p \<and> body_once rs called b p)"
| "body_once rs called (CallNext k) p =
     (if called then body_once rs called k p
      else answers_once rs p \<and> body_once rs True k (p\<lparr>may_sent := True\<rparr>))"
  by pat_completeness auto
termination
  by (relation "measures [case_sum (\<lambda>(rs, p). length rs) (\<lambda>(rs, d, h, p). length rs),
        case_sum (\<lambda>(rs, p). 0) (\<lambda>(rs, d, h, p). Suc (size h))]") auto

text \<open>What is known fits the context, also after an operation that is allowed.\<close>

definition fits :: "progress \<Rightarrow> 'h Context \<Rightarrow> bool" where
  "fits p c \<longleftrightarrow> (wrote c \<longrightarrow> may_sent p) \<and> (has_sent p \<longrightarrow> wrote c) \<and> (is_aborted p \<longrightarrow> aborted c)"

lemma run_ServeContent_plain:
  assumes "w_stack (rec_writer w) = []"
  shows "w_stack (rec_writer (run_ServeContent f code chunks w)) = []
    \<and> (\<exists>es. w_log (rec_writer (run_ServeContent f code chunks w)) = w_log (rec_writer w) @ WHeader code (f (w_header (rec_writer w))) # es
         \<and> status_calls es = [])
    \<and> rec_status (run_ServeContent f code chunks w) = (if rec_status w = 0 then code else rec_status w)"
proof (induction chunks rule: rev_induct)
  case Nil
  then show ?case using assms by (simp add: run_ServeContent_def recorder_WriteHeader_def)
next
  case (snoc b chunks)
  have "run_ServeContent f code (chunks @ [b]) w = recorder_Write b (run_ServeContent f code chunks w)"
    by (simp add: run_ServeContent_def)
  with snoc show ?case by (auto simp: recorder_Write_def)
qed

lemma plain_calls:
  "w_stack w = [] \<Longrightarrow> writer_calls calls w = w\<lparr>w_log := w_log w @ map (event (w_header w)) calls\<rparr>"
  by (cases w) (simp add: writer_calls_def)

lemma no_status_calls:
  "list_all (\<lambda>call. case call of CWriteHeader code \<Rightarrow> False | _ \<Rightarrow> True) calls \<Longrightarrow> status_calls (map (event h) calls) = []"
  by (induction calls) (auto split: wcall.splits)

lemma allowed_op_inv:
  "write_inv c \<Longrightarrow> fits p c \<Longrightarrow> surely (allowed_op p) op \<Longrightarrow>
   write_inv (apply_op op c) \<and> fits (after_op op p) (apply_op op c)"
proof (induction op arbitrary: c)
  case (OpWith f)
  let ?op = "f (view c)"
  from OpWith.prems(3) have "surely (allowed_op p) ?op" by simp
  with OpWith.IH [of ?op c] OpWith.prems(1,2) have "write_inv (apply_op ?op c)" "fits (after_op ?op p) (apply_op ?op c)"
    by simp_all
  then show ?case by (auto simp: fits_def after_op_def)
next
  case (OpFile open_ok stat_ok f code chunks)
  then have fresh: "\<not> wrote c" by (auto simp: allowed_op_def fits_def)
  let ?r = "run_ServeContent f code chunks \<lparr>rec_writer = writer c, rec_status = 0\<rparr>"
  have "w_stack (rec_writer \<lparr>rec_writer = writer c, rec_status = 0\<rparr>) = []" using OpFile.prems(1) by (simp add: write_inv_def)
  from run_ServeContent_plain [OF this, of f code chunks] OpFile.prems(1,2) fresh show ?case
    by (auto simp: write_inv_def fits_def after_op_def aborts_def File_def writeHeader_def Let_def)
next
  case (OpWriterCalls calls)
  then have "wrote c" "list_all (\<lambda>call. case call of CWriteHeader code \<Rightarrow> False | _ \<Rightarrow> True) calls"
    by (auto simp: allowed_op_def fits_def)
  with OpWriterCalls.prems(1,2) show ?case
    by (auto simp: write_inv_def fits_def after_op_def aborts_def SetWriter_def plain_calls no_status_calls)
qed (auto simp: write_inv_def fits_def after_op_def aborts_def allowed_op_def op_defs setContentType_def split: option.split)

lemma answers_once_inv:
  fixes c c' :: "'h Context"
  shows "write_inv c \<Longrightarrow> fits p c \<Longrightarrow> answers_once rs p \<Longrightarrow> onion rs c = (d, e) \<Longrightarrow>
      write_inv d \<and> fits (p\<lparr>may_sent := True\<rparr>) d"
    and "write_inv c' \<Longrightarrow> fits p' c' \<Longrightarrow> body_once rs' called h p' \<Longrightarrow> onion_body rs' called h c' = (d', e', called') \<Longrightarrow>
      write_inv d' \<and> fits (p'\<lparr>may_sent := True\<rparr>) d'
      \<and> (e' = Returned \<and> \<not> called' \<longrightarrow> (\<exists>q. fits q d' \<and> answers_once rs' q
           \<and> (has_sent p' \<longrightarrow> has_sent q) \<and> (is_aborted p' \<longrightarrow> is_aborted q)))"
proof (induction rs c and rs' called h c' arbitrary: p d e and p' d' e' called' rule: onion_onion_body.induct)
  case (1 c)
  then show ?case by (auto simp: fits_def)
next
  case (2 h rs c)
  show ?case
  proof (cases "aborted c")
    case True
    with 2(3-6) show ?thesis by (auto simp: fits_def)
  next
    case False
    with 2(4,5) have once: "body_once rs False h p" by (auto simp: fits_def)
    obtain d1 e1 called1 where body: "onion_body rs False h c = (d1, e1, called1)" by (cases "onion_body rs False h c") auto
    note inv = 2(1) [OF False 2(3,4) once body]
    show ?thesis
    proof (cases "e1 = Returned \<and> \<not> called1")
      case True
      with inv obtain q where q: "fits q d1" "answers_once rs q" "has_sent p \<longrightarrow> has_sent q" "is_aborted p \<longrightarrow> is_aborted q" by blast
      from 2(6) False body True have "onion rs d1 = (d, e)" by simp
      from 2(2) [OF False body [symmetric] refl _ _ _ q(1,2) this] True inv q show ?thesis by (auto simp: fits_def)
    next
      case no: False
      with 2(6) False body have "d = d1" by (cases e1) auto
      with inv show ?thesis by simp
    qed
  qed
next
  case (7 rs called k c)
  show ?case
  proof (cases called)
    case True
    with 7 show ?thesis by simp
  next
    case False
    with 7(6) have once: "answers_once rs p'" "body_once rs True k (p'\<lparr>may_sent := True\<rparr>)" by simp_all
    obtain d1 e1 where on: "onion rs c = (d1, e1)" by fastforce
    note inv = 7(2) [OF False 7(4,5) once(1) on]
    show ?thesis
    proof (cases e1)
      case Panicked
      with 7(7) False on inv show ?thesis by auto
    next
      case Returned
      with 7(7) False on have rest: "onion_body rs True k d1 = (d', e', called')" by simp
      from 7(3) [OF False on [symmetric] Returned conjunct1 [OF inv] conjunct2 [OF inv] once(2) rest] show ?thesis by simp
    qed
  qed
next
  case (3 rs called c)
  then have "d' = c" "e' = Returned" "called' = called" by simp_all
  with 3(1-3) have "write_inv d'" "fits p' d'" "\<not> called' \<longrightarrow> answers_once rs p'" by auto
  then show ?case by (auto simp: fits_def)
next
  case (4 rs called c)
  then show ?case by (auto simp: fits_def)
next
  case (5 rs called op k c)
  from 5(4) have op: "surely (allowed_op p') op" and rest: "body_once rs called k (after_op op p')" by simp_all
  from allowed_op_inv [OF 5(2,3) op] have c: "write_inv (apply_op op c)" "fits (after_op op p') (apply_op op c)" by blast+
  from 5(5) have "onion_body rs called k (apply_op op c) = (d', e', called')" by simp
  note inv = 5(1) [OF c rest this]
  have mono: "has_sent p' \<longrightarrow> has_sent (after_op op p')" "is_aborted p' \<longrightarrow> is_aborted (after_op op p')"
    by (simp_all add: after_op_def)
  with inv have "fits (p'\<lparr>may_sent := True\<rparr>) d'" by (simp add: fits_def)
  with inv mono show ?case by blast
next
  case (6 rs called t a b c)
  then show ?case by (cases "eval_test t c") simp_all
qed

definition no_progress :: progress where
  "no_progress = \<lparr>may_sent = False, has_sent = False, is_aborted = False\<rparr>"

lemma write_inv_index [simp]: "write_inv (c\<lparr>index := i\<rparr>) = write_inv c"
  by (cases "wrote c") (simp_all add: write_inv_def)

text \<open>C37. Whatever handlers of a chain do to a fresh request with the operations of the context, the
  chain ends having sent at most one status to the connection, however many of them respond, and the
  status code that the context reports for access logs and metrics is the one the client gets, 200 when
  none was sent. \<open>File\<close> and \<open>ResetWriteState\<close> may be used where nothing can have been sent yet,
  \<open>Writer()\<close> for the body behind a status; a chain that keeps to this is accepted by
  \<open>answers_once\<close>.\<close>

theorem chain_sends_one_status:
  assumes "answers_once hs no_progress"
  shows "\<exists>c' e. Run (2 * length hs + k) (SetHandlers hs (NewContext new_writer r)) = Some (c', e)
     \<and> status_calls (w_log (writer c')) = (if wrote c' then [status c'] else [])
     \<and> StatusCode c' = (let st = sent_status (w_log (writer c')) in if st = 0 then 200 else st)"
proof -
  let ?c = "SetHandlers hs (NewContext new_writer r :: handler Context)"
  have start: "write_inv (?c\<lparr>index := 0\<rparr>)" "fits no_progress (?c\<lparr>index := 0\<rparr>)"
    by (simp_all add: write_inv_def fits_def no_progress_def SetHandlers_def NewContext_def new_writer_def)
  from chain_terminates [of hs k "NewContext new_writer r"] obtain c' e where
    run: "Run (2 * length hs + k) ?c = Some (c', e)" and on: "onion hs (?c\<lparr>index := 0\<rparr>) = (c'\<lparr>index := 0\<rparr>, e)"
    by blast
  from answers_once_inv(1) [OF start assms on] have "write_inv c'" by simp
  with run show ?thesis
    by (auto simp: write_inv_def StatusCode_def Let_def)
qed

text \<open>Authentication that may answer and abort, in front of a handler that serves a file and then
  tries to answer as well.\<close>

definition file_chain :: "handler list" where
  "file_chain =
    [Do (OpSet ''user'' (StrVal ''ann'')) (CallNext Return),
     When (Request_test (\<lambda>r. req_method r = ''GET'')) Return (Do (OpAbortWithStatusJSON 0 401 ''no'' None None) Return),
     Do (OpFile True True id 206 [''part'']) (Do (OpWriterCalls [CFlush]) (Do (OpJSON 200 (Some ''{}'')) Return))]"

theorem chain_sends_one_status_witness:
  "\<exists>c' e. Run 6 (SetHandlers file_chain (NewContext new_writer (nil_request\<lparr>req_method := ''GET''\<rparr>))) = Some (c', e)
     \<and> length (status_calls (w_log (writer c'))) \<le> 1 \<and> answers_once demo_chain no_progress"
proof -
  have len: "2 * length file_chain + 0 = 6" by (simp add: file_chain_def)
  have "answers_once file_chain no_progress" "answers_once demo_chain no_progress"
    by (simp_all add: file_chain_def demo_chain_def no_progress_def allowed_op_def after_op_def aborts_def)
  with chain_sends_one_status [of file_chain 0 "nil_request\<lparr>req_method := ''GET''\<rparr>"] show ?thesis
    unfolding len by auto
qed

text \<open>\<open>File\<close> does not look whether the context has answered: behind an answer it sends a second status,
  which the client does not get but the context reports.\<close>

theorem file_after_answer:
  "\<exists>c'. Run 2 (SetHandlers [Do (OpJSON 200 (Some ''{}'')) (Do (OpFile True True id 404 []) Return)] (NewContext new_writer r)) = Some (c', Returned)
     \<and> status_calls (w_log (writer c')) = [200, 404] \<and> sent_status (w_log (writer c')) = 200 \<and> StatusCode c' = 404"
  by (simp add: numeral_2_eq_2 Run_def Next_def SetHandlers_def NewContext_def op_defs setContentType_def StatusCode_def
      run_ServeContent_def recorder_WriteHeader_def new_writer_def)

end
