(* ===== verification/Pointers.thy ===== *)
theory Pointers
  imports Main
begin

text \<open>
  Pointers into the state that the middlewares of a server share: a closure that captured a
  Go pointer holds a \<open>ptr\<close>, which reads and replaces one part of that state.
\<close>

record ('s, 'a) ptr =
  deref :: "'s \<Rightarrow> 'a"
  assign :: "'a \<Rightarrow> 's \<Rightarrow> 's"

definition modify :: "('s, 'a) ptr \<Rightarrow> ('a \<Rightarrow> 'a) \<Rightarrow> 's \<Rightarrow> 's" where
  "modify p f s = assign p (f (deref p s)) s"

locale pointer =
  fixes p :: "('s, 'a) ptr"
  assumes deref_assign [simp]: "deref p (assign p a s) = a"
    and assign_deref [simp]: "assign p (deref p s) s = s"
    and assign_assign [simp]: "assign p a (assign p b s) = assign p a s"
begin

lemma deref_modify [simp]: "deref p (modify p f s) = f (deref p s)"
  by (simp add: modify_def)

lemma modify_modify [simp]: "modify p f (modify p g s) = modify p (\<lambda>a. f (g a)) s"
  by (simp add: modify_def)

end

text \<open>Two pointers to different objects.\<close>

locale separate_pointers = P: pointer p + Q: pointer q
  for p :: "('s, 'a) ptr" and q :: "('s, 'b) ptr" +
  assumes deref_other [simp]: "deref q (assign p a s) = deref q s"
begin

lemma deref_modify_other [simp]: "deref q (modify p f s) = deref q s"
  by (simp add: modify_def)

end

text \<open>The pointer to the whole state.\<close>

definition whole :: "('s, 's) ptr" where
  "whole = \<lparr>deref = (\<lambda>s. s), assign = (\<lambda>a s. a)\<rparr>"

interpretation whole: pointer whole
  by unfold_locales (simp_all add: whole_def)

end
