(* ===== verification/Concurrency.thy ===== *)
theory Concurrency
  imports HandlerChain Pointers
begin

text \<open>
  The concurrency limiter of \<open>middleware/concurrencylimit.go\<close>: the counter as a function
  on its state, the middleware around a next handler, and the interleavings of the atomic
  operations of many requests, \<open>Load\<close> and \<open>CompareAndSwap\<close> apart.

  The interface \<open>admission\<close> is what the limiters of the framework share: a request is let
  in or refused, and every refusal is counted once.
\<close>

subsection \<open>Admission\<close>

fun admit_all :: "('k \<Rightarrow> 's \<Rightarrow> bool \<times> 's) \<Rightarrow> 'k list \<Rightarrow> 's \<Rightarrow> bool list \<times> 's" where
  "admit_all admit [] s = ([], s)"
| "admit_all admit (k # ks) s =
     (let (b, s1) = admit k s; (bs, s2) = admit_all admit ks s1 in (b # bs, s2))"

lemma admit_all_Cons:
  "fst (admit_all admit (k # ks) s) = fst (admit k s) # fst (admit_all admit ks (snd (admit k s)))"
  "snd (admit_all admit (k # ks) s) = snd (admit_all admit ks (snd (admit k s)))"
  by (simp_all add: split_beta Let_def)

lemma admit_all_length: "length (fst (admit_all admit ks s)) = length ks"
proof (induction ks arbitrary: s)
  case (Cons k ks)
  then show ?case by (simp only: admit_all_Cons length_Cons)
qed simp

declare admit_all.simps(2) [simp del]

locale admission =
  fixes admit :: "'k \<Rightarrow> 's \<Rightarrow> bool \<times> 's"
    and refused :: "'s \<Rightarrow> 64 word"
  assumes admit_counts: "refused (snd (admit k s)) = refused s + (if fst (admit k s) then 0 else 1)"
begin

lemma admit_all_counts:
  "refused (snd (admit_all admit ks s)) = refused s + of_nat (length (filter Not (fst (admit_all admit ks s))))"
proof (induction ks arbitrary: s)
  case (Cons k ks)
  then show ?case
    using admit_counts [of k s] by (simp add: admit_all_Cons)
qed simp

end

subsection \<open>The limiter\<close>

record ConcurrencyLimiter =
  max_active :: int
  active :: int
  rejected :: "64 word"
  rejectMsg :: "string option"
  sink_on :: bool
  emitted :: "string list"

definition NewConcurrencyLimiter :: "int \<Rightarrow> ConcurrencyLimiter" where
  "NewConcurrencyLimiter n =
     \<lparr>max_active = n, active = 0, rejected = 0, rejectMsg = None, sink_on = False, emitted = []\<rparr>"

definition emitRejected :: "ConcurrencyLimiter \<Rightarrow> ConcurrencyLimiter" where
  "emitRejected l = (if sink_on l then l\<lparr>emitted := emitted l @ [''webx.concurrency_rejected'']\<rparr> else l)"

text \<open>\<open>TryAcquire\<close> without interference: the compare-and-swap succeeds at once.\<close>

definition TryAcquire :: "ConcurrencyLimiter \<Rightarrow> bool \<times> ConcurrencyLimiter" where
  "TryAcquire l =
     (if max_active l \<le> 0 then (True, l)
      else (let current = active l
            in if current \<ge> max_active l then (False, emitRejected (l\<lparr>rejected := rejected l + 1\<rparr>))
               else (True, l\<lparr>active := current + 1\<rparr>)))"

definition Release :: "ConcurrencyLimiter \<Rightarrow> ConcurrencyLimiter" where
  "Release l = l\<lparr>active := active l - 1\<rparr>"

definition SetRejectMessage :: "string \<Rightarrow> ConcurrencyLimiter \<Rightarrow> ConcurrencyLimiter" where
  "SetRejectMessage msg l = l\<lparr>rejectMsg := Some msg\<rparr>"

definition SetMetricsSink :: "bool \<Rightarrow> ConcurrencyLimiter \<Rightarrow> ConcurrencyLimiter" where
  "SetMetricsSink on l = l\<lparr>sink_on := on\<rparr>"

definition Active :: "ConcurrencyLimiter \<Rightarrow> int" where
  "Active l = active l"

definition Rejected :: "ConcurrencyLimiter \<Rightarrow> 64 word" where
  "Rejected l = rejected l"

interpretation concurrency: admission "\<lambda>k :: unit. TryAcquire" rejected
  by unfold_locales (simp add: TryAcquire_def emitRejected_def Let_def)

definition msg_too_busy :: string where
  "msg_too_busy =
     [CHR 0xE8, CHR 0xAF, CHR 0xB7, CHR 0xE6, CHR 0xB1, CHR 0x82, CHR 0xE8, CHR 0xBF,
      CHR 0x87, CHR 0xE4, CHR 0xBA, CHR 0x8E, CHR 0xE7, CHR 0xB9, CHR 0x81, CHR 0xE5,
      CHR 0xBF, CHR 0x99, CHR 0xEF, CHR 0xBC, CHR 0x8C, CHR 0xE8, CHR 0xAF, CHR 0xB7,
      CHR 0xE7, CHR 0xA8, CHR 0x8D, CHR 0xE5, CHR 0x90, CHR 0x8E, CHR 0xE9, CHR 0x87,
      CHR 0x8D, CHR 0xE8, CHR 0xAF, CHR 0x95]"

text \<open>
  The middleware, with the pointer to its limiter. \<open>next\<close> is the wrapped handler: it may
  change the limiter too (by requests of its own) and may end in a panic, which the
  deferred \<open>Release\<close> survives.
\<close>

definition ConcurrencyLimit ::
    "('s, ConcurrencyLimiter) ptr \<Rightarrow> (goval \<Rightarrow> string option) \<Rightarrow> int
      \<Rightarrow> ('s \<times> 'h Context \<Rightarrow> ('s \<times> 'h Context) \<times> ending) \<Rightarrow> 's \<times> 'h Context \<Rightarrow> ('s \<times> 'h Context) \<times> ending" where
  "ConcurrencyLimit p marshal now next_handler sc =
     (case sc of (s, c) \<Rightarrow>
        (case TryAcquire (deref p s) of
           (False, l1) \<Rightarrow>
             (let c1 = c\<lparr>writer := map_header (header_set ''Retry-After'' ''1'') (writer c)\<rparr>;
                  msg = (case rejectMsg l1 of None \<Rightarrow> msg_too_busy | Some p \<Rightarrow> if p \<noteq> [] then p else msg_too_busy)
              in ((assign p l1 s, AbortWithStatusJSON marshal now 503 msg None c1), Returned))
         | (True, l1) \<Rightarrow>
             (case next_handler (assign p l1 s, c) of ((s2, c2), e) \<Rightarrow> ((modify p Release s2, c2), e))))"

text \<open>The middleware gives back what it takes: when the handler behind it leaves the number of
  active requests as it found it, so does the middleware, on admission, on refusal and when
  the handler panics, for every limiter with a bound.\<close>

theorem concurrency_limit_balanced:
  assumes "pointer p" "max_active (deref p s) > 0"
    and "\<And>s c. active (deref p (fst (fst (next_handler (s, c))))) = active (deref p s)"
  shows "active (deref p (fst (fst (ConcurrencyLimit p marshal now next_handler (s, c))))) = active (deref p s)"
  using assms(2) pointer.deref_assign [OF assms(1)] pointer.deref_modify [OF assms(1)]
    assms(3) [of "assign p ((deref p s)\<lparr>active := active (deref p s) + 1\<rparr>) s" c]
  by (auto simp: ConcurrencyLimit_def TryAcquire_def Release_def emitRejected_def Let_def split: prod.split)

theorem concurrency_limit_balanced_witness:
  "active (deref whole (fst (fst (ConcurrencyLimit whole (\<lambda>_. None) 0 (\<lambda>s. (s, Panicked))
     ((NewConcurrencyLimiter 2)\<lparr>active := 1\<rparr>, NewContext new_writer nil_request :: nat Context))))) = 1"
proof -
  let ?l = "(NewConcurrencyLimiter 2)\<lparr>active := 1\<rparr>"
  have "max_active (deref whole ?l) > 0" by (simp add: NewConcurrencyLimiter_def whole_def)
  from concurrency_limit_balanced [OF whole.pointer_axioms this, of "\<lambda>s. (s, Panicked)" "\<lambda>_. None" 0
      "NewContext new_writer nil_request :: nat Context"]
  show ?thesis by (simp add: whole_def)
qed

subsection \<open>Interleavings\<close>

text \<open>
  Where a request is: before \<open>TryAcquire\<close>, about to \<open>Load\<close>, about to \<open>CompareAndSwap\<close>
  from the value it loaded, in its handler, refused, or done with \<open>Release\<close> behind it.
\<close>

datatype phase = Arrived | Loading | Swapping int | Running | Refused | Finished

text \<open>One atomic step of the request \<open>i\<close>.\<close>

inductive limiter_step ::
    "ConcurrencyLimiter \<times> phase list \<Rightarrow> nat \<Rightarrow> ConcurrencyLimiter \<times> phase list \<Rightarrow> bool" where
  no_limit: "i < length ps \<Longrightarrow> ps ! i = Arrived \<Longrightarrow> max_active l \<le> 0 \<Longrightarrow>
    limiter_step (l, ps) i (l, ps[i := Running])"
| enter_loop: "i < length ps \<Longrightarrow> ps ! i = Arrived \<Longrightarrow> max_active l > 0 \<Longrightarrow>
    limiter_step (l, ps) i (l, ps[i := Loading])"
| load_full: "i < length ps \<Longrightarrow> ps ! i = Loading \<Longrightarrow> active l \<ge> max_active l \<Longrightarrow>
    limiter_step (l, ps) i (emitRejected (l\<lparr>rejected := rejected l + 1\<rparr>), ps[i := Refused])"
| load_free: "i < length ps \<Longrightarrow> ps ! i = Loading \<Longrightarrow> active l < max_active l \<Longrightarrow>
    limiter_step (l, ps) i (l, ps[i := Swapping (active l)])"
| swap_done: "i < length ps \<Longrightarrow> ps ! i = Swapping current \<Longrightarrow> active l = current \<Longrightarrow>
    limiter_step (l, ps) i (l\<lparr>active := current + 1\<rparr>, ps[i := Running])"
| swap_lost: "i < length ps \<Longrightarrow> ps ! i = Swapping current \<Longrightarrow> active l \<noteq> current \<Longrightarrow>
    limiter_step (l, ps) i (l, ps[i := Loading])"
| release: "i < length ps \<Longrightarrow> ps ! i = Running \<Longrightarrow>
    limiter_step (l, ps) i (Release l, ps[i := Finished])"

inductive_cases limiter_stepE: "limiter_step (l, ps) i s'"

inductive limiter_reach :: "ConcurrencyLimiter \<times> phase list \<Rightarrow> ConcurrencyLimiter \<times> phase list \<Rightarrow> bool" where
  reach_refl: "limiter_reach s s"
| reach_step: "limiter_reach s s' \<Longrightarrow> limiter_step s' i s'' \<Longrightarrow> limiter_reach s s''"

definition count_phase :: "phase \<Rightarrow> phase list \<Rightarrow> int" where
  "count_phase p ps = int (count_list ps p)"

lemma count_list_update:
  "i < length ps \<Longrightarrow> int (count_list (ps[i := q]) p) =
    int (count_list ps p) - (if ps ! i = p then 1 else 0) + (if q = p then 1 else 0)"
proof (induction ps arbitrary: i)
  case (Cons x ps)
  show ?case
  proof (cases i)
    case (Suc j)
    with Cons.prems Cons.IH [of j] show ?thesis by (cases "q = p"; cases "ps ! j = p") simp_all
  qed simp
qed simp

lemma count_phase_update [simp]:
  "i < length ps \<Longrightarrow> count_phase p (ps[i := q]) =
    count_phase p ps - (if ps ! i = p then 1 else 0) + (if q = p then 1 else 0)"
  by (simp add: count_phase_def count_list_update)

definition limiter_inv :: "int \<Rightarrow> ConcurrencyLimiter \<times> phase list \<Rightarrow> bool" where
  "limiter_inv n s \<longleftrightarrow> (case s of (l, ps) \<Rightarrow>
     max_active l = n
     \<and> rejected l = of_int (count_phase Refused ps)
     \<and> (if n > 0 then active l = count_phase Running ps \<and> active l \<le> n
        else active l = - count_phase Finished ps)
     \<and> (\<forall>v. Swapping v \<in> set ps \<longrightarrow> n > 0 \<and> v < n) \<and> (Loading \<in> set ps \<longrightarrow> n > 0))"

lemma set_update_cases: "x \<in> set (ps[i := q]) \<Longrightarrow> x = q \<or> x \<in> set ps"
  using set_update_subset_insert [of ps i q] by auto

lemma limiter_step_inv:
  assumes "limiter_step s i s'" and "limiter_inv n s"
  shows "limiter_inv n s'"
  using assms
proof cases
  case (swap_done ps current l)
  with assms(2) have "n > 0" "active l < n" by (auto simp: limiter_inv_def dest: nth_mem)
  with swap_done assms(2) show ?thesis by (auto simp: limiter_inv_def dest!: set_update_cases)
next
  case (load_free ps l)
  with assms(2) have "n > 0" by (auto simp: limiter_inv_def dest: nth_mem)
  with load_free assms(2) show ?thesis by (auto simp: limiter_inv_def dest!: set_update_cases)
next
  case (swap_lost ps current l)
  with assms(2) have "n > 0" by (auto simp: limiter_inv_def dest: nth_mem)
  with swap_lost assms(2) show ?thesis by (auto simp: limiter_inv_def dest!: set_update_cases)
qed (auto simp: limiter_inv_def emitRejected_def Release_def dest!: set_update_cases)

lemma limiter_reach_inv: "limiter_reach s s' \<Longrightarrow> limiter_inv n s \<Longrightarrow> limiter_inv n s'"
  by (induction rule: limiter_reach.induct) (auto intro: limiter_step_inv)

lemma limiter_init_inv: "limiter_inv n ((NewConcurrencyLimiter n)\<lparr>sink_on := b\<rparr>, replicate k Arrived)"
  by (auto simp: limiter_inv_def NewConcurrencyLimiter_def count_phase_def count_list_0_iff)

text \<open>C16. Admission control under every interleaving: while \<open>k\<close> requests go through the limiter,
  each \<open>Load\<close>, \<open>CompareAndSwap\<close> and \<open>Release\<close> of one interleaved with those of the others,
  the counter is at every moment the number of requests inside their handlers, never more
  than the bound; refusals are counted once each; and without a bound nobody is refused and
  the counter falls below zero by the number of requests finished.\<close>

theorem concurrency_interleaved:
  assumes "limiter_reach ((NewConcurrencyLimiter n)\<lparr>sink_on := b\<rparr>, replicate k Arrived) (l, ps)"
  shows "rejected l = of_int (count_phase Refused ps)
    \<and> (if n > 0 then Active l = count_phase Running ps \<and> Active l \<le> n
       else Active l = - count_phase Finished ps)"
  using limiter_reach_inv [OF assms limiter_init_inv] by (auto simp: limiter_inv_def Active_def)

text \<open>Two requests race for one place: the first swap wins, the second one loads again and is refused.\<close>

definition demo_limiter :: "ConcurrencyLimiter" where
  "demo_limiter = (NewConcurrencyLimiter 1)\<lparr>sink_on := True\<rparr>"

lemma demo_race:
  "limiter_reach (demo_limiter, replicate 2 Arrived)
     (demo_limiter\<lparr>active := 1, rejected := 1, emitted := [''webx.concurrency_rejected'']\<rparr>, [Running, Refused])"
proof -
  let ?l = demo_limiter and ?l1 = "demo_limiter\<lparr>active := 1\<rparr>"
  have d: "max_active ?l = 1" "active ?l = 0" "sink_on ?l" "rejected ?l = 0" "emitted ?l = []"
    by (simp_all add: demo_limiter_def NewConcurrencyLimiter_def)
  have "limiter_step (?l, [Arrived, Arrived]) 0 (?l, [Loading, Arrived])"
    using enter_loop [of 0 "[Arrived, Arrived]" ?l] d by simp
  moreover have "limiter_step (?l, [Loading, Arrived]) 1 (?l, [Loading, Loading])"
    using enter_loop [of 1 "[Loading, Arrived]" ?l] d by simp
  moreover have "limiter_step (?l, [Loading, Loading]) 0 (?l, [Swapping 0, Loading])"
    using load_free [of 0 "[Loading, Loading]" ?l] d by simp
  moreover have "limiter_step (?l, [Swapping 0, Loading]) 1 (?l, [Swapping 0, Swapping 0])"
    using load_free [of 1 "[Swapping 0, Loading]" ?l] d by simp
  moreover have "limiter_step (?l, [Swapping 0, Swapping 0]) 0 (?l1, [Running, Swapping 0])"
    using swap_done [of 0 "[Swapping 0, Swapping 0]" 0 ?l] d by simp
  moreover have "limiter_step (?l1, [Running, Swapping 0]) 1 (?l1, [Running, Loading])"
    using swap_lost [of 1 "[Running, Swapping 0]" 0 ?l1] d by simp
  moreover have "limiter_step (?l1, [Running, Loading]) 1
      (?l1\<lparr>rejected := 1, emitted := [''webx.concurrency_rejected'']\<rparr>, [Running, Refused])"
    using load_full [of 1 "[Running, Loading]" ?l1] d by (simp add: emitRejected_def)
  ultimately show ?thesis
    by (simp add: numeral_2_eq_2) (meson reach_refl reach_step)
qed

theorem concurrency_interleaved_witness:
  "rejected (demo_limiter\<lparr>active := 1, rejected := 1, emitted := [''webx.concurrency_rejected'']\<rparr>) = 1
   \<and> Active (demo_limiter\<lparr>active := 1, rejected := 1, emitted := [''webx.concurrency_rejected'']\<rparr>) = 1"
  using concurrency_interleaved [OF demo_race [unfolded demo_limiter_def]]
  by (simp add: demo_limiter_def count_phase_def)

text \<open>The reference for one request: without interference, \<open>TryAcquire\<close> takes the same steps
  to the same counter, so an uncontended request is let in whenever there is room.\<close>

theorem try_acquire_steps:
  "limiter_reach (l, [Arrived]) (snd (TryAcquire l), [if fst (TryAcquire l) then Running else Refused])"
proof (cases "max_active l \<le> 0")
  case True
  have "limiter_step (l, [Arrived]) 0 (l, [Running])"
    using no_limit [of 0 "[Arrived]" l] True by simp
  with True show ?thesis by (auto simp: TryAcquire_def intro: reach_step reach_refl)
next
  case False
  have s1: "limiter_step (l, [Arrived]) 0 (l, [Loading])"
    using enter_loop [of 0 "[Arrived]" l] False by simp
  show ?thesis
  proof (cases "active l \<ge> max_active l")
    case True
    have "limiter_step (l, [Loading]) 0 (emitRejected (l\<lparr>rejected := rejected l + 1\<rparr>), [Refused])"
      using load_full [of 0 "[Loading]" l] True by simp
    with s1 True False show ?thesis
      by (simp add: TryAcquire_def) (meson reach_refl reach_step)
  next
    case room: False
    have "limiter_step (l, [Loading]) 0 (l, [Swapping (active l)])"
      using load_free [of 0 "[Loading]" l] room by simp
    moreover have "limiter_step (l, [Swapping (active l)]) 0 (l\<lparr>active := active l + 1\<rparr>, [Running])"
      using swap_done [of 0 "[Swapping (active l)]" "active l" l] by simp
    ultimately show ?thesis using s1 room False
      by (simp add: TryAcquire_def Let_def) (meson reach_refl reach_step)
  qed
qed

end
