(* ===== verification/RateLimiting.thy ===== *)
theory RateLimiting
  imports Concurrency
begin

text \<open>
  The rate limiter of \<open>middleware/ratelimit.go\<close>: one token bucket per key. The bucket
  algorithm comes from another module (\<open>resiliencex\<close>), so it is an argument, a record of
  its three functions; times are nanoseconds and the clock is an argument. Every method
  holds the mutex, so the methods are functions on the state.
\<close>

record 't bucket_impl =
  mk_bucket :: "int \<Rightarrow> 't option"
  take_token :: "int \<Rightarrow> 't \<Rightarrow> bool \<times> 't"
  retry_after :: "int \<Rightarrow> 't \<Rightarrow> int"

record 't limiterEntry =
  limiter :: 't
  lastTime :: int

record 't RateLimiter =
  buckets :: "(string, 't limiterEntry) gomap"
  qps :: int
  window :: int
  whitelist :: "IPNet list"
  rl_rejected :: "64 word"
  maxBuckets :: int
  rl_rejectMsg :: string
  rl_sink :: bool
  rl_emitted :: nat

fun whitelist_loop ::
    "(string \<Rightarrow> IPNet option) \<Rightarrow> (string \<Rightarrow> 8 word list option) \<Rightarrow> string list \<Rightarrow> IPNet list \<Rightarrow> IPNet list" where
  "whitelist_loop parse_cidr parse_ip [] nets = nets"
| "whitelist_loop parse_cidr parse_ip (cidr # cidrs) nets =
     (let net = (case parse_cidr cidr of
                   Some n \<Rightarrow> Some n
                 | None \<Rightarrow> (case parse_ip cidr of None \<Rightarrow> None | Some _ \<Rightarrow> parse_cidr (cidr @ ''/32'')))
      in whitelist_loop parse_cidr parse_ip cidrs (case net of None \<Rightarrow> nets | Some n \<Rightarrow> nets @ [n]))"

definition NewRateLimiter ::
    "(string \<Rightarrow> IPNet option) \<Rightarrow> (string \<Rightarrow> 8 word list option) \<Rightarrow> int \<Rightarrow> int \<Rightarrow> string list \<Rightarrow> 't RateLimiter" where
  "NewRateLimiter parse_cidr parse_ip q win cidrs =
     \<lparr>buckets = [], qps = q, window = win, whitelist = whitelist_loop parse_cidr parse_ip cidrs [],
      rl_rejected = 0, maxBuckets = 100000, rl_rejectMsg = [], rl_sink = False, rl_emitted = 0\<rparr>"

definition SetMaxBuckets :: "int \<Rightarrow> 't RateLimiter \<Rightarrow> 't RateLimiter" where
  "SetMaxBuckets n rl = (if n > 0 then rl\<lparr>maxBuckets := n\<rparr> else rl)"

definition rl_SetRejectMessage :: "string \<Rightarrow> 't RateLimiter \<Rightarrow> 't RateLimiter" where
  "rl_SetRejectMessage msg rl = rl\<lparr>rl_rejectMsg := msg\<rparr>"

definition rl_SetMetricsSink :: "bool \<Rightarrow> 't RateLimiter \<Rightarrow> 't RateLimiter" where
  "rl_SetMetricsSink on rl = rl\<lparr>rl_sink := on\<rparr>"

definition rl_emitRejected :: "'t RateLimiter \<Rightarrow> 't RateLimiter" where
  "rl_emitRejected rl = (if rl_sink rl then rl\<lparr>rl_emitted := rl_emitted rl + 1\<rparr> else rl)"

definition whitelisted :: "(string \<Rightarrow> 8 word list option) \<Rightarrow> string \<Rightarrow> 't RateLimiter \<Rightarrow> bool" where
  "whitelisted parse_ip ip rl =
     (case parse_ip ip of None \<Rightarrow> False
      | Some parsed \<Rightarrow> list_ex (\<lambda>wl. ipnet_contains wl parsed) (whitelist rl))"

definition reject_count :: "'t RateLimiter \<Rightarrow> 't RateLimiter" where
  "reject_count rl = rl\<lparr>rl_rejected := rl_rejected rl + 1\<rparr>"

text \<open>The lookup of the bucket, or its creation; \<open>None\<close> is one of the three refusals.\<close>

definition find_bucket :: "'t bucket_impl \<Rightarrow> int \<Rightarrow> string \<Rightarrow> 't RateLimiter \<Rightarrow> 't limiterEntry option" where
  "find_bucket impl now ip rl =
     (case map_of (buckets rl) ip of
        Some b \<Rightarrow> Some b
      | None \<Rightarrow>
          (if int (length (buckets rl)) \<ge> maxBuckets rl then None
           else if qps rl \<le> 0 then None
           else (case mk_bucket impl (qps rl) of
                   None \<Rightarrow> None
                 | Some t \<Rightarrow> Some \<lparr>limiter = t, lastTime = now\<rparr>)))"

definition Allow ::
    "'t bucket_impl \<Rightarrow> (string \<Rightarrow> 8 word list option) \<Rightarrow> int \<Rightarrow> string \<Rightarrow> 't RateLimiter \<Rightarrow> bool \<times> 't RateLimiter" where
  "Allow impl parse_ip now ip rl =
     (if whitelisted parse_ip ip rl then (True, rl)
      else (case find_bucket impl now ip rl of
              None \<Rightarrow> (False, reject_count rl)
            | Some b \<Rightarrow>
                (let (ok, t) = take_token impl now (limiter b);
                     rl1 = rl\<lparr>buckets := AList.update ip \<lparr>limiter = t, lastTime = now\<rparr> (buckets rl)\<rparr>
                 in if ok then (True, rl1) else (False, rl_emitRejected (reject_count rl1)))))"

definition rl_Rejected :: "'t RateLimiter \<Rightarrow> 64 word" where
  "rl_Rejected rl = rl_rejected rl"

text \<open>\<open>RetryAfter\<close>, in nanoseconds: whole seconds, rounded up.\<close>

definition RetryAfter :: "'t bucket_impl \<Rightarrow> int \<Rightarrow> string \<Rightarrow> 't RateLimiter \<Rightarrow> int" where
  "RetryAfter impl now key rl =
     (if qps rl \<le> 0 then 0
      else (case map_of (buckets rl) key of
              None \<Rightarrow> 0
            | Some b \<Rightarrow>
                (let wait = retry_after impl now (limiter b)
                 in if wait \<le> 0 then 0 else - ((- wait) div 1000000000) * 1000000000)))"

definition Cleanup :: "int \<Rightarrow> int \<Rightarrow> 't RateLimiter \<Rightarrow> 't RateLimiter" where
  "Cleanup now interval rl =
     rl\<lparr>buckets := filter (\<lambda>(ip, b). \<not> now - lastTime b > wrap64 (interval * 10)) (buckets rl)\<rparr>"

definition msg_rate_limited :: string where
  "msg_rate_limited =
     [CHR 0xE8, CHR 0xAF, CHR 0xB7, CHR 0xE6, CHR 0xB1, CHR 0x82, CHR 0xE8, CHR 0xBF,
      CHR 0x87, CHR 0xE4, CHR 0xBA, CHR 0x8E, CHR 0xE9, CHR 0xA2, CHR 0x91, CHR 0xE7,
      CHR 0xB9, CHR 0x81, CHR 0xEF, CHR 0xBC, CHR 0x8C, CHR 0xE8, CHR 0xAF, CHR 0xB7,
      CHR 0xE7, CHR 0xA8, CHR 0x8D, CHR 0xE5, CHR 0x90, CHR 0x8E, CHR 0xE9, CHR 0x87,
      CHR 0x8D, CHR 0xE8, CHR 0xAF, CHR 0x95]"

text \<open>The middleware, with the pointer to its limiter; \<open>key_fn\<close> is the key function, \<open>None\<close> for the client's address.\<close>

definition RateLimit ::
    "('s, 't RateLimiter) ptr \<Rightarrow> 't bucket_impl \<Rightarrow> (string \<Rightarrow> 8 word list option) \<Rightarrow> (goval \<Rightarrow> string option) \<Rightarrow> int
      \<Rightarrow> ('h Context \<Rightarrow> string) option
      \<Rightarrow> ('s \<times> 'h Context \<Rightarrow> ('s \<times> 'h Context) \<times> ending) \<Rightarrow> 's \<times> 'h Context \<Rightarrow> ('s \<times> 'h Context) \<times> ending" where
  "RateLimit p impl parse_ip marshal now key_fn next_handler sc =
     (case sc of (s, c) \<Rightarrow>
        (let key = (case key_fn of None \<Rightarrow> RemoteIP parse_ip c | Some f \<Rightarrow> f c)
         in case Allow impl parse_ip now key (deref p s) of
              (False, rl1) \<Rightarrow>
                (let retry = RetryAfter impl now key rl1;
                     c1 = (if retry > 0 then
                             c\<lparr>writer := map_header (header_set ''Retry-After'' (itoa (retry div 1000000000))) (writer c)\<rparr>
                           else c);
                     msg = (if rl_rejectMsg rl1 = [] then msg_rate_limited else rl_rejectMsg rl1)
                 in ((assign p rl1 s, AbortWithStatusJSON marshal (now div 1000000) 429 msg None c1), Returned))
            | (True, rl1) \<Rightarrow> next_handler (assign p rl1 s, c)))"

subsection \<open>Refusals and memory\<close>

lemmas allow_defs = Allow_def reject_count_def rl_emitRejected_def Let_def

interpretation rate: admission "\<lambda>(now, ip). Allow impl parse_ip now ip" rl_rejected
  for impl :: "'t bucket_impl" and parse_ip
  by unfold_locales (auto simp: allow_defs split: prod.split option.split)

text \<open>Every refusal is counted, once: after any calls of \<open>Allow\<close> the counter has grown by the
  number of calls that returned false, modulo its width of 64 bits.\<close>

theorem rejections_counted:
  "rl_Rejected (snd (admit_all (\<lambda>(now, ip). Allow impl parse_ip now ip) calls rl)) =
    rl_Rejected rl + of_nat (length (filter Not (fst (admit_all (\<lambda>(now, ip). Allow impl parse_ip now ip) calls rl))))"
  unfolding rl_Rejected_def by (rule rate.admit_all_counts)

text \<open>The operations that change the table.\<close>

datatype rl_op = OpAllow int string | OpCleanup int int

fun rl_apply :: "'t bucket_impl \<Rightarrow> (string \<Rightarrow> 8 word list option) \<Rightarrow> rl_op \<Rightarrow> 't RateLimiter \<Rightarrow> 't RateLimiter" where
  "rl_apply impl parse_ip (OpAllow now ip) rl = snd (Allow impl parse_ip now ip rl)"
| "rl_apply impl parse_ip (OpCleanup now interval) rl = Cleanup now interval rl"

lemma update_keys: "map fst (AList.update k v al) = (if k \<in> fst ` set al then map fst al else map fst al @ [k])"
  by (induction al) auto

definition table_ok :: "'t RateLimiter \<Rightarrow> bool" where
  "table_ok rl \<longleftrightarrow> distinct (map fst (buckets rl)) \<and> int (length (buckets rl)) \<le> maxBuckets rl"

lemma map_of_None_keys: "map_of al k = None \<longleftrightarrow> k \<notin> fst ` set al"
  by (induction al) auto

lemma length_update: "length (AList.update k v al) = (if map_of al k = None then Suc (length al) else length al)"
  by (induction al) auto

lemma rl_apply_ok:
  assumes "table_ok rl"
  shows "table_ok (rl_apply impl parse_ip op rl) \<and> maxBuckets (rl_apply impl parse_ip op rl) = maxBuckets rl"
proof (cases op)
  case (OpAllow now ip)
  have "int (length (AList.update ip b (buckets rl))) \<le> maxBuckets rl"
    if "find_bucket impl now ip rl = Some b0" for b b0
    using that assms
    by (auto simp: find_bucket_def table_ok_def length_update split: option.splits if_splits)
  with assms show ?thesis
    by (auto simp: OpAllow allow_defs table_ok_def distinct_update split: option.split prod.split)
next
  case (OpCleanup now interval)
  let ?P = "\<lambda>(ip, b). \<not> now - lastTime b > wrap64 (interval * 10)"
  have "length (filter ?P (buckets rl)) \<le> length (buckets rl)" by (rule length_filter_le)
  then have "int (length (filter ?P (buckets rl))) \<le> maxBuckets rl"
    using assms unfolding table_ok_def by linarith
  with assms show ?thesis by (simp add: OpCleanup Cleanup_def table_ok_def distinct_map_filter)
qed

text \<open>C35. The memory of the limiter is bounded: whatever addresses the requests come from, the table
  never has more buckets than the configured maximum, one per key.\<close>

theorem buckets_bounded:
  "table_ok (fold (rl_apply impl parse_ip) ops (SetMaxBuckets n (NewRateLimiter parse_cidr parse_ip q win cidrs)))"
proof -
  have "table_ok rl \<Longrightarrow> table_ok (fold (rl_apply impl parse_ip) ops rl)" for rl
    by (induction ops arbitrary: rl) (simp_all add: rl_apply_ok)
  then show ?thesis by (simp add: table_ok_def SetMaxBuckets_def NewRateLimiter_def)
qed

subsection \<open>One bucket per key\<close>

text \<open>The answers to the calls for one key, and those of a bucket used by that key alone.\<close>

definition answers_for :: "string \<Rightarrow> (int \<times> string) list \<Rightarrow> bool list \<Rightarrow> bool list" where
  "answers_for k calls bs = map snd (filter (\<lambda>(c, b). snd c = k) (zip calls bs))"

definition times_for :: "string \<Rightarrow> (int \<times> string) list \<Rightarrow> int list" where
  "times_for k calls = map fst (filter (\<lambda>c. snd c = k) calls)"

fun bucket_run :: "'t bucket_impl \<Rightarrow> 't \<Rightarrow> int list \<Rightarrow> bool list" where
  "bucket_run impl t [] = []"
| "bucket_run impl t (now # ns) = (let (ok, t') = take_token impl now t in ok # bucket_run impl t' ns)"

lemma bucket_run_Cons:
  "bucket_run impl t (now # ns) =
    fst (take_token impl now t) # bucket_run impl (snd (take_token impl now t)) ns"
  by (simp add: split_beta Let_def)

declare bucket_run.simps(2) [simp del]

definition bucket_of :: "'t \<Rightarrow> string \<Rightarrow> 't RateLimiter \<Rightarrow> 't" where
  "bucket_of t0 k rl = (case map_of (buckets rl) k of None \<Rightarrow> t0 | Some b \<Rightarrow> limiter b)"

lemma Allow_step:
  assumes "\<not> whitelisted parse_ip ip rl" and "qps rl > 0" and "mk_bucket impl (qps rl) = Some t0"
    and "map_of (buckets rl) ip \<noteq> None \<or> int (length (buckets rl)) < maxBuckets rl"
  shows "fst (Allow impl parse_ip now ip rl) = fst (take_token impl now (bucket_of t0 ip rl))"
    and "buckets (snd (Allow impl parse_ip now ip rl)) =
      AList.update ip \<lparr>limiter = snd (take_token impl now (bucket_of t0 ip rl)), lastTime = now\<rparr> (buckets rl)"
    and "whitelist (snd (Allow impl parse_ip now ip rl)) = whitelist rl"
    and "qps (snd (Allow impl parse_ip now ip rl)) = qps rl"
    and "maxBuckets (snd (Allow impl parse_ip now ip rl)) = maxBuckets rl"
  using assms
  by (auto simp: allow_defs find_bucket_def bucket_of_def split: option.split prod.split)

lemma key_answers:
  assumes "distinct (map fst (buckets rl))" and "qps rl > 0" and "mk_bucket impl (qps rl) = Some t0"
    and "\<forall>(now, ip) \<in> set calls. \<not> whitelisted parse_ip ip rl"
    and "int (card (fst ` set (buckets rl) \<union> snd ` set calls)) \<le> maxBuckets rl"
  shows "answers_for k calls (fst (admit_all (\<lambda>(now, ip). Allow impl parse_ip now ip) calls rl)) =
    bucket_run impl (bucket_of t0 k rl) (times_for k calls)"
  using assms
proof (induction calls arbitrary: rl)
  case Nil
  then show ?case by (simp add: answers_for_def times_for_def)
next
  case (Cons c calls)
  obtain now ip where c: "c = (now, ip)" by (cases c)
  let ?rl = "snd (Allow impl parse_ip now ip rl)"
  let ?t = "snd (take_token impl now (bucket_of t0 ip rl))"
  have room: "map_of (buckets rl) ip \<noteq> None \<or> int (length (buckets rl)) < maxBuckets rl"
  proof (cases "ip \<in> fst ` set (buckets rl)")
    case False
    have "card (insert ip (fst ` set (buckets rl))) \<le> card (fst ` set (buckets rl) \<union> snd ` set (c # calls))"
      by (rule card_mono) (auto simp: c)
    moreover have "card (fst ` set (buckets rl)) = length (buckets rl)"
      using distinct_card [OF Cons.prems(1)] by simp
    ultimately show ?thesis using False Cons.prems(5) by simp
  qed (simp add: map_of_None_keys)
  have "\<not> whitelisted parse_ip ip rl" using Cons.prems(4) c by auto
  note step = Allow_step [OF this Cons.prems(2,3) room, of now]
  have keys: "fst ` set (buckets ?rl) = insert ip (fst ` set (buckets rl))"
    by (simp add: step(2) dom_update image_def [symmetric])
  have wl: "whitelisted parse_ip i ?rl = whitelisted parse_ip i rl" for i
    by (simp add: whitelisted_def step(3) split: option.split)
  have bucket: "bucket_of t0 k ?rl = (if k = ip then ?t else bucket_of t0 k rl)"
    by (simp add: bucket_of_def step(2))
  have "answers_for k calls (fst (admit_all (\<lambda>(now, ip). Allow impl parse_ip now ip) calls ?rl)) =
      bucket_run impl (bucket_of t0 k ?rl) (times_for k calls)"
  proof (rule Cons.IH)
    show "distinct (map fst (buckets ?rl))" using Cons.prems(1) by (simp add: step(2) distinct_update)
    show "\<forall>(now, ip) \<in> set calls. \<not> whitelisted parse_ip ip ?rl" using Cons.prems(4) wl by auto
    show "int (card (fst ` set (buckets ?rl) \<union> snd ` set calls)) \<le> maxBuckets ?rl"
      using Cons.prems(5) by (simp add: keys step(5) c insert_commute)
  qed (use Cons.prems(2,3) step in simp_all)
  then show ?case
    using bucket by (cases "k = ip") (simp_all add: c admit_all_Cons answers_for_def times_for_def step(1) bucket_run_Cons)
qed

text \<open>C34. Clients cannot use up each other's tokens: as long as the distinct keys fit in the table,
  the answers to one key are those of a token bucket that serves that key alone, at the same
  times, whatever calls for other keys are mixed in between.\<close>

theorem keys_are_isolated:
  assumes "q > 0" and "mk_bucket impl q = Some t0" and "0 < n"
    and "int (card (snd ` set calls)) \<le> n"
  shows "answers_for k calls (fst (admit_all (\<lambda>(now, ip). Allow impl parse_ip now ip) calls
      (SetMaxBuckets n (NewRateLimiter parse_cidr parse_ip q win [])))) =
    bucket_run impl t0 (times_for k calls)"
proof -
  let ?rl = "SetMaxBuckets n (NewRateLimiter parse_cidr parse_ip q win []) :: 'a RateLimiter"
  have "buckets ?rl = []" "qps ?rl = q" "maxBuckets ?rl = n" "\<not> whitelisted parse_ip ip ?rl" for ip
    using assms(3)
    by (simp_all add: SetMaxBuckets_def NewRateLimiter_def whitelisted_def split: option.split)
  then show ?thesis
    using key_answers [of ?rl impl t0 calls parse_ip k] assms by (auto simp: bucket_of_def)
qed

text \<open>A bucket of one token that is refilled after ten time units.\<close>

definition demo_bucket :: "int bucket_impl" where
  "demo_bucket = \<lparr>mk_bucket = (\<lambda>q. Some (-100)), take_token = (\<lambda>now t. if now - t \<ge> 10 then (True, now) else (False, t)),
     retry_after = (\<lambda>now t. t + 10 - now)\<rparr>"

theorem keys_are_isolated_witness:
  "answers_for ''a'' [(0, ''a''), (1, ''b''), (2, ''a''), (12, ''a'')]
     (fst (admit_all (\<lambda>(now, ip). Allow demo_bucket (\<lambda>_. None) now ip) [(0, ''a''), (1, ''b''), (2, ''a''), (12, ''a'')]
       (SetMaxBuckets 2 (NewRateLimiter (\<lambda>_. None) (\<lambda>_. None) 1 60 [])))) = [True, False, True]"
proof -
  let ?calls = "[(0 :: int, ''a''), (1, ''b''), (2, ''a''), (12, ''a'')]"
  have mk: "mk_bucket demo_bucket 1 = Some (-100)" by (simp add: demo_bucket_def)
  have "times_for ''a'' ?calls = [0, 2, 12]" by (simp add: times_for_def)
  moreover have "bucket_run demo_bucket (-100) [0, 2, 12] = [True, False, True]" by (simp add: demo_bucket_def bucket_run_Cons)
  moreover have "snd ` set ?calls = {''a'', ''b''}" by auto
  then have "int (card (snd ` set ?calls)) \<le> 2" by simp
  ultimately show ?thesis
    using keys_are_isolated [where calls = ?calls and k = "''a''" and q = 1 and n = 2, OF _ mk]
    by (simp only: zero_less_one zero_less_numeral simp_thms)
qed

text \<open>\<open>Cleanup\<close> forgets exactly the idle buckets: a bucket stays if and only if its last use is
  at most ten cleanup intervals ago, and keeps its tokens.\<close>

theorem cleanup_keeps_recent:
  assumes "0 \<le> interval" and "interval \<le> 2 ^ 59" and "distinct (map fst (buckets rl))"
  shows "map_of (buckets (Cleanup now interval rl)) ip =
    (case map_of (buckets rl) ip of
       None \<Rightarrow> None
     | Some b \<Rightarrow> if now - lastTime b \<le> interval * 10 then Some b else None)"
proof -
  have w: "wrap64 (interval * 10) = interval * 10" using assms(1,2) by (intro wrap64_id) simp_all
  have "distinct (map fst al) \<Longrightarrow> map_of (filter (\<lambda>(ip, b). P b) al) ip =
      (case map_of al ip of None \<Rightarrow> None | Some b \<Rightarrow> if P b then Some b else None)" for P al
    by (induction al) (auto simp: map_of_None_keys split: option.split)
  from this [OF assms(3), of "\<lambda>b. now - lastTime b \<le> interval * 10"]
  show ?thesis by (simp add: Cleanup_def w not_less)
qed

theorem cleanup_keeps_recent_witness:
  "map_of (buckets (Cleanup 200 10 ((NewRateLimiter (\<lambda>_. None) (\<lambda>_. None) 1 60 [])\<lparr>buckets :=
     [(''old'', \<lparr>limiter = 1, lastTime = 0\<rparr>), (''new'', \<lparr>limiter = 2, lastTime = 150\<rparr>)]\<rparr>))) ''old'' = (None :: nat limiterEntry option)"
  by (simp add: cleanup_keeps_recent NewRateLimiter_def)

end
