(* ===== verification/ServerConfig.thy ===== *)
theory ServerConfig
  imports ConfigValidate MiddlewareManager RouteGroups RouterServe HandlerChain RateLimiting
begin

text \<open>
  The configuration side of \<open>Server\<close>: its fields and the chained setters of \<open>server.go\<close>
  and \<open>static.go\<close>, all of which refuse to change anything once the server has started.

  Route handlers are the programs of \<open>HandlerChain\<close>; the type variable \<open>'f\<close> is the type of
  all other functions and interface values a caller hands over (file systems, check
  functions, certificate loaders, metric sinks). A route group callback is the list of
  calls it makes. \<open>warnings\<close> is what the server's logger received; a rate limiter keeps
  the state of its token buckets in \<open>'t\<close>.
\<close>

datatype 'f middleware_value =
    Builtin string
  | RateLimitMiddleware
  | External 'f

record SNICertificate =
  ServerName :: string
  CertFile :: string
  KeyFile :: string

record 'f RateLimitOptions =
  QPS :: int
  Window :: int
  Whitelist :: "string list"
  CleanupInterval :: int
  KeyFunc :: "'f option"

record 'f RequestIDOptions =
  rid_Header :: string
  rid_Generator :: "'f option"

text \<open>The entries of a server for static trees, for the single-page fallback and for checks.\<close>

type_synonym 'f staticEntry = "string \<times> 'f \<times> StaticOptions"
type_synonym 'f spaConfig = "'f \<times> string"
type_synonym routeGroupEntry = "string \<times> handler group_cmd list"

record ('f, 't) Server =
  config :: Config
  logger :: bool
  routes :: "handler Route list"
  routeGroups :: "routeGroupEntry list"
  staticEntries :: "'f staticEntry list"
  spa :: "'f spaConfig option"
  healthChecks :: "(string \<times> 'f) list"
  mwManager :: "'f middleware_value Manager"
  rateLimiter :: "('t RateLimiter \<times> 'f option) option"
  started :: bool
  cleanupTasks :: "int list"
  httpEnabled :: bool
  httpAddr :: string
  httpTLS :: bool
  http3Enabled :: bool
  http3Addr :: string
  unixEnabled :: bool
  unixSocketPath :: string
  unixSocketPerm :: int
  certLoader :: "'f option"
  sniCerts :: "SNICertificate list"
  livenessChecks :: "(string \<times> 'f) list"
  readinessChecks :: "(string \<times> 'f) list"
  connCtx :: "'f option"
  onShutdown :: "'f list"
  mwOrder :: "string list"
  requestIDOpts :: "'f RequestIDOptions"
  metricsSink :: "'f option"
  maxConcurrent :: int
  errorMessages :: "(string, string) gomap"
  warnings :: "string list"

definition NewServer :: "Config \<Rightarrow> bool \<Rightarrow> ('f, 't) Server" where
  "NewServer cfg log =
    \<lparr>config = cfg, logger = log, routes = [], routeGroups = [], staticEntries = [], spa = None,
     healthChecks = [], mwManager = NewManager, rateLimiter = None, started = False, cleanupTasks = [],
     httpEnabled = False, httpAddr = [], httpTLS = False, http3Enabled = False, http3Addr = [],
     unixEnabled = False, unixSocketPath = [], unixSocketPerm = 0, certLoader = None, sniCerts = [],
     livenessChecks = [], readinessChecks = [], connCtx = None, onShutdown = [], mwOrder = [],
     requestIDOpts = \<lparr>rid_Header = [], rid_Generator = None\<rparr>, metricsSink = None, maxConcurrent = 0,
     errorMessages = [], warnings = []\<rparr>"

text \<open>\<open>logWarn\<close>, and the guard with which every setter begins.\<close>

definition logWarn :: "string \<Rightarrow> ('f, 't) Server \<Rightarrow> ('f, 't) Server" where
  "logWarn msg s = (if logger s then s\<lparr>warnings := warnings s @ [msg]\<rparr> else s)"

definition unless_started ::
    "string \<Rightarrow> (('f, 't) Server \<Rightarrow> ('f, 't) Server) \<Rightarrow> ('f, 't) Server \<Rightarrow> ('f, 't) Server" where
  "unless_started action f s = (if started s then logWarn action s else f s)"

subsection \<open>Setters\<close>

definition WithLogger :: "bool \<Rightarrow> ('f, 't) Server \<Rightarrow> ('f, 't) Server" where
  "WithLogger l = unless_started ''WithLogger'' (\<lambda>s. s\<lparr>logger := l\<rparr>)"

definition WithMetrics :: "'f option \<Rightarrow> ('f, 't) Server \<Rightarrow> ('f, 't) Server" where
  "WithMetrics m = unless_started ''WithMetrics'' (\<lambda>s. s\<lparr>metricsSink := m\<rparr>)"

definition UseGlobalMiddleware :: "'f list \<Rightarrow> ('f, 't) Server \<Rightarrow> ('f, 't) Server" where
  "UseGlobalMiddleware mw = unless_started ''UseGlobalMiddleware''
     (\<lambda>s. s\<lparr>mwManager := Append (map External mw) (mwManager s)\<rparr>)"

definition OverrideMiddleware :: "string \<Rightarrow> 'f \<Rightarrow> ('f, 't) Server \<Rightarrow> ('f, 't) Server" where
  "OverrideMiddleware mt mw = unless_started ''OverrideMiddleware''
     (\<lambda>s. s\<lparr>mwManager := Override mt (External mw) (mwManager s)\<rparr>)"

definition DisableMiddleware :: "string list \<Rightarrow> ('f, 't) Server \<Rightarrow> ('f, 't) Server" where
  "DisableMiddleware mts = unless_started ''DisableMiddleware''
     (\<lambda>s. s\<lparr>mwManager := Disable mts (mwManager s)\<rparr>)"

definition EnableMiddleware :: "string list \<Rightarrow> ('f, 't) Server \<Rightarrow> ('f, 't) Server" where
  "EnableMiddleware mts = unless_started ''EnableMiddleware''
     (\<lambda>s. s\<lparr>mwManager := Enable mts (mwManager s)\<rparr>)"

definition RegisterRoute :: "handler Route \<Rightarrow> ('f, 't) Server \<Rightarrow> ('f, 't) Server" where
  "RegisterRoute r = unless_started ''RegisterRoute'' (\<lambda>s. s\<lparr>routes := routes s @ [r]\<rparr>)"

definition RegisterRoutes :: "handler Route list \<Rightarrow> ('f, 't) Server \<Rightarrow> ('f, 't) Server" where
  "RegisterRoutes rs = unless_started ''RegisterRoutes'' (\<lambda>s. s\<lparr>routes := routes s @ rs\<rparr>)"

definition RegisterRouteGroup :: "string \<Rightarrow> handler group_cmd list \<Rightarrow> ('f, 't) Server \<Rightarrow> ('f, 't) Server" where
  "RegisterRouteGroup pre fn = unless_started ''RegisterRouteGroup''
     (\<lambda>s. s\<lparr>routeGroups := routeGroups s @ [(pre, fn)]\<rparr>)"

definition UseHttp1or2Listen :: "string \<Rightarrow> bool \<Rightarrow> ('f, 't) Server \<Rightarrow> ('f, 't) Server" where
  "UseHttp1or2Listen addr useTLS = unless_started ''UseHttp1or2Listen''
     (\<lambda>s. s\<lparr>httpEnabled := True, httpAddr := addr, httpTLS := useTLS\<rparr>)"

definition UseHttp3Listen :: "string \<Rightarrow> ('f, 't) Server \<Rightarrow> ('f, 't) Server" where
  "UseHttp3Listen addr = unless_started ''UseHttp3Listen'' (\<lambda>s. s\<lparr>http3Enabled := True, http3Addr := addr\<rparr>)"

text \<open>The default permission \<open>0660\<close> is 432.\<close>

definition UseUnixSocketListen :: "string \<Rightarrow> int \<Rightarrow> ('f, 't) Server \<Rightarrow> ('f, 't) Server" where
  "UseUnixSocketListen path perm = unless_started ''UseUnixSocketListen''
     (\<lambda>s. s\<lparr>unixEnabled := True, unixSocketPath := path,
            unixSocketPerm := (if perm = 0 then 432 else perm)\<rparr>)"

definition SetCertificateLoader :: "'f option \<Rightarrow> ('f, 't) Server \<Rightarrow> ('f, 't) Server" where
  "SetCertificateLoader fn = unless_started ''SetCertificateLoader'' (\<lambda>s. s\<lparr>certLoader := fn\<rparr>)"

definition SetConnContext :: "'f option \<Rightarrow> ('f, 't) Server \<Rightarrow> ('f, 't) Server" where
  "SetConnContext fn = unless_started ''SetConnContext''
     (\<lambda>s. case fn of None \<Rightarrow> s | Some f \<Rightarrow> s\<lparr>connCtx := Some f\<rparr>)"

definition RegisterOnShutdown :: "'f option \<Rightarrow> ('f, 't) Server \<Rightarrow> ('f, 't) Server" where
  "RegisterOnShutdown fn = unless_started ''RegisterOnShutdown''
     (\<lambda>s. case fn of None \<Rightarrow> s | Some f \<Rightarrow> s\<lparr>onShutdown := onShutdown s @ [f]\<rparr>)"

definition SetMiddlewareOrder :: "string list \<Rightarrow> ('f, 't) Server \<Rightarrow> ('f, 't) Server" where
  "SetMiddlewareOrder ord = unless_started ''SetMiddlewareOrder'' (\<lambda>s. s\<lparr>mwOrder := ord\<rparr>)"

definition SetSNICertificates :: "SNICertificate list \<Rightarrow> ('f, 't) Server \<Rightarrow> ('f, 't) Server" where
  "SetSNICertificates certs = unless_started ''SetSNICertificates''
     (\<lambda>s. s\<lparr>sniCerts := filter (\<lambda>k. ServerName k \<noteq> [] \<and> CertFile k \<noteq> [] \<and> KeyFile k \<noteq> []) certs\<rparr>)"

definition SetRequestIDOptions :: "'f RequestIDOptions \<Rightarrow> ('f, 't) Server \<Rightarrow> ('f, 't) Server" where
  "SetRequestIDOptions opts = unless_started ''SetRequestIDOptions'' (\<lambda>s. s\<lparr>requestIDOpts := opts\<rparr>)"

definition SetMaxConcurrentRequests :: "int \<Rightarrow> ('f, 't) Server \<Rightarrow> ('f, 't) Server" where
  "SetMaxConcurrentRequests n = unless_started ''SetMaxConcurrentRequests'' (\<lambda>s. s\<lparr>maxConcurrent := n\<rparr>)"

definition SetErrorMessages :: "(string, string) gomap \<Rightarrow> ('f, 't) Server \<Rightarrow> ('f, 't) Server" where
  "SetErrorMessages msgs = unless_started ''SetErrorMessages'' (\<lambda>s. s\<lparr>errorMessages := msgs\<rparr>)"

definition mergeErrorMessages :: "('f, 't) Server \<Rightarrow> (string, string) gomap" where
  "mergeErrorMessages s = fold (\<lambda>(k, v) out. AList.update k v out) (errorMessages s)
     (fold (\<lambda>(k, v) out. AList.update k v out) (ErrorMessages (config s)) [])"

text \<open>
  \<open>EnableRateLimit\<close>; the cleanup goroutine it starts is recorded by its interval (five
  minutes when unset), to be stopped by the clean-up functions.
\<close>

definition SetKeyFunc :: "'f option \<Rightarrow> 't RateLimiter \<times> 'f option \<Rightarrow> 't RateLimiter \<times> 'f option" where
  "SetKeyFunc fn rl = (case fn of None \<Rightarrow> rl | Some f \<Rightarrow> (fst rl, Some f))"

definition EnableRateLimit_server ::
    "(string \<Rightarrow> IPNet option) \<Rightarrow> (string \<Rightarrow> 8 word list option) \<Rightarrow> 'f RateLimitOptions
      \<Rightarrow> ('f, 't) Server \<Rightarrow> ('f, 't) Server" where
  "EnableRateLimit_server parse_cidr parse_ip opts = unless_started ''EnableRateLimit''
     (\<lambda>s. if QPS opts \<le> 0 \<or> Window opts \<le> 0 then s
          else (let rl = SetKeyFunc (KeyFunc opts)
                           (NewRateLimiter parse_cidr parse_ip (QPS opts) (Window opts) (Whitelist opts), None);
                    interval = (if CleanupInterval opts \<le> 0 then 5 * 60 * second else CleanupInterval opts)
                in s\<lparr>rateLimiter := Some (apfst (rl_SetMetricsSink (metricsSink s \<noteq> None)) rl),
                     mwManager := EnableRateLimit RateLimitMiddleware (mwManager s),
                     cleanupTasks := cleanupTasks s @ [interval]\<rparr>))"

definition DisableRateLimit_server :: "('f, 't) Server \<Rightarrow> ('f, 't) Server" where
  "DisableRateLimit_server = unless_started ''DisableRateLimit''
     (\<lambda>s. s\<lparr>mwManager := DisableRateLimit (mwManager s), rateLimiter := None\<rparr>)"

definition RegisterHealthCheck :: "string \<Rightarrow> 'f option \<Rightarrow> ('f, 't) Server \<Rightarrow> ('f, 't) Server" where
  "RegisterHealthCheck name fn = unless_started ''RegisterHealthCheck''
     (\<lambda>s. case fn of None \<Rightarrow> s
          | Some f \<Rightarrow> if name = [] then s else s\<lparr>healthChecks := healthChecks s @ [(name, f)]\<rparr>)"

definition RegisterLivenessCheck :: "string \<Rightarrow> 'f option \<Rightarrow> ('f, 't) Server \<Rightarrow> ('f, 't) Server" where
  "RegisterLivenessCheck name fn = unless_started ''RegisterLivenessCheck''
     (\<lambda>s. case fn of None \<Rightarrow> s
          | Some f \<Rightarrow> if name = [] then s else s\<lparr>livenessChecks := livenessChecks s @ [(name, f)]\<rparr>)"

definition RegisterReadinessCheck :: "string \<Rightarrow> 'f option \<Rightarrow> ('f, 't) Server \<Rightarrow> ('f, 't) Server" where
  "RegisterReadinessCheck name fn = unless_started ''RegisterReadinessCheck''
     (\<lambda>s. case fn of None \<Rightarrow> s
          | Some f \<Rightarrow> if name = [] then s else s\<lparr>readinessChecks := readinessChecks s @ [(name, f)]\<rparr>)"

definition ServeStaticFSWithOptions :: "string \<Rightarrow> 'f \<Rightarrow> StaticOptions \<Rightarrow> ('f, 't) Server \<Rightarrow> ('f, 't) Server" where
  "ServeStaticFSWithOptions pre fs opts = unless_started ''ServeStatic''
     (\<lambda>s. s\<lparr>staticEntries := staticEntries s @ [(pre, fs, opts)]\<rparr>)"

definition ServeStaticFS :: "string \<Rightarrow> 'f \<Rightarrow> ('f, 't) Server \<Rightarrow> ('f, 't) Server" where
  "ServeStaticFS pre fs = ServeStaticFSWithOptions pre fs \<lparr>MaxAge = 0, DisableIndex = False, EnableETag = False\<rparr>"

text \<open>\<open>dir\<close> is \<open>http.Dir\<close>.\<close>

definition ServeStaticDirWithOptions ::
    "(string \<Rightarrow> 'f) \<Rightarrow> string \<Rightarrow> string \<Rightarrow> StaticOptions \<Rightarrow> ('f, 't) Server \<Rightarrow> ('f, 't) Server" where
  "ServeStaticDirWithOptions dir pre rt opts = ServeStaticFSWithOptions pre (dir rt) opts"

definition ServeStaticDir :: "(string \<Rightarrow> 'f) \<Rightarrow> string \<Rightarrow> string \<Rightarrow> ('f, 't) Server \<Rightarrow> ('f, 't) Server" where
  "ServeStaticDir dir pre rt = ServeStaticFS pre (dir rt)"

definition EnableSPA :: "'f \<Rightarrow> string \<Rightarrow> ('f, 't) Server \<Rightarrow> ('f, 't) Server" where
  "EnableSPA fs indexPath = unless_started ''EnableSPA'' (\<lambda>s. s\<lparr>spa := Some (fs, indexPath)\<rparr>)"

subsection \<open>Frozen after Start\<close>

text \<open>
  The contract of an object that is configured and then started: once it is started, no
  call changes its settings, nor undoes the start.
\<close>

locale startable =
  fixes call :: "'op \<Rightarrow> 's \<Rightarrow> 's"
    and is_started :: "'s \<Rightarrow> bool"
    and settings :: "'s \<Rightarrow> 'c"
  assumes call_frozen: "is_started s \<Longrightarrow> settings (call op s) = settings s"
    and call_keeps_started: "is_started (call op s) = is_started s"
begin

lemma calls_keep_started: "is_started (fold call ops s) = is_started s"
  by (induction ops arbitrary: s) (simp_all add: call_keeps_started)

lemma calls_frozen: "is_started s \<Longrightarrow> settings (fold call ops s) = settings s"
  by (induction ops arbitrary: s) (simp_all add: call_frozen call_keeps_started)

end

datatype 'f server_setter =
    Call_WithLogger bool
  | Call_WithMetrics "'f option"
  | Call_UseGlobalMiddleware "'f list"
  | Call_OverrideMiddleware string 'f
  | Call_DisableMiddleware "string list"
  | Call_EnableMiddleware "string list"
  | Call_RegisterRoute "handler Route"
  | Call_RegisterRoutes "handler Route list"
  | Call_RegisterRouteGroup string "handler group_cmd list"
  | Call_UseHttp1or2Listen string bool
  | Call_UseHttp3Listen string
  | Call_UseUnixSocketListen string int
  | Call_SetCertificateLoader "'f option"
  | Call_SetConnContext "'f option"
  | Call_RegisterOnShutdown "'f option"
  | Call_SetMiddlewareOrder "string list"
  | Call_SetSNICertificates "SNICertificate list"
  | Call_SetRequestIDOptions "'f RequestIDOptions"
  | Call_SetMaxConcurrentRequests int
  | Call_SetErrorMessages "(string, string) gomap"
  | Call_EnableRateLimit "string \<Rightarrow> IPNet option" "string \<Rightarrow> 8 word list option" "'f RateLimitOptions"
  | Call_DisableRateLimit
  | Call_RegisterHealthCheck string "'f option"
  | Call_RegisterLivenessCheck string "'f option"
  | Call_RegisterReadinessCheck string "'f option"
  | Call_ServeStaticFSWithOptions string 'f StaticOptions
  | Call_EnableSPA 'f string

fun server_call :: "'f server_setter \<Rightarrow> ('f, 't) Server \<Rightarrow> ('f, 't) Server" where
  "server_call (Call_WithLogger a) s = WithLogger a s"
| "server_call (Call_WithMetrics a) s = WithMetrics a s"
| "server_call (Call_UseGlobalMiddleware a) s = UseGlobalMiddleware a s"
| "server_call (Call_OverrideMiddleware a1 a2) s = OverrideMiddleware a1 a2 s"
| "server_call (Call_DisableMiddleware a) s = DisableMiddleware a s"
| "server_call (Call_EnableMiddleware a) s = EnableMiddleware a s"
| "server_call (Call_RegisterRoute a) s = RegisterRoute a s"
| "server_call (Call_RegisterRoutes a) s = RegisterRoutes a s"
| "server_call (Call_RegisterRouteGroup a1 a2) s = RegisterRouteGroup a1 a2 s"
| "server_call (Call_UseHttp1or2Listen a1 a2) s = UseHttp1or2Listen a1 a2 s"
| "server_call (Call_UseHttp3Listen a) s = UseHttp3Listen a s"
| "server_call (Call_UseUnixSocketListen a1 a2) s = UseUnixSocketListen a1 a2 s"
| "server_call (Call_SetCertificateLoader a) s = SetCertificateLoader a s"
| "server_call (Call_SetConnContext a) s = SetConnContext a s"
| "server_call (Call_RegisterOnShutdown a) s = RegisterOnShutdown a s"
| "server_call (Call_SetMiddlewareOrder a) s = SetMiddlewareOrder a s"
| "server_call (Call_SetSNICertificates a) s = SetSNICertificates a s"
| "server_call (Call_SetRequestIDOptions a) s = SetRequestIDOptions a s"
| "server_call (Call_SetMaxConcurrentRequests a) s = SetMaxConcurrentRequests a s"
| "server_call (Call_SetErrorMessages a) s = SetErrorMessages a s"
| "server_call (Call_EnableRateLimit a1 a2 a3) s = EnableRateLimit_server a1 a2 a3 s"
| "server_call Call_DisableRateLimit s = DisableRateLimit_server s"
| "server_call (Call_RegisterHealthCheck a1 a2) s = RegisterHealthCheck a1 a2 s"
| "server_call (Call_RegisterLivenessCheck a1 a2) s = RegisterLivenessCheck a1 a2 s"
| "server_call (Call_RegisterReadinessCheck a1 a2) s = RegisterReadinessCheck a1 a2 s"
| "server_call (Call_ServeStaticFSWithOptions a1 a2 a3) s = ServeStaticFSWithOptions a1 a2 a3 s"
| "server_call (Call_EnableSPA a1 a2) s = EnableSPA a1 a2 s"

lemmas setter_defs = WithLogger_def WithMetrics_def UseGlobalMiddleware_def
   OverrideMiddleware_def DisableMiddleware_def EnableMiddleware_def RegisterRoute_def
   RegisterRoutes_def RegisterRouteGroup_def UseHttp1or2Listen_def UseHttp3Listen_def
   UseUnixSocketListen_def SetCertificateLoader_def SetConnContext_def RegisterOnShutdown_def
   SetMiddlewareOrder_def SetSNICertificates_def SetRequestIDOptions_def
   SetMaxConcurrentRequests_def SetErrorMessages_def EnableRateLimit_server_def
   DisableRateLimit_server_def RegisterHealthCheck_def RegisterLivenessCheck_def
   RegisterReadinessCheck_def ServeStaticFSWithOptions_def EnableSPA_def

lemma unless_started_frozen:
  "started s \<Longrightarrow> (unless_started action f s)\<lparr>warnings := w\<rparr> = s\<lparr>warnings := w\<rparr>"
  by (simp add: unless_started_def logWarn_def)

lemma unless_started_started:
  "(\<And>s. started (f s) = started s) \<Longrightarrow> started (unless_started action f s) = started s"
  by (simp add: unless_started_def logWarn_def)

lemma server_call_guarded:
  "\<exists>action f. server_call op s = unless_started action f s \<and> (\<forall>s. started (f s) = started s)"
  by (cases op; simp only: server_call.simps setter_defs; intro exI conjI; (rule refl)?; simp split: option.split)

interpretation server: startable server_call started "\<lambda>s. s\<lparr>warnings := []\<rparr>"
proof unfold_locales
  fix s :: "('f, 't) Server" and op
  obtain action f where call: "server_call op s = unless_started action f s" "\<forall>s. started (f s) = started s"
    using server_call_guarded by blast
  then show "started (server_call op s) = started s" by (simp add: unless_started_started)
  assume "started s"
  with call(1) show "(server_call op s)\<lparr>warnings := []\<rparr> = s\<lparr>warnings := []\<rparr>"
    by (simp add: unless_started_frozen)
qed

text \<open>A running server cannot be reconfigured: after it has started, no sequence of setter
  calls changes any of its fields; each call only adds a warning to the log.\<close>

theorem started_server_frozen:
  assumes "started s"
  shows "(fold server_call ops s)\<lparr>warnings := []\<rparr> = s\<lparr>warnings := []\<rparr>"
  using assms by (rule server.calls_frozen)

theorem started_server_frozen_witness:
  "(fold server_call [Call_UseHttp3Listen '':443'', Call_DisableMiddleware [''recovery'']]
      ((NewServer zero_config True :: (nat, nat) Server)\<lparr>started := True\<rparr>))\<lparr>warnings := []\<rparr> =
    ((NewServer zero_config True)\<lparr>started := True\<rparr>)\<lparr>warnings := []\<rparr>"
  by (rule started_server_frozen) simp

end
