(* ===== verification/Listeners.thy ===== *)
theory Listeners
  imports ServerConfig
begin

text \<open>
  Certificates and listeners: \<open>listener.go\<close>, \<open>buildGetCertificate\<close> of \<open>server.go\<close>, and the
  two platform files. Both platforms are modelled; \<open>platform\<close> says which one is built.

  The operating system is a record of functions on a state \<open>'o\<close>; the file system that
  certificates are read from is given at each handshake, as it changes between handshakes.
\<close>

datatype listen_error =
    PathTooLong int int
  | PathIsDirectory
  | StaleNotRemoved
  | ListenFailed
  | ChmodFailed
  | WindowsTooOld int
  | ProbesFailed nat

subsection \<open>Certificates\<close>

text \<open>\<open>os.Stat(\<cdot>).ModTime\<close> and \<open>tls.LoadX509KeyPair\<close> at one moment.\<close>

record 'c cert_disk =
  mod_time :: "string \<Rightarrow> int option"
  load_pair :: "string \<Rightarrow> string \<Rightarrow> 'c option"

record 'c certificateProvider =
  cp_certFile :: string
  cp_keyFile :: string
  cp_cert :: "'c option"
  mtimeCert :: int
  mtimeKey :: int

definition newCertificateProvider :: "string \<Rightarrow> string \<Rightarrow> 'c certificateProvider" where
  "newCertificateProvider cf kf =
     \<lparr>cp_certFile = cf, cp_keyFile = kf, cp_cert = None, mtimeCert = -62135596800, mtimeKey = -62135596800\<rparr>"

text \<open>The two calls of \<open>Stat\<close> and the loading see the same disk; \<open>None\<close> is an error.\<close>

definition getCertificate :: "'c cert_disk \<Rightarrow> 'c certificateProvider \<Rightarrow> 'c option \<times> 'c certificateProvider" where
  "getCertificate d p =
     (case mod_time d (cp_certFile p) of
        None \<Rightarrow> (None, p)
      | Some mc \<Rightarrow>
          (case mod_time d (cp_keyFile p) of
             None \<Rightarrow> (None, p)
           | Some mk \<Rightarrow>
               (if cp_cert p \<noteq> None \<and> mc = mtimeCert p \<and> mk = mtimeKey p then (cp_cert p, p)
                else (case load_pair d (cp_certFile p) (cp_keyFile p) of
                        None \<Rightarrow> (None, p)
                      | Some c \<Rightarrow> (Some c, p\<lparr>cp_cert := Some c, mtimeCert := mc, mtimeKey := mk\<rparr>)))))"

text \<open>The certificate source of a listener: the callback of the user, or the providers of
  \<open>buildGetCertificate\<close>. A later entry for the same name replaces an earlier one.\<close>

datatype ('f, 'c) cert_source =
    UserLoader 'f
  | Providers "'c certificateProvider" "(string, 'c certificateProvider) gomap"

fun sni_providers :: "SNICertificate list \<Rightarrow> (string, 'c certificateProvider) gomap \<Rightarrow> (string, 'c certificateProvider) gomap" where
  "sni_providers [] m = m"
| "sni_providers (k # ks) m =
     sni_providers ks (AList.update (ServerName k) (newCertificateProvider (CertFile k) (KeyFile k)) m)"

definition buildGetCertificate :: "('f, 't) Server \<Rightarrow> ('f, 'c) cert_source" where
  "buildGetCertificate s =
     (case certLoader s of
        Some f \<Rightarrow> UserLoader f
      | None \<Rightarrow>
          (let dflt = newCertificateProvider (TLSCertFile (config s)) (TLSKeyFile (config s))
           in if sniCerts s = [] then Providers dflt [] else Providers dflt (sni_providers (sniCerts s) [])))"

text \<open>One handshake: \<open>None\<close> for the server name is a missing \<open>ClientHelloInfo\<close>.\<close>

fun handshake ::
    "('f \<Rightarrow> string option \<Rightarrow> 'c option) \<Rightarrow> 'c cert_disk \<Rightarrow> string option \<Rightarrow> ('f, 'c) cert_source \<Rightarrow> 'c option \<times> ('f, 'c) cert_source" where
  "handshake call d chi (UserLoader f) = (call f chi, UserLoader f)"
| "handshake call d chi (Providers dflt m) =
     (case (case chi of None \<Rightarrow> None | Some name \<Rightarrow> map_option (Pair name) (map_of m name)) of
        Some (name, p) \<Rightarrow> (case getCertificate d p of (c, p') \<Rightarrow> (c, Providers dflt (AList.update name p' m)))
      | None \<Rightarrow> (case getCertificate d dflt of (c, p') \<Rightarrow> (c, Providers p' m)))"

fun handshakes ::
    "('f \<Rightarrow> string option \<Rightarrow> 'c option) \<Rightarrow> ('c cert_disk \<times> string option) list \<Rightarrow> ('f, 'c) cert_source
      \<Rightarrow> 'c option list \<times> ('f, 'c) cert_source" where
  "handshakes call [] src = ([], src)"
| "handshakes call ((d, chi) # hs) src =
     (case handshake call d chi src of (c, src1) \<Rightarrow>
       (case handshakes call hs src1 of (cs, src2) \<Rightarrow> (c # cs, src2)))"

text \<open>What a handshake should be given: the pair of its server name, as it is on the disk.\<close>

definition pair_for :: "('f, 't) Server \<Rightarrow> string option \<Rightarrow> string \<times> string" where
  "pair_for s chi =
     (case chi of
        None \<Rightarrow> (TLSCertFile (config s), TLSKeyFile (config s))
      | Some name \<Rightarrow>
          (case find (\<lambda>k. ServerName k = name) (rev (sniCerts s)) of
             None \<Rightarrow> (TLSCertFile (config s), TLSKeyFile (config s))
           | Some k \<Rightarrow> (CertFile k, KeyFile k)))"

definition fresh_pair :: "'c cert_disk \<Rightarrow> string \<times> string \<Rightarrow> 'c option" where
  "fresh_pair d ck =
     (if mod_time d (fst ck) = None \<or> mod_time d (snd ck) = None then None else load_pair d (fst ck) (snd ck))"

text \<open>Disks on which a change of content changes a modification time.\<close>

definition times_tell :: "'c cert_disk set \<Rightarrow> bool" where
  "times_tell D \<longleftrightarrow>
     (\<forall>d\<in>D. \<forall>d'\<in>D. \<forall>cf kf. mod_time d cf = mod_time d' cf \<longrightarrow> mod_time d kf = mod_time d' kf \<longrightarrow>
        load_pair d cf kf = load_pair d' cf kf)"

definition provider_ok :: "'c cert_disk set \<Rightarrow> string \<times> string \<Rightarrow> 'c certificateProvider \<Rightarrow> bool" where
  "provider_ok D ck p \<longleftrightarrow> (cp_certFile p, cp_keyFile p) = ck \<and>
     (\<forall>c. cp_cert p = Some c \<longrightarrow>
        (\<exists>d\<in>D. mod_time d (fst ck) = Some (mtimeCert p) \<and> mod_time d (snd ck) = Some (mtimeKey p)
          \<and> load_pair d (fst ck) (snd ck) = Some c))"

lemma new_provider_ok [simp]: "provider_ok D (cf, kf) (newCertificateProvider cf kf)"
  by (simp add: provider_ok_def newCertificateProvider_def)

lemma times_tellD:
  "times_tell D \<Longrightarrow> d \<in> D \<Longrightarrow> d' \<in> D \<Longrightarrow> mod_time d cf = mod_time d' cf \<Longrightarrow> mod_time d kf = mod_time d' kf \<Longrightarrow>
    load_pair d cf kf = load_pair d' cf kf"
  unfolding times_tell_def by blast

lemma getCertificate_fresh:
  assumes "provider_ok D ck p" "times_tell D" "d \<in> D"
  shows "fst (getCertificate d p) = fresh_pair d ck \<and> provider_ok D ck (snd (getCertificate d p))"
proof -
  obtain cf kf where ck: "ck = (cf, kf)" by fastforce
  with assms(1) have files: "cp_certFile p = cf" "cp_keyFile p = kf" by (auto simp: provider_ok_def)
  show ?thesis
  proof (cases "mod_time d cf = Some (mtimeCert p) \<and> mod_time d kf = Some (mtimeKey p) \<and> cp_cert p \<noteq> None")
    case True
    then obtain c where c: "cp_cert p = Some c" by blast
    with assms(1) ck obtain d' where "d' \<in> D" "mod_time d' cf = Some (mtimeCert p)"
      "mod_time d' kf = Some (mtimeKey p)" "load_pair d' cf kf = Some c"
      by (auto simp: provider_ok_def)
    moreover from True have "mod_time d cf = Some (mtimeCert p)" "mod_time d kf = Some (mtimeKey p)" by simp_all
    ultimately have "load_pair d cf kf = Some c" using times_tellD [OF assms(2,3), of d' cf kf] by simp
    with True c files ck assms(1) show ?thesis by (simp add: getCertificate_def fresh_pair_def)
  next
    case False
    show ?thesis
    proof (cases "mod_time d cf = None \<or> mod_time d kf = None \<or> load_pair d cf kf = None")
      case True
      with False assms(1) files ck show ?thesis
        by (cases "mod_time d cf"; cases "mod_time d kf"; cases "cp_cert p") (simp_all add: getCertificate_def fresh_pair_def)
    next
      case loads: False
      then obtain mc mk c where "mod_time d cf = Some mc" "mod_time d kf = Some mk" "load_pair d cf kf = Some c" by auto
      with False assms(3) files ck show ?thesis
        by (auto simp: getCertificate_def fresh_pair_def provider_ok_def intro!: bexI [of _ d])
    qed
  qed
qed

definition source_ok :: "'c cert_disk set \<Rightarrow> ('f, 't) Server \<Rightarrow> ('f, 'c) cert_source \<Rightarrow> bool" where
  "source_ok D s src = (case src of UserLoader f \<Rightarrow> certLoader s = Some f
     | Providers dflt m \<Rightarrow> certLoader s = None \<and> provider_ok D (pair_for s None) dflt
        \<and> (\<forall>name. case map_of m name of
             None \<Rightarrow> pair_for s (Some name) = pair_for s None
           | Some p \<Rightarrow> provider_ok D (pair_for s (Some name)) p))"

lemma sni_providers_lookup:
  "map_of (sni_providers ks m) name =
     (case find (\<lambda>k. ServerName k = name) (rev ks) of
        None \<Rightarrow> map_of m name | Some k \<Rightarrow> Some (newCertificateProvider (CertFile k) (KeyFile k)))"
proof (induction ks arbitrary: m)
  case (Cons k ks)
  have "find P (xs @ [x]) = (case find P xs of None \<Rightarrow> (if P x then Some x else None) | Some y \<Rightarrow> Some y)" for P xs and x :: SNICertificate
    by (induction xs) auto
  with Cons show ?case by (simp split: option.split)
qed simp

lemma build_ok: "source_ok D s (buildGetCertificate s)"
  by (auto simp: source_ok_def buildGetCertificate_def Let_def pair_for_def sni_providers_lookup split: option.split)

lemma handshake_ok:
  assumes "source_ok D s src" "times_tell D" "d \<in> D" "handshake call d chi src = (c, src')"
  shows "c = (case certLoader s of Some f \<Rightarrow> call f chi | None \<Rightarrow> fresh_pair d (pair_for s chi)) \<and> source_ok D s src'"
proof (cases src)
  case (UserLoader f)
  with assms show ?thesis by (auto simp: source_ok_def)
next
  case (Providers dflt m)
  show ?thesis
  proof (cases "case chi of None \<Rightarrow> None | Some name \<Rightarrow> map_option (Pair name) (map_of m name)")
    case None
    have "pair_for s chi = pair_for s None"
    proof (cases chi)
      case (Some name)
      with None have "map_of m name = None" by simp
      with assms(1) Providers Some show ?thesis
        by (auto simp: source_ok_def dest!: spec [of _ name])
    qed simp
    with None Providers assms getCertificate_fresh [of D "pair_for s None" dflt d] show ?thesis
      by (auto simp: source_ok_def split: prod.splits)
  next
    case (Some np)
    then obtain name p where chi: "chi = Some name" "np = (name, p)" "map_of m name = Some p"
      by (cases chi) auto
    with assms(1) Providers have "provider_ok D (pair_for s (Some name)) p"
      by (auto simp: source_ok_def split: option.splits dest!: spec [of _ name])
    with chi Providers assms getCertificate_fresh [of D "pair_for s (Some name)" p d] show ?thesis
      by (auto simp: source_ok_def split: prod.splits)
  qed
qed

text \<open>C19. Certificates rotate: over any sequence of handshakes, each on the disk of its moment, every
  handshake is given the pair configured for its server name as the disk holds it then, and an
  error exactly when a file of the pair is missing or the pair does not load; the cache is never
  seen, as long as changed files have changed modification times. With a loader of the user the
  loader is called instead.\<close>

theorem certificates_rotate:
  assumes "times_tell (fst ` set hs)"
  shows "fst (handshakes call hs (buildGetCertificate s)) =
    map (\<lambda>(d, chi). case certLoader s of Some f \<Rightarrow> call f chi | None \<Rightarrow> fresh_pair d (pair_for s chi)) hs"
proof -
  define D where "D = fst ` set hs"
  have gen: "fst (handshakes call hs' src) =
      map (\<lambda>(d, chi). case certLoader s of Some f \<Rightarrow> call f chi | None \<Rightarrow> fresh_pair d (pair_for s chi)) hs'"
    if "source_ok D s src" "fst ` set hs' \<subseteq> D" for hs' src
    using that
  proof (induction hs' arbitrary: src)
    case (Cons h hs')
    obtain d chi where h: "h = (d, chi)" by fastforce
    obtain c src1 where step: "handshake call d chi src = (c, src1)" by fastforce
    from Cons.prems h have "d \<in> D" by auto
    from handshake_ok [OF Cons.prems(1) assms [folded D_def] this step]
    have rest: "c = (case certLoader s of Some f \<Rightarrow> call f chi | None \<Rightarrow> fresh_pair d (pair_for s chi))" "source_ok D s src1"
      by blast+
    from Cons.IH [OF rest(2)] Cons.prems have "fst (handshakes call hs' src1) =
        map (\<lambda>(d, chi). case certLoader s of Some f \<Rightarrow> call f chi | None \<Rightarrow> fresh_pair d (pair_for s chi)) hs'" by simp
    with h step rest(1) show ?case by (cases "handshakes call hs' src1") simp
  qed simp
  show ?thesis by (rule gen [OF build_ok]) (simp add: D_def)
qed

theorem certificates_rotate_witness:
  "let s = SetSNICertificates [\<lparr>ServerName = ''a.example'', CertFile = ''a.pem'', KeyFile = ''a.key''\<rparr>] (NewServer zero_config True) :: (nat, nat) Server;
       old = \<lparr>mod_time = (\<lambda>_. Some 1), load_pair = (\<lambda>cf _. Some (cf, 1 :: int))\<rparr>;
       new = \<lparr>mod_time = (\<lambda>_. Some 2), load_pair = (\<lambda>cf _. Some (cf, 2))\<rparr>
   in fst (handshakes (\<lambda>_ _. None) [(old, Some ''a.example''), (new, Some ''a.example'')] (buildGetCertificate s)) =
        [Some (''a.pem'', 1), Some (''a.pem'', 2)]"
proof -
  let ?s = "SetSNICertificates [\<lparr>ServerName = ''a.example'', CertFile = ''a.pem'', KeyFile = ''a.key''\<rparr>] (NewServer zero_config True) :: (nat, nat) Server"
  let ?old = "\<lparr>mod_time = (\<lambda>_. Some 1), load_pair = (\<lambda>cf _. Some (cf, 1 :: int))\<rparr>"
  let ?new = "\<lparr>mod_time = (\<lambda>_. Some 2), load_pair = (\<lambda>cf _. Some (cf, 2))\<rparr>"
  have "times_tell (fst ` set [(?old, Some ''a.example''), (?new, Some ''a.example'')])"
    by (simp add: times_tell_def)
  from certificates_rotate [OF this, of "\<lambda>_ _. None" ?s] show ?thesis
    by (simp add: SetSNICertificates_def NewServer_def unless_started_def pair_for_def fresh_pair_def)
qed

subsection \<open>Platforms\<close>

text \<open>The build number as \<open>RtlGetNtVersionNumbers\<close> gives it, the environment variables and the
  directory functions of Windows; \<open>join_path\<close> is
  \<open>filepath.Join\<close> of the platform, and \<open>probe_ok\<close> whether binding a socket at a path succeeds.\<close>

record win_env =
  raw_build :: "32 word"
  temp_dir :: string
  user_profile :: string
  system_root :: string
  join_path :: "string list \<Rightarrow> string"
  probe_ok :: "string \<Rightarrow> bool"

datatype platform = Windows win_env | OtherPlatform string

definition getWindowsBuild :: "win_env \<Rightarrow> int" where
  "getWindowsBuild e = uint (and (raw_build e) 0xFFFF)"

definition minWindowsBuild :: int where "minWindowsBuild = 17134"

fun maxUnixPathLen :: "platform \<Rightarrow> int" where
  "maxUnixPathLen (Windows e) = 60"
| "maxUnixPathLen (OtherPlatform tmp) = 108"

text \<open>The check of the Windows file, and that of the platform that is built.\<close>

definition validateUnixPath_windows :: "string \<Rightarrow> listen_error option" where
  "validateUnixPath_windows path =
     (if int (length path) > 60 then Some (PathTooLong (int (length path)) 60) else None)"

fun validateUnixPath :: "platform \<Rightarrow> string \<Rightarrow> listen_error option" where
  "validateUnixPath (Windows e) path = validateUnixPath_windows path"
| "validateUnixPath (OtherPlatform tmp) path =
     (if int (length path) > maxUnixPathLen (OtherPlatform tmp)
      then Some (PathTooLong (int (length path)) (maxUnixPathLen (OtherPlatform tmp))) else None)"

lemma validateUnixPath_def:
  "validateUnixPath pf path =
     (if int (length path) > maxUnixPathLen pf then Some (PathTooLong (int (length path)) (maxUnixPathLen pf)) else None)"
  by (cases pf) (simp_all add: validateUnixPath_windows_def)

definition checkWindowsBuild :: "int \<Rightarrow> listen_error option" where
  "checkWindowsBuild build = (if build < minWindowsBuild then Some (WindowsTooOld build) else None)"

definition unixProbeCandidates :: "win_env \<Rightarrow> string list" where
  "unixProbeCandidates e =
     (if int (length (temp_dir e)) + 3 \<le> 60 then [join_path e [temp_dir e, ''ux'']] else [])
     @ (if user_profile e \<noteq> [] \<and> int (length (user_profile e)) \<le> 60 - 4 then [join_path e [user_profile e, ''ux.sock'']] else [])
     @ (if system_root e \<noteq> [] then
          (let p = join_path e [system_root e, ''Temp'', ''ux.sock''] in if int (length p) \<le> 60 then [p] else [])
        else [])"

definition probeUnixSocket :: "win_env \<Rightarrow> listen_error option" where
  "probeUnixSocket e =
     (let cands = unixProbeCandidates e
      in if list_ex (probe_ok e) cands then None else Some (ProbesFailed (length cands)))"

fun unixSocketSupported :: "platform \<Rightarrow> listen_error option" where
  "unixSocketSupported (Windows e) =
     (case checkWindowsBuild (getWindowsBuild e) of Some err \<Rightarrow> Some err | None \<Rightarrow> probeUnixSocket e)"
| "unixSocketSupported (OtherPlatform tmp) = None"

definition unixShortDirCandidates :: "win_env \<Rightarrow> string list" where
  "unixShortDirCandidates e =
     (if system_root e \<noteq> [] then [temp_dir e, user_profile e, system_root e @ [CHR 0x5C] @ ''Temp'']
      else [temp_dir e, user_profile e])"

fun shortUnixDir :: "platform \<Rightarrow> string" where
  "shortUnixDir (Windows e) =
     (case find (\<lambda>d. d \<noteq> [] \<and> int (length (join_path e [d, ''w'', ''webx.sock''])) \<le> 60) (unixShortDirCandidates e) of
        Some d \<Rightarrow> d | None \<Rightarrow> temp_dir e)"
| "shortUnixDir (OtherPlatform tmp) = tmp"

subsection \<open>Unix sockets\<close>

datatype removal = Removed | NotThere | RemoveError

text \<open>The calls to the operating system; a listener is a number.\<close>

record 'o os_calls =
  os_isdir :: "string \<Rightarrow> 'o \<Rightarrow> bool"
  os_remove :: "string \<Rightarrow> 'o \<Rightarrow> removal \<times> 'o"
  os_listen :: "string \<Rightarrow> 'o \<Rightarrow> nat option \<times> 'o"
  os_chmod :: "string \<Rightarrow> int \<Rightarrow> 'o \<Rightarrow> bool \<times> 'o"
  os_close :: "nat \<Rightarrow> 'o \<Rightarrow> 'o"

definition createUnixListener ::
    "'o os_calls \<Rightarrow> platform \<Rightarrow> string \<Rightarrow> int \<Rightarrow> 'o \<Rightarrow> (listen_error + nat) \<times> 'o" where
  "createUnixListener os pf path perm st =
     (case validateUnixPath pf path of
        Some e \<Rightarrow> (Inl e, st)
      | None \<Rightarrow>
          (if os_isdir os path st then (Inl PathIsDirectory, st)
           else (case os_remove os path st of
                   (RemoveError, st1) \<Rightarrow> (Inl StaleNotRemoved, st1)
                 | (_, st1) \<Rightarrow>
                     (case os_listen os path st1 of
                        (None, st2) \<Rightarrow> (Inl ListenFailed, st2)
                      | (Some ln, st2) \<Rightarrow>
                          (case os_chmod os path perm st2 of
                             (False, st3) \<Rightarrow> (Inl ChmodFailed, os_close os ln st3)
                           | (True, st3) \<Rightarrow> (Inr ln, st3))))))"

text \<open>What is relied on: listening opens one new listener, closing closes it, nothing else opens or
  closes any.\<close>

definition os_lawful :: "('o \<Rightarrow> nat set) \<Rightarrow> 'o os_calls \<Rightarrow> bool" where
  "os_lawful opened os \<longleftrightarrow>
     (\<forall>p st. opened (snd (os_remove os p st)) = opened st)
   \<and> (\<forall>p perm st. opened (snd (os_chmod os p perm st)) = opened st)
   \<and> (\<forall>n st. opened (os_close os n st) = opened st - {n})
   \<and> (\<forall>p st st'. os_listen os p st = (None, st') \<longrightarrow> opened st' = opened st)
   \<and> (\<forall>p n st st'. os_listen os p st = (Some n, st') \<longrightarrow> n \<notin> opened st \<and> opened st' = insert n (opened st))"

lemma os_lawfulD:
  assumes "os_lawful opened os"
  shows "opened (snd (os_remove os p st)) = opened st"
    and "opened (snd (os_chmod os p perm st)) = opened st"
    and "opened (os_close os n st) = opened st - {n}"
    and "fst (os_listen os p st) = None \<Longrightarrow> opened (snd (os_listen os p st)) = opened st"
    and "fst (os_listen os p st) = Some n \<Longrightarrow> opened (snd (os_listen os p st)) = insert n (opened st)"
    and "fst (os_listen os p st) = Some n \<Longrightarrow> n \<notin> opened st"
  using assms by (cases "os_listen os p st"; auto simp: os_lawful_def)+

text \<open>A Unix socket listener is created completely or not at all: when it fails no listener is
  left open, and when it succeeds exactly the returned one is new. A path that is too long or a
  directory is refused before anything is removed.\<close>

theorem unix_listener_all_or_nothing:
  assumes "os_lawful opened os" "createUnixListener os pf path perm st = (res, st')"
  shows "case res of
      Inr ln \<Rightarrow> ln \<notin> opened st \<and> opened st' = insert ln (opened st)
        \<and> int (length path) \<le> maxUnixPathLen pf \<and> \<not> os_isdir os path st
    | Inl e \<Rightarrow> opened st' = opened st
        \<and> (int (length path) > maxUnixPathLen pf \<or> os_isdir os path st \<longrightarrow> st' = st)"
  using assms(2) os_lawfulD(6) [OF assms(1), where p = path and st = "snd (os_remove os path st)",
      unfolded os_lawfulD(1) [OF assms(1)]]
  by (auto simp: createUnixListener_def validateUnixPath_def os_lawfulD(1-5) [OF assms(1)] case_prod_beta
      split: if_splits option.splits removal.splits bool.splits)

theorem unix_listener_all_or_nothing_witness:
  "let os = \<lparr>os_isdir = (\<lambda>_ _. False), os_remove = (\<lambda>_ st. (NotThere, st)),
             os_listen = (\<lambda>_ st. (Some (Suc (Max (insert 0 (set st)))), Suc (Max (insert 0 (set st))) # st)),
             os_chmod = (\<lambda>_ _ st. (False, st)), os_close = (\<lambda>n st. removeAll n st)\<rparr>
   in createUnixListener os (OtherPlatform ''/tmp'') ''/run/x'' 432 [4] = (Inl ChmodFailed, [4])
      \<and> set (snd (createUnixListener os (OtherPlatform ''/tmp'') ''/run/x'' 432 [4])) = {4}"
proof -
  let ?os = "\<lparr>os_isdir = (\<lambda>_ _. False), os_remove = (\<lambda>_ st. (NotThere, st)),
             os_listen = (\<lambda>_ st. (Some (Suc (Max (insert 0 (set st)))), Suc (Max (insert 0 (set st))) # st)),
             os_chmod = (\<lambda>_ _ st. (False, st)), os_close = (\<lambda>n st. removeAll n st)\<rparr>"
  have fresh: "Suc (Max (insert 0 (set st))) \<notin> set st" for st :: "nat list"
    using Max_ge [of "insert 0 (set st)"] by (metis List.finite_set Suc_n_not_le_n finite_insert insertCI)
  have lawful: "os_lawful set ?os" by (auto simp: os_lawful_def fresh)
  have run: "createUnixListener ?os (OtherPlatform ''/tmp'') ''/run/x'' 432 [4] = (Inl ChmodFailed, [4])"
    by (simp add: createUnixListener_def validateUnixPath_def)
  from unix_listener_all_or_nothing [OF lawful run] run show ?thesis by (simp add: Let_def)
qed

end
