(* ===== verification/ServerStart.thy ===== *)
theory ServerStart
  imports ServerConfig
begin

text \<open>
  \<open>Start\<close> of \<open>server.go\<close> up to the listeners: its checks in their order, the
  registration of the built-in middlewares, and the mounting of static trees, routes,
  groups and probes on the router.
\<close>

datatype start_error =
    AlreadyStarted
  | NoLogger
  | NoListener
  | ConfigFailed config_error
  | UnixUnsupported
  | StaticFailed route_error
  | RouteFailed string string route_error
  | GroupPanicked
  | ProbeCheckPanicked
  | ProbeFailed route_error

subsection \<open>Mounting\<close>

text \<open>\<open>buildChain\<close>: the handler that records the route, then the route's own chain.\<close>

definition meta_handler :: "IPNet list \<Rightarrow> handler Route \<Rightarrow> handler" where
  "meta_handler nets rt =
     Do (OpSetRoute (Path rt)) (Do (OpSetGroup (Group_of rt)) (Do (OpSetTrusted nets) (CallNext Return)))"

definition buildChain :: "IPNet list \<Rightarrow> handler Route \<Rightarrow> handler list" where
  "buildChain nets rt = [meta_handler nets rt] @ Middleware rt @ [Handler rt]"

fun mount_static ::
    "(string \<times> 'f \<times> StaticOptions) list \<Rightarrow> (handler, 'f) Router \<Rightarrow> (handler, 'f) Router \<times> start_error option" where
  "mount_static [] rt = (rt, None)"
| "mount_static ((pre, fs, opts) # es) rt =
     (case HandleStaticWithOptions pre fs opts rt of
        (rt1, Some err) \<Rightarrow> (rt1, Some (StaticFailed err))
      | (rt1, None) \<Rightarrow> mount_static es rt1)"

fun mount_routes ::
    "IPNet list \<Rightarrow> handler Route list \<Rightarrow> (handler, 'f) Router \<Rightarrow> (handler, 'f) Router \<times> start_error option" where
  "mount_routes nets [] rt = (rt, None)"
| "mount_routes nets (r # rs) rt =
     (case Handle (Method r) (Path r) (buildChain nets r) rt of
        (rt1, Some err) \<Rightarrow> (rt1, Some (RouteFailed (Method r) (Path r) err))
      | (rt1, None) \<Rightarrow> mount_routes nets rs rt1)"

fun mount_groups ::
    "IPNet list \<Rightarrow> (string \<times> handler group_cmd list) list \<Rightarrow> (handler, 'f) Router \<Rightarrow> (handler, 'f) Router \<times> start_error option" where
  "mount_groups nets [] rt = (rt, None)"
| "mount_groups nets ((pre, fn) # gs) rt =
     (case group_routes pre fn of
        None \<Rightarrow> (rt, Some GroupPanicked)
      | Some rs \<Rightarrow>
          (case mount_routes nets rs rt of
             (rt1, Some err) \<Rightarrow> (rt1, Some err)
           | (rt1, None) \<Rightarrow> mount_groups nets gs rt1))"

text \<open>\<open>hasRoute\<close>: the path as it was written, whatever the method; \<open>None\<close> is a panic of a callback.\<close>

fun groups_have :: "string \<Rightarrow> (string \<times> handler group_cmd list) list \<Rightarrow> bool option" where
  "groups_have path [] = Some False"
| "groups_have path ((pre, fn) # gs) =
     (case group_routes pre fn of
        None \<Rightarrow> None
      | Some rs \<Rightarrow> if list_ex (\<lambda>r. Path r = path) rs then Some True else groups_have path gs)"

definition hasRoute :: "string \<Rightarrow> ('f, 't) Server \<Rightarrow> bool option" where
  "hasRoute path s =
     (if list_ex (\<lambda>r. Path r = path) (routes s) then Some True else groups_have path (routeGroups s))"

fun mount_probes ::
    "('f, 't) Server \<Rightarrow> (string \<times> handler) list \<Rightarrow> (handler, 'f) Router \<Rightarrow> (handler, 'f) Router \<times> start_error option" where
  "mount_probes s [] rt = (rt, None)"
| "mount_probes s ((path, h) # ps) rt =
     (case hasRoute path s of
        None \<Rightarrow> (rt, Some ProbeCheckPanicked)
      | Some True \<Rightarrow> mount_probes s ps rt
      | Some False \<Rightarrow>
          (case Handle ''GET'' path [h] rt of
             (rt1, Some err) \<Rightarrow> (rt1, Some (ProbeFailed err))
           | (rt1, None) \<Rightarrow> mount_probes s ps rt1))"

text \<open>All of it; \<open>probes\<close> are the three handlers made by \<open>healthHandler\<close>.\<close>

definition mount_all ::
    "handler \<times> handler \<times> handler \<Rightarrow> ('f, 't) Server \<Rightarrow> (handler, 'f) Router \<Rightarrow> (handler, 'f) Router \<times> start_error option" where
  "mount_all probes s rt =
     (case mount_static (staticEntries s) rt of
        (rt1, Some e) \<Rightarrow> (rt1, Some e)
      | (rt1, None) \<Rightarrow>
          (case mount_routes (trustedNets (config s)) (routes s) rt1 of
             (rt2, Some e) \<Rightarrow> (rt2, Some e)
           | (rt2, None) \<Rightarrow>
               (case mount_groups (trustedNets (config s)) (routeGroups s) rt2 of
                  (rt3, Some e) \<Rightarrow> (rt3, Some e)
                | (rt3, None) \<Rightarrow>
                    (case probes of (health, live, ready) \<Rightarrow>
                       mount_probes s [(HealthPath (config s), health), (LivenessPath (config s), live),
                         (ReadinessPath (config s), ready)] rt3))))"

subsection \<open>Built-in middlewares\<close>

text \<open>\<open>registerBuiltinMiddleware\<close>: one registration and one switch per key, in the order of the source.\<close>

definition builtin_switch :: "string \<Rightarrow> bool \<Rightarrow> 'f middleware_value Manager \<Rightarrow> 'f middleware_value Manager" where
  "builtin_switch key on m =
     (let m1 = RegisterBuiltin key (Builtin key) m in if on then m1 else Disable [key] m1)"

definition registerBuiltinMiddleware :: "('f, 't) Server \<Rightarrow> 'f middleware_value Manager" where
  "registerBuiltinMiddleware s =
     (let c = config s;
          m = builtin_switch ''recovery'' (MiddlewareRecovery c) (mwManager s);
          m = builtin_switch ''request_id'' (MiddlewareRequestID c) m;
          m = builtin_switch ''body_limit'' (\<not> MaxBodyBytes c \<le> 0) m;
          m = builtin_switch ''concurrency_limit'' (\<not> maxConcurrent s \<le> 0) m;
          m = builtin_switch ''timeout'' (MiddlewareTimeout c) m;
          m = builtin_switch ''cors'' (MiddlewareCORS c) m;
          m = builtin_switch ''validation'' (MiddlewareValidation c) m;
          m = builtin_switch ''security'' (MiddlewareSecurity c) m;
          m = builtin_switch ''gzip'' (MiddlewareGzip c) m;
          m = builtin_switch ''metrics'' (MiddlewareMetrics c) m
      in builtin_switch ''access_log'' (AccessLogEnabled c) m)"

subsection \<open>Start\<close>

text \<open>What \<open>Start\<close> asks its surroundings.\<close>

record start_env =
  env_cidr :: "string \<Rightarrow> IPNet option"
  env_ip :: "string \<Rightarrow> 8 word list option"
  env_stat :: "string \<Rightarrow> file_state"
  env_pair :: "string \<Rightarrow> string \<Rightarrow> bool"
  env_unix_ok :: bool
  env_fallbacks :: "(string, string) gomap \<Rightarrow> handler \<times> handler"
  env_probes :: "handler \<times> handler \<times> handler"

definition needTLS :: "('f, 't) Server \<Rightarrow> bool" where
  "needTLS s \<longleftrightarrow> (httpEnabled s \<and> httpTLS s) \<or> http3Enabled s"

text \<open>
  The result is the server, the router and the global chain when everything before the
  listeners succeeded, and the error otherwise.
\<close>

definition Start ::
    "start_env \<Rightarrow> ('f, 't) Server \<Rightarrow> ('f, 't) Server \<times> (start_error + (handler, 'f) Router \<times> 'f middleware_value list)" where
  "Start env s0 =
     (if started s0 then (s0, Inl AlreadyStarted)
      else let s = s0\<lparr>started := True\<rparr> in
        if \<not> logger s then (s, Inl NoLogger)
        else if \<not> httpEnabled s \<and> \<not> http3Enabled s \<and> \<not> unixEnabled s then (s, Inl NoListener)
        else case (if needTLS s then validateTLSConfig (env_stat env) (env_pair env) (config s) else None) of
          Some e \<Rightarrow> (s, Inl (ConfigFailed e))
        | None \<Rightarrow>
            (case Validate (env_cidr env) (env_ip env) (config s) of
               (cfg, Some e) \<Rightarrow> (s\<lparr>config := cfg\<rparr>, Inl (ConfigFailed e))
             | (cfg, None) \<Rightarrow>
                 (let s1 = s\<lparr>config := cfg\<rparr>;
                      msgs = mergeErrorMessages s1;
                      s2 = s1\<lparr>rateLimiter := map_option (apfst (rl_SetRejectMessage
                               (case map_of msgs ''rate_limited'' of None \<Rightarrow> [] | Some m \<Rightarrow> m))) (rateLimiter s1)\<rparr>
                  in if unixEnabled s2 \<and> \<not> env_unix_ok env then (s2, Inl UnixUnsupported)
                     else (let m = registerBuiltinMiddleware s2;
                               m = (if mwOrder s2 \<noteq> [] then SetOrder (mwOrder s2) m else m);
                               s3 = s2\<lparr>mwManager := m,
                                        rateLimiter := map_option (apfst (rl_SetMetricsSink (metricsSink s2 \<noteq> None))) (rateLimiter s2)\<rparr>;
                               (nr, nm) = env_fallbacks env msgs;
                               rt = SetMaxBodyBytes (MaxBodyBytes (config s3)) (NewRouter nr nm)
                           in case mount_all (env_probes env) s3 rt of
                                (rt', Some e) \<Rightarrow> (s3, Inl e)
                              | (rt', None) \<Rightarrow> (s3, Inr (rt', Build m))))))"

subsection \<open>Starting once\<close>

text \<open>A server starts at most once: whatever the first \<open>Start\<close> returned, an error included,
  the server counts as started, and every later \<open>Start\<close> fails without changing it.\<close>

theorem start_once:
  "started (fst (Start env s)) \<and> Start env' (fst (Start env s)) = (fst (Start env s), Inl AlreadyStarted)"
proof -
  have "started (fst (Start env s))"
    by (simp add: Start_def Let_def split: option.split prod.split)
  then show ?thesis by (simp add: Start_def)
qed

subsection \<open>Which middlewares run\<close>

definition builtin_flag :: "('f, 't) Server \<Rightarrow> string \<Rightarrow> bool" where
  "builtin_flag s key =
     (let c = config s in
      the (map_of [(''recovery'', MiddlewareRecovery c), (''request_id'', MiddlewareRequestID c),
        (''body_limit'', \<not> MaxBodyBytes c \<le> 0), (''concurrency_limit'', \<not> maxConcurrent s \<le> 0),
        (''timeout'', MiddlewareTimeout c), (''cors'', MiddlewareCORS c),
        (''validation'', MiddlewareValidation c), (''security'', MiddlewareSecurity c),
        (''gzip'', MiddlewareGzip c), (''metrics'', MiddlewareMetrics c), (''access_log'', AccessLogEnabled c)] key))"

definition builtin_keys :: "string list" where
  "builtin_keys = filter (\<lambda>k. k \<noteq> ''rate_limit'') (order (NewManager :: unit Manager))"

lemma disabled_builtin_switch:
  "(k \<in> set (disabled (builtin_switch key on m))) = (k \<in> set (disabled m) \<or> (k = key \<and> \<not> on))"
  by (auto simp: builtin_switch_def Let_def manager_defs)

lemma overrides_builtin_switch: "overrides (builtin_switch key on m) = overrides m"
  by (simp add: builtin_switch_def Let_def manager_defs)

lemma effective_builtin_switch:
  "effective (builtin_switch key on m) k =
     (if k = key then
        (if on \<and> k \<notin> set (disabled m)
         then Some (case map_of (overrides m) k of Some h \<Rightarrow> h | None \<Rightarrow> Builtin key) else None)
      else effective m k)"
  by (auto simp: builtin_switch_def effective_def Let_def manager_defs split: option.split)

lemmas builtin_switch_simps = disabled_builtin_switch overrides_builtin_switch effective_builtin_switch

text \<open>The configuration decides: after \<open>registerBuiltinMiddleware\<close> a built-in middleware takes
  part in the chain exactly when its switch in the configuration is on and nobody disabled
  it; its handler is the user's override if there is one. Enabling a middleware in code
  cannot bring back one that the configuration switches off.\<close>

theorem builtin_follows_config:
  "list_all (\<lambda>key. effective (registerBuiltinMiddleware s) key =
      (if builtin_flag s key \<and> key \<notin> set (disabled (mwManager s))
       then Some (case map_of (overrides (mwManager s)) key of Some h \<Rightarrow> h | None \<Rightarrow> Builtin key)
       else None)) builtin_keys"
proof -
  have keys: "builtin_keys = [''recovery'', ''request_id'', ''body_limit'', ''concurrency_limit'', ''timeout'',
      ''cors'', ''validation'', ''security'', ''gzip'', ''metrics'', ''access_log'']"
    by (simp add: builtin_keys_def NewManager_def)
  show ?thesis
    unfolding keys list.pred_inject
    by (intro conjI; simp add: registerBuiltinMiddleware_def builtin_switch_simps builtin_flag_def Let_def)
qed

subsection \<open>What is mounted stays served\<close>

definition mounted :: "IPNet list \<Rightarrow> (handler, 'f) Router \<Rightarrow> handler Route \<Rightarrow> bool" where
  "mounted nets rt r \<longleftrightarrow> stored_pattern rt (pattern_segments (Path r)) (Method r)
     (ChainHandler (buildChain nets r) (pattern_names (Path r)))"

lemma mounted_Handle: "mounted nets rt r \<Longrightarrow> mounted nets (fst (Handle m path chain rt)) r"
  using Handle_pattern unfolding mounted_def by blast

lemma mounted_new:
  "wf_root (root rt) \<Longrightarrow> Handle (Method r) (Path r) (buildChain nets r) rt = (rt1, None) \<Longrightarrow> mounted nets rt1 r"
  unfolding mounted_def by (rule Handle_pattern_stored)

lemma mount_routes_mounted:
  "mount_routes nets rs rt = (rt', None) \<Longrightarrow> wf_root (root rt) \<Longrightarrow>
   wf_root (root rt') \<and> (\<forall>r. mounted nets rt r \<longrightarrow> mounted nets rt' r) \<and> (\<forall>r \<in> set rs. mounted nets rt' r)"
proof (induction rs arbitrary: rt)
  case (Cons r rs)
  then obtain rt1 where h: "Handle (Method r) (Path r) (buildChain nets r) rt = (rt1, None)"
    and rest: "mount_routes nets rs rt1 = (rt', None)" by (auto split: prod.splits option.splits)
  have "wf_root (root rt1)" using Handle_wf [OF Cons.prems(2)] h by (metis fst_conv)
  with Cons.IH [OF rest] mounted_new [OF Cons.prems(2) h] mounted_Handle [of nets rt] h
  show ?case by (metis fst_conv set_ConsD)
qed simp

lemma mount_groups_mounted:
  "mount_groups nets gs rt = (rt', None) \<Longrightarrow> wf_root (root rt) \<Longrightarrow>
   wf_root (root rt') \<and> (\<forall>r. mounted nets rt r \<longrightarrow> mounted nets rt' r)
   \<and> (\<forall>(pre, fn) \<in> set gs. \<exists>rs. group_routes pre fn = Some rs \<and> (\<forall>r \<in> set rs. mounted nets rt' r))"
proof (induction gs arbitrary: rt)
  case (Cons g gs)
  obtain pre fn where g: "g = (pre, fn)" by (cases g)
  with Cons.prems obtain rs rt1 where rs: "group_routes pre fn = Some rs"
    and m: "mount_routes nets rs rt = (rt1, None)" and rest: "mount_groups nets gs rt1 = (rt', None)"
    by (auto split: prod.splits option.splits)
  note m1 = mount_routes_mounted [OF m Cons.prems(2)]
  with Cons.IH [OF rest] have "wf_root (root rt') \<and> (\<forall>r. mounted nets rt1 r \<longrightarrow> mounted nets rt' r)
    \<and> (\<forall>(pre, fn) \<in> set gs. \<exists>rs. group_routes pre fn = Some rs \<and> (\<forall>r \<in> set rs. mounted nets rt' r))" by blast
  with m1 rs g show ?case by fastforce
qed simp

lemma mount_probes_mounted:
  "mount_probes s ps rt = (rt', None) \<Longrightarrow> mounted nets rt r \<Longrightarrow> mounted nets rt' r"
proof (induction s ps rt rule: mount_probes.induct)
  case (2 s path h ps rt)
  then show ?case
    using mounted_Handle [of nets rt r "''GET''" path "[h]"]
    by (auto split: option.splits bool.splits prod.splits)
qed simp

lemma mount_static_wf:
  "mount_static es rt = (rt', None) \<Longrightarrow> wf_root (root rt) \<Longrightarrow> wf_root (root rt')"
proof (induction es rt rule: mount_static.induct)
  case (2 pre fs opts es rt)
  then show ?case
    using HandleStatic_wf [of rt pre fs opts] by (auto split: prod.splits option.splits)
qed simp

lemma mount_all_mounted:
  assumes "mount_all probes s rt = (rt', None)" and "wf_root (root rt)"
  shows "(\<forall>r \<in> set (routes s). mounted (trustedNets (config s)) rt' r)
    \<and> (\<forall>(pre, fn) \<in> set (routeGroups s). \<exists>rs. group_routes pre fn = Some rs
         \<and> (\<forall>r \<in> set rs. mounted (trustedNets (config s)) rt' r))"
proof -
  obtain h l d where probes: "probes = (h, l, d)" by (cases probes)
  from assms(1) obtain rt1 rt2 rt3 where
    m1: "mount_static (staticEntries s) rt = (rt1, None)"
    and m2: "mount_routes (trustedNets (config s)) (routes s) rt1 = (rt2, None)"
    and m3: "mount_groups (trustedNets (config s)) (routeGroups s) rt2 = (rt3, None)"
    and m4: "mount_probes s [(HealthPath (config s), h), (LivenessPath (config s), l), (ReadinessPath (config s), d)] rt3 = (rt', None)"
    by (auto simp: mount_all_def probes split: prod.splits option.splits)
  note w1 = mount_static_wf [OF m1 assms(2)]
  note w2 = mount_routes_mounted [OF m2 w1]
  note w3 = mount_groups_mounted [OF m3 conjunct1 [OF w2]]
  from w2 w3 mount_probes_mounted [OF m4, of "trustedNets (config s)"] show ?thesis by fastforce
qed

text \<open>The routes of a server: those registered directly and those of its groups.\<close>

definition all_routes :: "('f, 't) Server \<Rightarrow> handler Route list" where
  "all_routes s = routes s
     @ concat (map (\<lambda>(pre, fn). case group_routes pre fn of None \<Rightarrow> [] | Some rs \<Rightarrow> rs) (routeGroups s))"

lemma Start_mounts:
  assumes "Start env s = (s', Inr (rt, chain))"
  obtains rt0 where "mount_all (env_probes env) s' rt0 = (rt, None)" and "root rt0 = None"
    and "routes s' = routes s" and "routeGroups s' = routeGroups s"
proof -
  from assms have "\<exists>rt0. mount_all (env_probes env) s' rt0 = (rt, None) \<and> root rt0 = None
      \<and> routes s' = routes s \<and> routeGroups s' = routeGroups s"
    by (auto simp: Start_def Let_def NewRouter_def SetMaxBodyBytes_def split: if_splits option.splits prod.splits)
  then show ?thesis using that by blast
qed

lemma started_mounted:
  assumes "Start env s = (s', Inr (rt, chain))" and "r \<in> set (all_routes s)"
  shows "mounted (trustedNets (config s')) rt r"
proof -
  from Start_mounts [OF assms(1)] obtain rt0 where
    m: "mount_all (env_probes env) s' rt0 = (rt, None)" "root rt0 = None"
    and same: "routes s' = routes s" "routeGroups s' = routeGroups s" by metis
  from mount_all_mounted [OF m(1)] m(2) show ?thesis
    using assms(2) same by (fastforce simp: wf_root_def all_routes_def)
qed

lemma literal_pattern:
  assumes "list_all clean_literal ls"
  shows "pattern_segments (path_of ls) = map literal_segment ls" "pattern_names (path_of ls) = []"
proof -
  have render: "render_gin (map literal_segment ls) = path_of ls" "param_names (map literal_segment ls) = []"
    by (induction ls) (simp_all add: render_gin_segment_def literal_segment_def)
  have "\<not> list_ex s_wildcard (butlast (map literal_segment ls))"
    by (simp add: map_butlast [symmetric] list_ex_iff literal_segment_def)
  moreover have "list_all clean_segment (map literal_segment ls)"
    using assms by (simp add: list_all_iff clean_segment_def literal_segment_def)
  ultimately have "clean_pattern (map literal_segment ls)" by (simp add: clean_pattern_def)
  from pattern_clean [OF this] render show "pattern_segments (path_of ls) = map literal_segment ls" "pattern_names (path_of ls) = []"
    by simp_all
qed

lemma started_serves:
  assumes "Start env s = (s', Inr (rt, chain))" and "r \<in> set (all_routes s)"
    and "Path r = path_of ls" and "ls \<noteq> []" and "list_all path_value ls" and "list_all clean_literal ls"
  shows "serve rt (Method r) (Path r) = Dispatch (ChainHandler (buildChain (trustedNets (config s')) r) []) []"
proof -
  from started_mounted [OF assms(1,2)] have st:
    "stored_pattern rt (map literal_segment ls) (Method r) (ChainHandler (buildChain (trustedNets (config s')) r) [])"
    unfolding mounted_def assms(3) literal_pattern [OF assms(6)] .
  then obtain t where t: "root rt = Some t" unfolding stored_pattern_def by blast
  obtain x where "node_at (map Lit ls) t = Some x" by (rule stored_literals [OF st t])
  note lit = literals_unshadowed [OF this]
  from stored_pattern_serve [OF st t lit(1) assms(5)] lit(2,3) assms(3,4) show ?thesis by simp
qed


text \<open>A server with a route, a group and a static tree at the root.\<close>

definition demo_env :: start_env where
  "demo_env = \<lparr>env_cidr = (\<lambda>_. None), env_ip = (\<lambda>_. None), env_stat = (\<lambda>_. Regular), env_pair = (\<lambda>_ _. True),
     env_unix_ok = True, env_fallbacks = (\<lambda>_. (Return, Return)), env_probes = (Return, Return, Return)\<rparr>"

definition demo_route :: "handler Route" where
  "demo_route = \<lparr>Method = ''GET'', Path = ''/ping'', Handler = Do (OpString 200 ''pong'') Return,
     Middleware = [], Group_of = []\<rparr>"

definition demo_server :: "(nat, nat) Server" where
  "demo_server = fold server_call
     [Call_UseHttp1or2Listen '':80'' False, Call_RegisterRoute demo_route,
      Call_RegisterRouteGroup ''/api'' [CallRegister 0 ''GET'' ''/users/:id'' (Do (OpString 200 ''user'') Return) []],
      Call_ServeStaticFSWithOptions ''/'' 7 \<lparr>MaxAge = 0, DisableIndex = False, EnableETag = False\<rparr>]
     (NewServer zero_config True)"

definition started_demo :: "(nat, nat) Server \<times> (start_error + (handler, nat) Router \<times> nat middleware_value list)" where
  "started_demo = Start demo_env demo_server"

definition user_route :: "handler Route" where
  "user_route = \<lparr>Method = ''GET'', Path = ''/api/users/:id'', Handler = Do (OpString 200 ''user'') Return,
     Middleware = [], Group_of = ''/api''\<rparr>"

definition files_route :: "handler Route" where
  "files_route = demo_route\<lparr>Path := ''/files/*path''\<rparr>"

definition started_files :: "(nat, nat) Server \<times> (start_error + (handler, nat) Router \<times> nat middleware_value list)" where
  "started_files = Start demo_env (server_call (Call_RegisterRoute files_route) demo_server)"

lemma start_demo_ok:
  assumes "case st of (s', Inr (rt, chain)) \<Rightarrow> (case root rt of Some t \<Rightarrow> P t | None \<Rightarrow> False) | (s', Inl e) \<Rightarrow> False"
  obtains s' rt chain t where "st = (s', Inr (rt, chain))" "root rt = Some t" "P t"
proof -
  obtain s' res where st: "st = (s', res)" by (cases st)
  show thesis
  proof (cases res)
    case (Inl e)
    with assms st show ?thesis by simp
  next
    case (Inr p)
    then obtain rt chain where p: "res = Inr (rt, chain)" by (cases p) auto
    with assms st that show ?thesis by (cases "root rt") auto
  qed
qed

lemma demo_user_route: "user_route \<in> set (all_routes demo_server)"
proof -
  have group: "group_routes ''/api'' [CallRegister 0 ''GET'' ''/users/:id'' (Do (OpString 200 ''user'') Return) []] = Some [user_route]"
    by (simp add: group_routes_def callRouteGroupFn_def register_route_def new_group_def user_route_def flatten.simps)
  have "routeGroups demo_server = [(''/api'', [CallRegister 0 ''GET'' ''/users/:id'' (Do (OpString 200 ''user'') Return) []])]"
    by (simp add: demo_server_def setter_defs unless_started_def NewServer_def)
  then show ?thesis by (simp add: all_routes_def group)
qed


text \<open>The probes are skipped by the exact text of a user route: with \<open>GET /health/\<close> (the same
  position in the tree, written with a slash) the server does not start at all, and with a
  \<open>POST /health\<close> route the health endpoint silently answers GET with 405.\<close>

theorem probe_paths_compared_as_text:
  "(case snd (Start demo_env (server_call (Call_RegisterRoute (demo_route\<lparr>Path := ''/health/''\<rparr>)) demo_server)) of
      Inl (ProbeFailed (RouteDuplicate m)) \<Rightarrow> m = ''GET'' | _ \<Rightarrow> False)
   \<and> (case snd (Start demo_env (server_call (Call_RegisterRoute (demo_route\<lparr>Method := ''POST'', Path := ''/health''\<rparr>)) demo_server)) of
      Inr (rt, chain) \<Rightarrow>
        (case serve rt ''GET'' ''/health'' of MethodNotAllowed405 allow \<Rightarrow> allow = ''POST'' | _ \<Rightarrow> False)
    | Inl _ \<Rightarrow> False)"
  by (rule conjI; code_simp)

end
