(* ===== verification/Lifecycle.thy ===== *)
theory Lifecycle
  imports Listeners ServerStart
begin

text \<open>
  Shutdown: \<open>graceful.go\<close> and the listener part of \<open>Start\<close> and the \<open>Stop\<close> side of
  \<open>server.go\<close>. First what one shutdown does, as the list of its calls and of the errors it
  joins; then the concurrent life of a server, a step relation over the goroutine of
  \<open>Start\<close>, the goroutines that serve, any number of callers of \<open>Stop\<close> and the goroutine of
  \<open>waitSignal\<close>, which meet in \<open>shutdownOnce\<close>.

  Servers, listeners and cleanup functions are numbers.
\<close>

subsection \<open>One shutdown\<close>

datatype action =
    ShutdownServer nat
  | ForceClose nat
  | CloseListener nat
  | RemoveSocket string
  | RunCleanup nat
  | CloseQUIC nat
  | Drain int
  | CloseHTTP3 nat

datatype shutdown_error = DrainFailed nat | CloseFailed nat | ListenerFailed nat | SocketNotRemoved

datatype close_result = Closed_ok | Already_closed | Close_error

text \<open>The results of the calls.\<close>

record shutdown_env =
  drains :: "nat \<Rightarrow> bool"
  force_close :: "nat \<Rightarrow> close_result"
  close_listener :: "nat \<Rightarrow> close_result"
  remove_socket :: removal

type_synonym outcome = "action list \<times> shutdown_error list"

fun servers_loop :: "shutdown_env \<Rightarrow> nat option list \<Rightarrow> outcome" where
  "servers_loop env [] = ([], [])"
| "servers_loop env (None # ss) = servers_loop env ss"
| "servers_loop env (Some i # ss) =
     (case servers_loop env ss of (acts, errs) \<Rightarrow>
        (if drains env i then (ShutdownServer i # acts, errs)
         else (ShutdownServer i # ForceClose i # acts,
               DrainFailed i # (if force_close env i = Close_error then [CloseFailed i] else []) @ errs)))"

fun listeners_loop :: "shutdown_env \<Rightarrow> nat option list \<Rightarrow> outcome" where
  "listeners_loop env [] = ([], [])"
| "listeners_loop env (None # ls) = listeners_loop env ls"
| "listeners_loop env (Some l # ls) =
     (case listeners_loop env ls of (acts, errs) \<Rightarrow>
        (CloseListener l # acts, (if close_listener env l = Close_error then [ListenerFailed l] else []) @ errs))"

definition socket_part :: "shutdown_env \<Rightarrow> string \<Rightarrow> outcome" where
  "socket_part env path =
     (if path = [] then ([], [])
      else ([RemoveSocket path], if remove_socket env = RemoveError then [SocketNotRemoved] else []))"

fun cleanup_part :: "nat option list \<Rightarrow> action list" where
  "cleanup_part [] = []"
| "cleanup_part (None # fs) = cleanup_part fs"
| "cleanup_part (Some f # fs) = RunCleanup f # cleanup_part fs"

definition shutdownServers ::
    "shutdown_env \<Rightarrow> nat option list \<Rightarrow> nat option list \<Rightarrow> string \<Rightarrow> nat option list \<Rightarrow> outcome" where
  "shutdownServers env servers listeners unixPath cleanups =
     (case servers_loop env servers of (a1, e1) \<Rightarrow>
        (case listeners_loop env listeners of (a2, e2) \<Rightarrow>
           (case socket_part env unixPath of (a3, e3) \<Rightarrow>
              (a1 @ a2 @ a3 @ cleanup_part cleanups, e1 @ e2 @ e3))))"

text \<open>\<open>gracefulShutdown\<close> on its own: woken by a signal or by the end of its context.\<close>

datatype wake = GotSignal | ContextDone

definition gracefulShutdown ::
    "wake \<Rightarrow> shutdown_env \<Rightarrow> nat option list \<Rightarrow> nat option list \<Rightarrow> string \<Rightarrow> nat option list \<Rightarrow> action list \<times> bool" where
  "gracefulShutdown w env servers listeners unixPath cleanups =
     (case w of
        GotSignal \<Rightarrow> (fst (shutdownServers env servers listeners unixPath cleanups), True)
      | ContextDone \<Rightarrow> ([], False))"

definition GracefulShutdown ::
    "wake \<Rightarrow> shutdown_env \<Rightarrow> nat option \<Rightarrow> nat option \<Rightarrow> string \<Rightarrow> nat option list \<Rightarrow> action list \<times> bool" where
  "GracefulShutdown w env srv ln unixPath cleanups = gracefulShutdown w env [srv] [ln] unixPath cleanups"

text \<open>What the server has registered under \<open>listenersMu\<close>.\<close>

record registry =
  httpServers :: "nat list"
  listeners :: "nat list"
  quicListeners :: "nat list"
  http3Servers :: "nat list"

definition no_registry :: registry where
  "no_registry = \<lparr>httpServers = [], listeners = [], quicListeners = [], http3Servers = []\<rparr>"

text \<open>A goroutine of \<open>Start\<close> that serves: a server on a listener, or the loop of \<open>serveHTTP3\<close> on one.\<close>

datatype service = HttpService nat nat | Http3Service nat

text \<open>The settings \<open>shutdownAll\<close> reads: the socket path is empty without a Unix listener. \<open>may_fail\<close> is the
  environment: which services can end by an error of their own.\<close>

record shutdown_conf =
  sc_env :: shutdown_env
  unix_path :: string
  cleanups :: "nat option list"
  quic_drain :: int
  may_fail :: "service \<Rightarrow> bool"

definition shutdown_conf_of :: "shutdown_env \<Rightarrow> (service \<Rightarrow> bool) \<Rightarrow> nat option list \<Rightarrow> ('f, 't) Server \<Rightarrow> shutdown_conf" where
  "shutdown_conf_of env fails fs s =
     \<lparr>sc_env = env, unix_path = (if unixEnabled s \<and> unixSocketPath s \<noteq> [] then unixSocketPath s else []),
      cleanups = fs, quic_drain = QUICDrainTimeout (config s), may_fail = fails\<rparr>"

definition shutdown_calls :: "shutdown_conf \<Rightarrow> registry \<Rightarrow> outcome" where
  "shutdown_calls cf r =
     (case shutdownServers (sc_env cf) (map Some (httpServers r)) (map Some (listeners r)) (unix_path cf) (cleanups cf) of
        (acts, errs) \<Rightarrow>
          (acts @ map CloseQUIC (quicListeners r)
             @ (if quic_drain cf > 0 then [Drain (quic_drain cf)] else [])
             @ map CloseHTTP3 (http3Servers r), errs))"

abbreviation calls_of :: "shutdown_conf \<Rightarrow> registry \<Rightarrow> action list" where
  "calls_of cf r \<equiv> fst (shutdown_calls cf r)"

subsection \<open>The listener part of Start\<close>

text \<open>One entry per critical section of the goroutine of \<open>Start\<close>; registering a server also
  starts the goroutine that serves it.\<close>

datatype boot_op =
    MakeSignalCtx
  | AddListener nat
  | AddHTTPServer nat nat
  | AddQUICListener nat
  | AddHTTP3Server nat nat
  | SpawnWaiter

fun register :: "boot_op \<Rightarrow> registry \<Rightarrow> registry" where
  "register (AddListener l) r = r\<lparr>listeners := listeners r @ [l]\<rparr>"
| "register (AddHTTPServer i l) r = r\<lparr>httpServers := httpServers r @ [i]\<rparr>"
| "register (AddQUICListener q) r = r\<lparr>quicListeners := quicListeners r @ [q]\<rparr>"
| "register (AddHTTP3Server i q) r = r\<lparr>http3Servers := http3Servers r @ [i]\<rparr>"
| "register _ r = r"

text \<open>The results of creating the listeners.\<close>

record listen_env =
  tcp_result :: "listen_error + nat"
  quic_result :: "listen_error + nat"
  unix_result :: "listen_error + nat"

definition open_http :: "listen_env \<Rightarrow> ('f, 't) Server \<Rightarrow> boot_op list \<times> listen_error option" where
  "open_http env s =
     (if \<not> httpEnabled s then ([], None)
      else (case tcp_result env of Inl e \<Rightarrow> ([], Some e) | Inr ln \<Rightarrow> ([AddListener ln, AddHTTPServer 0 ln], None)))"

definition open_http3 :: "listen_env \<Rightarrow> ('f, 't) Server \<Rightarrow> boot_op list \<times> listen_error option" where
  "open_http3 env s =
     (if \<not> http3Enabled s then ([], None)
      else (case quic_result env of Inl e \<Rightarrow> ([], Some e) | Inr q \<Rightarrow> ([AddQUICListener q, AddHTTP3Server 0 q], None)))"

definition open_unix :: "listen_env \<Rightarrow> ('f, 't) Server \<Rightarrow> boot_op list \<times> listen_error option" where
  "open_unix env s =
     (if \<not> unixEnabled s then ([], None)
      else (case unix_result env of Inl e \<Rightarrow> ([], Some e) | Inr ln \<Rightarrow> ([AddListener ln, AddHTTPServer 1 ln], None)))"

definition closeListeners :: "registry \<Rightarrow> action list" where
  "closeListeners r = map CloseListener (listeners r) @ map CloseQUIC (quicListeners r) @ map CloseHTTP3 (http3Servers r)"

definition cancelCleanup :: "nat option list \<Rightarrow> action list" where
  "cancelCleanup fs = cleanup_part fs"

text \<open>The operations of \<open>Start\<close> on the registry up to an error, and the calls that undo them.\<close>

definition start_listening ::
    "listen_env \<Rightarrow> nat option list \<Rightarrow> ('f, 't) Server \<Rightarrow> boot_op list \<times> (action list \<times> listen_error) option" where
  "start_listening env fs s =
     (let undo = (\<lambda>ops e. (ops, Some (closeListeners (fold register ops no_registry) @ cancelCleanup fs, e)))
      in case open_http env s of
           (o1, Some e) \<Rightarrow> undo o1 e
         | (o1, None) \<Rightarrow>
             (case open_http3 env s of
                (o2, Some e) \<Rightarrow> undo (o1 @ o2) e
              | (o2, None) \<Rightarrow>
                  (case open_unix env s of
                     (o3, Some e) \<Rightarrow> undo (o1 @ o2 @ o3) e
                   | (o3, None) \<Rightarrow> (o1 @ o2 @ o3 @ [SpawnWaiter], None))))"

subsection \<open>The life of a server\<close>

text \<open>
  A caller is \<open>Ready\<close> before \<open>shutdownOnce.Do\<close>; the one that enters it cancels the signal
  context, copies the registry, and makes the calls for its copy one by one; a caller that
  comes meanwhile is \<open>Blocked\<close>. \<open>Returned\<close> carries the joined errors. The goroutine of
  \<open>waitSignal\<close> awaits a signal or the end of the signal context.
\<close>

datatype caller =
    AwaitSignal
  | Ready
  | Blocked
  | Cancelling
  | Copying
  | Executing registry nat
  | Returned "shutdown_error list"

datatype once = Fresh | InProgress | Finished

record life =
  boot :: "boot_op list"
  reg :: registry
  signal_ctx :: "bool option"
  shutting :: bool
  shutdown_once :: once
  callers :: "caller list"
  calls :: "action list"
  serving :: "service list"
  start_returned :: bool

fun serves :: "boot_op \<Rightarrow> service list" where
  "serves (AddHTTPServer i l) = [HttpService i l]"
| "serves (AddHTTP3Server i q) = [Http3Service q]"
| "serves _ = []"

definition apply_boot :: "boot_op \<Rightarrow> life \<Rightarrow> life" where
  "apply_boot b s =
     s\<lparr>reg := register b (reg s), serving := serving s @ serves b,
       signal_ctx := (if b = MakeSignalCtx then Some False else signal_ctx s),
       callers := callers s @ (if b = SpawnWaiter then [AwaitSignal] else [])\<rparr>"

text \<open>\<open>Serve\<close> returns once its server is shut down or its listener closed, at the beginning of the
  shutdown of the server, not at its end; or else it fails, which is only logged.\<close>

fun ends :: "action list \<Rightarrow> service \<Rightarrow> bool" where
  "ends acts (HttpService i l) = (ShutdownServer i \<in> set acts \<or> CloseListener l \<in> set acts)"
| "ends acts (Http3Service q) = (CloseQUIC q \<in> set acts)"

inductive life_step :: "shutdown_conf \<Rightarrow> life \<Rightarrow> life \<Rightarrow> bool" for cf :: shutdown_conf where
  boot: "boot s = b # bs \<Longrightarrow> life_step cf s (apply_boot b (s\<lparr>boot := bs\<rparr>))"
| signal: "callers s = xs @ AwaitSignal # ys \<Longrightarrow> life_step cf s (s\<lparr>callers := xs @ Ready # ys\<rparr>)"
| cancelled: "callers s = xs @ AwaitSignal # ys \<Longrightarrow> signal_ctx s = Some True \<Longrightarrow>
    life_step cf s (s\<lparr>callers := xs @ Returned [] # ys\<rparr>)"
| enter: "callers s = xs @ Ready # ys \<Longrightarrow> shutdown_once s = Fresh \<Longrightarrow>
    life_step cf s (s\<lparr>callers := xs @ Cancelling # ys, shutdown_once := InProgress, shutting := True\<rparr>)"
| block: "callers s = xs @ Ready # ys \<Longrightarrow> shutdown_once s = InProgress \<Longrightarrow>
    life_step cf s (s\<lparr>callers := xs @ Blocked # ys\<rparr>)"
| late: "callers s = xs @ Ready # ys \<Longrightarrow> shutdown_once s = Finished \<Longrightarrow>
    life_step cf s (s\<lparr>callers := xs @ Returned [] # ys\<rparr>)"
| unblock: "callers s = xs @ Blocked # ys \<Longrightarrow> shutdown_once s = Finished \<Longrightarrow>
    life_step cf s (s\<lparr>callers := xs @ Returned [] # ys\<rparr>)"
| cancel: "callers s = xs @ Cancelling # ys \<Longrightarrow>
    life_step cf s (s\<lparr>callers := xs @ Copying # ys, signal_ctx := map_option (\<lambda>_. True) (signal_ctx s)\<rparr>)"
| copy: "callers s = xs @ Copying # ys \<Longrightarrow>
    life_step cf s (s\<lparr>callers := xs @ Executing (reg s) 0 # ys\<rparr>)"
| call: "callers s = xs @ Executing r n # ys \<Longrightarrow> n < length (calls_of cf r) \<Longrightarrow>
    life_step cf s (s\<lparr>callers := xs @ Executing r (Suc n) # ys, calls := calls s @ [calls_of cf r ! n]\<rparr>)"
| finish: "callers s = xs @ Executing r n # ys \<Longrightarrow> n = length (calls_of cf r) \<Longrightarrow>
    life_step cf s (s\<lparr>callers := xs @ Returned (snd (shutdown_calls cf r)) # ys, shutdown_once := Finished\<rparr>)"
| served: "serving s = xs @ v # ys \<Longrightarrow> ends (calls s) v \<Longrightarrow> life_step cf s (s\<lparr>serving := xs @ ys\<rparr>)"
| failed: "serving s = xs @ v # ys \<Longrightarrow> may_fail cf v \<Longrightarrow> life_step cf s (s\<lparr>serving := xs @ ys\<rparr>)"
| return: "boot s = [] \<Longrightarrow> serving s = [] \<Longrightarrow> \<not> start_returned s \<Longrightarrow> life_step cf s (s\<lparr>start_returned := True\<rparr>)"

text \<open>Before anything is shut down, with \<open>n\<close> callers of \<open>Stop\<close>, at some point of \<open>Start\<close>.\<close>

definition fresh_life :: "boot_op list \<Rightarrow> nat \<Rightarrow> life" where
  "fresh_life ops n =
     \<lparr>boot = ops, reg = no_registry, signal_ctx = None, shutting = False, shutdown_once = Fresh,
      callers = replicate n Ready, calls = [], serving = [], start_returned = False\<rparr>"

definition started_life :: "boot_op list \<Rightarrow> nat \<Rightarrow> life" where
  "started_life ops n = fold apply_boot (MakeSignalCtx # ops) (fresh_life [] n)"

subsection \<open>Every run ends\<close>

lemma servers_loop_append [simp]:
  "fst (servers_loop env (xs @ ys)) = fst (servers_loop env xs) @ fst (servers_loop env ys)"
  by (induction env xs rule: servers_loop.induct) (auto split: prod.split)

lemma listeners_loop_append [simp]:
  "fst (listeners_loop env (xs @ ys)) = fst (listeners_loop env xs) @ fst (listeners_loop env ys)"
  by (induction env xs rule: listeners_loop.induct) (auto split: prod.split)

lemma calls_of_parts:
  "calls_of cf r = fst (servers_loop (sc_env cf) (map Some (httpServers r)))
     @ fst (listeners_loop (sc_env cf) (map Some (listeners r))) @ fst (socket_part (sc_env cf) (unix_path cf))
     @ cleanup_part (cleanups cf) @ map CloseQUIC (quicListeners r)
     @ (if quic_drain cf > 0 then [Drain (quic_drain cf)] else []) @ map CloseHTTP3 (http3Servers r)"
  by (simp add: shutdown_calls_def shutdownServers_def split: prod.split)

definition weight :: "shutdown_conf \<Rightarrow> life \<Rightarrow> nat" where
  "weight cf s = length (calls_of cf (fold register (boot s) (reg s)))"

fun rank :: "shutdown_conf \<Rightarrow> nat \<Rightarrow> caller \<Rightarrow> nat" where
  "rank cf w AwaitSignal = w + 6"
| "rank cf w Ready = w + 5"
| "rank cf w Blocked = 1"
| "rank cf w Cancelling = w + 4"
| "rank cf w Copying = w + 3"
| "rank cf w (Executing r n) = 2 + (length (calls_of cf r) - n)"
| "rank cf w (Returned es) = 0"

definition run_bound :: "shutdown_conf \<Rightarrow> life \<Rightarrow> nat" where
  "run_bound cf s =
     sum_list (map (rank cf (weight cf s)) (callers s)) + length (boot s) * (weight cf s + 8)
     + length (serving s) + (if start_returned s then 0 else 1)"

lemma register_grows: "length (calls_of cf r) \<le> length (calls_of cf (register b r))"
  unfolding calls_of_parts by (cases b) auto

lemma registers_grow: "length (calls_of cf r) \<le> length (calls_of cf (fold register bs r))"
proof (induction bs arbitrary: r)
  case (Cons b bs)
  from register_grows [of cf r b] Cons [of "register b r"] show ?case by simp
qed simp

lemma step_bound: "life_step cf s t \<Longrightarrow> run_bound cf t < run_bound cf s"
proof (induction rule: life_step.induct)
  case (boot s b bs)
  have "length (serves b) + (if b = SpawnWaiter then weight cf s + 6 else 0) < weight cf s + 8"
    by (cases b) simp_all
  with boot show ?case by (simp add: run_bound_def apply_boot_def weight_def)
next
  case (copy s xs ys)
  from registers_grow [of cf "reg s" "boot s"] copy show ?case by (simp add: run_bound_def weight_def)
qed (simp_all add: run_bound_def weight_def)

lemma runs_end: "(life_step cf ^^ n) s t \<Longrightarrow> n + run_bound cf t \<le> run_bound cf s"
proof (induction n arbitrary: t)
  case (Suc n)
  then obtain u where "(life_step cf ^^ n) s u" "life_step cf u t" by auto
  with Suc.IH [of u] step_bound [of cf u t] show ?case by simp
qed simp

subsection \<open>One shutdown only\<close>

fun active :: "caller \<Rightarrow> bool" where
  "active Cancelling = True"
| "active Copying = True"
| "active (Executing r n) = True"
| "active _ = False"

fun untouched :: "caller \<Rightarrow> bool" where
  "untouched AwaitSignal = True"
| "untouched Ready = True"
| "untouched _ = False"

text \<open>What the caller inside \<open>shutdownOnce\<close> has done. \<open>Q\<close> holds of the registries there are; \<open>K\<close>
  says that the signal context exists.\<close>

fun progress :: "(registry \<Rightarrow> bool) \<Rightarrow> bool \<Rightarrow> shutdown_conf \<Rightarrow> action list \<Rightarrow> bool option \<Rightarrow> caller \<Rightarrow> bool" where
  "progress Q K cf acts ctx (Executing r n) =
     (Q r \<and> n \<le> length (calls_of cf r) \<and> acts = take n (calls_of cf r) \<and> (K \<longrightarrow> ctx = Some True))"
| "progress Q K cf acts ctx Copying = (acts = [] \<and> (K \<longrightarrow> ctx = Some True))"
| "progress Q K cf acts ctx c = (acts = [])"

definition once_ok :: "(registry \<Rightarrow> bool) \<Rightarrow> bool \<Rightarrow> shutdown_conf \<Rightarrow> life \<Rightarrow> bool" where
  "once_ok Q K cf s =
     (case shutdown_once s of
        Fresh \<Rightarrow> list_all untouched (callers s) \<and> calls s = [] \<and> signal_ctx s \<noteq> Some True
      | InProgress \<Rightarrow> (\<exists>c. filter active (callers s) = [c] \<and> progress Q K cf (calls s) (signal_ctx s) c) \<and> shutting s
      | Finished \<Rightarrow> filter active (callers s) = [] \<and> shutting s \<and> (K \<longrightarrow> signal_ctx s = Some True)
          \<and> (\<exists>r. Q r \<and> calls s = calls_of cf r \<and> Returned (snd (shutdown_calls cf r)) \<in> set (callers s)))"

definition life_inv :: "(registry \<Rightarrow> bool) \<Rightarrow> bool \<Rightarrow> shutdown_conf \<Rightarrow> life \<Rightarrow> bool" where
  "life_inv Q K cf s \<longleftrightarrow>
     Q (reg s) \<and> (\<forall>b\<in>set (boot s). \<forall>r. Q r \<longrightarrow> Q (register b r))
     \<and> (K \<longrightarrow> MakeSignalCtx \<notin> set (boot s) \<and> signal_ctx s \<noteq> None) \<and> once_ok Q K cf s"

lemma untouched_inactive: "list_all untouched cs \<Longrightarrow> filter active cs = []"
proof (induction cs)
  case (Cons c cs)
  then show ?case by (cases c) auto
qed simp

lemma append_single [simp]: "(xs @ ys = [c]) = (xs = [c] \<and> ys = [] \<or> xs = [] \<and> ys = [c])"
  by (cases xs) auto

lemma once_boot:
  assumes "once_ok Q K cf s" "K \<longrightarrow> b \<noteq> MakeSignalCtx"
  shows "once_ok Q K cf (apply_boot b (s\<lparr>boot := bs\<rparr>))"
proof (cases "b = MakeSignalCtx")
  case True
  with assms(2) have "\<not> K" by simp
  have any: "progress Q False cf acts ctx c \<Longrightarrow> progress Q False cf acts (Some False) c" for acts ctx c by (cases c) auto
  from assms True \<open>\<not> K\<close> show ?thesis
    by (cases "shutdown_once s") (auto simp: once_ok_def apply_boot_def intro: any)
next
  case False
  with assms show ?thesis
    by (cases "shutdown_once s"; cases b) (auto simp: once_ok_def apply_boot_def)
qed

lemma once_step: "life_step cf s t \<Longrightarrow> life_inv Q K cf s \<Longrightarrow> once_ok Q K cf t"
proof (induction rule: life_step.induct)
  case (boot s b bs)
  then show ?case by (intro once_boot) (auto simp: life_inv_def)
next
  case (call s xs r n ys)
  then show ?case
    by (cases "shutdown_once s") (auto simp: life_inv_def once_ok_def untouched_inactive take_Suc_conv_app_nth)
next
  case (finish s xs r n ys)
  then show ?case
    by (cases "shutdown_once s") (auto simp: life_inv_def once_ok_def untouched_inactive)
qed (auto simp: life_inv_def once_ok_def untouched_inactive split: once.splits)

lemma life_inv_step: "life_step cf s t \<Longrightarrow> life_inv Q K cf s \<Longrightarrow> life_inv Q K cf t"
proof -
  assume st: "life_step cf s t" and i: "life_inv Q K cf s"
  from st i have "Q (reg t) \<and> (\<forall>b\<in>set (boot t). \<forall>r. Q r \<longrightarrow> Q (register b r))
     \<and> (K \<longrightarrow> MakeSignalCtx \<notin> set (boot t) \<and> signal_ctx t \<noteq> None)"
    by (induction rule: life_step.induct) (auto simp: life_inv_def apply_boot_def)
  with once_step [OF st i] show ?thesis by (simp add: life_inv_def)
qed

lemma life_inv_runs: "(life_step cf)\<^sup>*\<^sup>* s t \<Longrightarrow> life_inv Q K cf s \<Longrightarrow> life_inv Q K cf t"
  by (induction rule: rtranclp_induct) (auto intro: life_inv_step)

text \<open>C17. The server is shut down at most once: in every state a server can get into, from any point
  of \<open>Start\<close> and with any number of callers of \<open>Stop\<close> and signals, the calls made so far are the
  first calls of one and the same shutdown, of a registry the server had; no two callers are
  inside it, and the readiness probe has reported the shutdown since before the first call.\<close>

theorem shutdown_runs_once:
  assumes "(life_step cf)\<^sup>*\<^sup>* (fresh_life ops n) s"
  shows "length (filter active (callers s)) \<le> 1
    \<and> (\<exists>r m. calls s = take m (calls_of cf r)) \<and> (calls s \<noteq> [] \<longrightarrow> shutting s)"
proof -
  have "life_inv (\<lambda>_. True) False cf (fresh_life ops n)"
    by (simp add: life_inv_def once_ok_def fresh_life_def list_all_iff)
  from life_inv_runs [OF assms this] have inv: "once_ok (\<lambda>_. True) False cf s" by (simp add: life_inv_def)
  show ?thesis
  proof (cases "shutdown_once s")
    case Fresh
    with inv show ?thesis by (auto simp: once_ok_def untouched_inactive intro: exI [of _ 0])
  next
    case InProgress
    with inv obtain c where c: "filter active (callers s) = [c]" "progress (\<lambda>_. True) False cf (calls s) (signal_ctx s) c" "shutting s"
      by (auto simp: once_ok_def)
    from c(2) have "\<exists>r m. calls s = take m (calls_of cf r)" by (cases c) (auto intro: exI [of _ 0])
    with c show ?thesis by simp
  next
    case Finished
    with inv obtain r where "calls s = take (length (calls_of cf r)) (calls_of cf r)" by (auto simp: once_ok_def)
    then have "\<exists>r m. calls s = take m (calls_of cf r)" by blast
    with Finished inv show ?thesis by (simp add: once_ok_def)
  qed
qed

definition quiet_env :: shutdown_env where
  "quiet_env = \<lparr>drains = (\<lambda>i. i \<noteq> 1), force_close = (\<lambda>_. Closed_ok), close_listener = (\<lambda>_. Already_closed), remove_socket = Removed\<rparr>"

definition demo_conf :: "nat option list \<Rightarrow> shutdown_conf" where
  "demo_conf fs = \<lparr>sc_env = quiet_env, unix_path = [], cleanups = fs, quic_drain = 0, may_fail = (\<lambda>_. False)\<rparr>"

lemma run_append: "(life_step cf)\<^sup>*\<^sup>* s t \<Longrightarrow> life_step cf t u \<Longrightarrow> (life_step cf)\<^sup>*\<^sup>* s u"
  by (rule rtranclp.rtrancl_into_rtrancl)

lemma early_stop_calls [simp]: "shutdown_calls (demo_conf fs) no_registry = (cleanup_part fs, [])"
  by (simp add: shutdown_calls_def shutdownServers_def demo_conf_def socket_part_def no_registry_def)

text \<open>A caller of \<open>Stop\<close> that is first runs through the whole shutdown of an empty registry.\<close>

lemma first_stop:
  fixes ops :: "boot_op list"
  defines "s \<equiv> fresh_life ops 1"
  shows "(life_step (demo_conf []))\<^sup>*\<^sup>* s (s\<lparr>callers := [Returned []], shutdown_once := Finished, shutting := True\<rparr>)"
    and "(life_step (demo_conf [Some 7]))\<^sup>*\<^sup>* s (s\<lparr>callers := [Executing no_registry 1], shutdown_once := InProgress, shutting := True, calls := [RunCleanup 7]\<rparr>)"
proof -
  have run: "(life_step cf)\<^sup>*\<^sup>* s (s\<lparr>callers := [Executing no_registry 0], shutdown_once := InProgress, shutting := True\<rparr>)" for cf
  proof -
    have "life_step cf s (s\<lparr>callers := [Cancelling], shutdown_once := InProgress, shutting := True\<rparr>)"
      using life_step.enter [of s "[]" "[]" cf] by (simp add: s_def fresh_life_def)
    then have "(life_step cf)\<^sup>*\<^sup>* s (s\<lparr>callers := [Cancelling], shutdown_once := InProgress, shutting := True\<rparr>)"
      by (rule r_into_rtranclp)
    from run_append [OF this life_step.cancel [of _ "[]" "[]"]]
    have "(life_step cf)\<^sup>*\<^sup>* s (s\<lparr>callers := [Copying], shutdown_once := InProgress, shutting := True\<rparr>)"
      by (simp add: s_def fresh_life_def)
    from run_append [OF this life_step.copy [of _ "[]" "[]"]]
    show ?thesis by (simp add: s_def fresh_life_def)
  qed
  from run_append [OF run life_step.finish [of _ "[]" no_registry 0 "[]"], of "demo_conf []"]
  show "(life_step (demo_conf []))\<^sup>*\<^sup>* s (s\<lparr>callers := [Returned []], shutdown_once := Finished, shutting := True\<rparr>)"
    by (simp add: s_def fresh_life_def)
  from run_append [OF run life_step.call [of _ "[]" no_registry 0 "[]"], of "demo_conf [Some 7]"]
  show "(life_step (demo_conf [Some 7]))\<^sup>*\<^sup>* s (s\<lparr>callers := [Executing no_registry 1], shutdown_once := InProgress, shutting := True, calls := [RunCleanup 7]\<rparr>)"
    by (simp add: s_def fresh_life_def)
qed

theorem shutdown_runs_once_witness:
  "\<exists>s. (life_step (demo_conf [Some 7]))\<^sup>*\<^sup>* (fresh_life [] 1) s \<and> calls s = [RunCleanup 7] \<and> shutting s
     \<and> length (filter active (callers s)) \<le> 1"
  using first_stop(2) [of "[]"] shutdown_runs_once [OF first_stop(2) [of "[]"]]
  by (intro exI conjI) auto

subsection \<open>Stop stops\<close>

text \<open>A server whose \<open>Start\<close> has registered everything, before anything is shut down.\<close>

definition covered :: "registry \<Rightarrow> service \<Rightarrow> bool" where
  "covered r v = (case v of HttpService i l \<Rightarrow> i \<in> set (httpServers r) | Http3Service q \<Rightarrow> q \<in> set (quicListeners r))"

definition running :: "life \<Rightarrow> bool" where
  "running s \<longleftrightarrow> boot s = [] \<and> shutdown_once s = Fresh \<and> calls s = [] \<and> signal_ctx s = Some False
     \<and> list_all untouched (callers s) \<and> list_all (covered (reg s)) (serving s)"

lemma shuts_down: "ShutdownServer i \<in> set (fst (servers_loop env ss)) \<longleftrightarrow> Some i \<in> set ss"
  by (induction env ss rule: servers_loop.induct) (auto split: prod.split)

lemma covered_ends: "covered r v \<Longrightarrow> ends (calls_of cf r) v"
  by (cases v) (auto simp: covered_def calls_of_parts shuts_down)

definition settled :: "registry \<Rightarrow> life \<Rightarrow> bool" where
  "settled r s \<longleftrightarrow> boot s = [] \<and> reg s = r \<and> list_all (covered r) (serving s)"

lemma settled_step: "life_step cf s t \<Longrightarrow> settled r s \<Longrightarrow> settled r t"
  by (induction rule: life_step.induct) (auto simp: settled_def)

text \<open>A caller of \<open>Stop\<close> stays one until it returns.\<close>

fun stopping :: "caller \<Rightarrow> bool" where
  "stopping AwaitSignal = False"
| "stopping _ = True"

lemma stopping_step: "life_step cf s t \<Longrightarrow> list_ex stopping (callers s) \<Longrightarrow> list_ex stopping (callers t)"
  by (induction rule: life_step.induct) (auto simp: apply_boot_def)

lemma callers_split: "c \<in> set (callers s) \<Longrightarrow> \<exists>xs ys. callers s = xs @ c # ys"
  by (rule split_list)

lemma stuck_callers:
  assumes "\<nexists>t. life_step cf s t" "c \<in> set (callers s)"
  shows "c = Blocked \<or> (\<exists>es. c = Returned es) \<or> c = AwaitSignal \<or> (\<exists>r n. c = Executing r n \<and> n > length (calls_of cf r))"
proof -
  obtain xs ys where cs: "callers s = xs @ c # ys" using callers_split assms(2) by blast
  show ?thesis
  proof (cases c)
    case Ready
    with cs assms(1) show ?thesis by (cases "shutdown_once s") (blast intro: life_step.intros)+
  next
    case (Executing r n)
    with cs assms(1) show ?thesis
      by (cases n "length (calls_of cf r)" rule: linorder_cases) (blast intro: life_step.intros)+
  qed (use cs assms(1) in \<open>blast intro: life_step.intros\<close>)+
qed

text \<open>When nothing can move any more and somebody has asked for the shutdown, it is finished, and
  every caller has returned.\<close>

lemma stuck_finished:
  assumes stuck: "\<nexists>u. life_step cf t u" and inv: "life_inv Q True cf t" and stop: "list_ex stopping (callers t)"
  shows "shutdown_once t = Finished"
proof (cases "shutdown_once t")
  case Fresh
  then have all: "list_all untouched (callers t)" using inv by (simp add: life_inv_def once_ok_def)
  from stop obtain c where c: "c \<in> set (callers t)" "stopping c" by (auto simp: list_ex_iff)
  with all stuck_callers [OF stuck c(1)] Fresh show ?thesis by (cases c) (auto simp: list_all_iff)
next
  case InProgress
  then obtain c where c: "filter active (callers t) = [c]" "progress Q True cf (calls t) (signal_ctx t) c"
    using inv by (auto simp: life_inv_def once_ok_def)
  have "c \<in> set (filter active (callers t))" using c(1) by simp
  then have "c \<in> set (callers t)" "active c" by simp_all
  with c(2) stuck_callers [OF stuck, of c] show ?thesis by (cases c) auto
qed

lemma stuck_returned:
  assumes stuck: "\<nexists>u. life_step cf t u" and fin: "shutdown_once t = Finished" "signal_ctx t = Some True" "filter active (callers t) = []"
    and c: "c \<in> set (callers t)"
  shows "\<exists>es. c = Returned es"
proof -
  obtain xs ys where cs: "callers t = xs @ c # ys" using callers_split c by blast
  have "c \<noteq> Blocked" "c \<noteq> AwaitSignal"
    using stuck cs fin(1,2) life_step.unblock life_step.cancelled by blast+
  moreover have "c \<noteq> Executing r n" for r n using fin(3) cs by auto
  ultimately show ?thesis using stuck_callers [OF stuck c] by blast
qed

text \<open>C6. \<open>Stop\<close> gets everything done: from a running server with a caller of \<open>Stop\<close>, whatever the order
  of the steps, every run has a bounded number of steps, and where no step is left every caller
  has returned, one of them with the errors of the shutdown, all calls of the shutdown were
  made, each once, and \<open>Start\<close> has returned.\<close>

theorem stop_completes:
  assumes "running s" "list_ex stopping (callers s)"
  shows "(\<forall>k t. (life_step cf ^^ k) s t \<longrightarrow> k \<le> run_bound cf s)
    \<and> (\<forall>t. (life_step cf)\<^sup>*\<^sup>* s t \<and> (\<nexists>u. life_step cf t u) \<longrightarrow>
         calls t = calls_of cf (reg s) \<and> (\<forall>c\<in>set (callers t). \<exists>es. c = Returned es)
       \<and> Returned (snd (shutdown_calls cf (reg s))) \<in> set (callers t) \<and> start_returned t)"
proof (rule conjI; intro allI impI)
  show "k \<le> run_bound cf s" if "(life_step cf ^^ k) s t" for k t using runs_end [OF that] by simp
next
  fix t
  assume t: "(life_step cf)\<^sup>*\<^sup>* s t \<and> (\<nexists>u. life_step cf t u)"
  let ?Q = "\<lambda>r. r = reg s"
  from assms(1) have "life_inv ?Q True cf s" by (simp add: running_def life_inv_def once_ok_def)
  with t have inv: "life_inv ?Q True cf t" by (blast intro: life_inv_runs)
  from assms(1) have "settled (reg s) s" by (simp add: running_def settled_def)
  with t have set: "settled (reg s) t" by (auto elim!: rtranclp_induct intro: settled_step)
  from t assms(2) have stop: "list_ex stopping (callers t)" by (auto elim!: rtranclp_induct intro: stopping_step)
  from t have fin: "shutdown_once t = Finished" using stuck_finished [OF _ inv stop] by blast
  with inv have fin': "signal_ctx t = Some True" "calls t = calls_of cf (reg s)"
      "Returned (snd (shutdown_calls cf (reg s))) \<in> set (callers t)" "filter active (callers t) = []"
    by (auto simp: life_inv_def once_ok_def)
  have ret: "\<exists>es. c = Returned es" if "c \<in> set (callers t)" for c
    using stuck_returned [OF _ fin fin'(1,4) that] t by blast
  have "serving t = []"
  proof (cases "serving t")
    case (Cons v vs)
    with set have "covered (reg s) v" by (simp add: settled_def)
    from covered_ends [OF this] Cons t fin' life_step.served [of t "[]" v vs cf] show ?thesis by auto
  qed simp
  with set t have "start_returned t" using life_step.return [of t cf] by (auto simp: settled_def)
  with fin' ret show "calls t = calls_of cf (reg s) \<and> (\<forall>c\<in>set (callers t). \<exists>es. c = Returned es)
       \<and> Returned (snd (shutdown_calls cf (reg s))) \<in> set (callers t) \<and> start_returned t" by blast
qed

theorem stop_completes_witness:
  "let s = started_life [AddListener 5, AddHTTPServer 0 5, SpawnWaiter] 2; cf = demo_conf [Some 7]
   in {t. (life_step cf)\<^sup>*\<^sup>* s t \<and> (\<nexists>u. life_step cf t u)}
        \<subseteq> {t. calls t = [ShutdownServer 0, CloseListener 5, RunCleanup 7] \<and> start_returned t}"
proof -
  let ?s = "started_life [AddListener 5, AddHTTPServer 0 5, SpawnWaiter] 2" and ?cf = "demo_conf [Some 7]"
  have s: "running ?s" "list_ex stopping (callers ?s)"
    by (simp_all add: running_def started_life_def fresh_life_def apply_boot_def no_registry_def covered_def numeral_2_eq_2)
  have "calls_of ?cf (reg ?s) = [ShutdownServer 0, CloseListener 5, RunCleanup 7]"
    by (simp add: calls_of_parts started_life_def fresh_life_def apply_boot_def no_registry_def demo_conf_def quiet_env_def
        socket_part_def)
  with stop_completes [OF s, of ?cf] show ?thesis by (auto simp: Let_def)
qed

text \<open>A \<open>Stop\<close> that comes before \<open>Start\<close> has registered its servers uses up \<open>shutdownOnce\<close>: the
  server is then started as usual, and no later \<open>Stop\<close> and no signal ends it.\<close>

definition unstoppable :: "life \<Rightarrow> bool" where
  "unstoppable s \<longleftrightarrow> boot s = [] \<and> shutdown_once s = Finished \<and> calls s = [] \<and> serving s = [HttpService 0 5]
     \<and> \<not> start_returned s \<and> filter active (callers s) = []"

lemma unstoppable_step: "life_step (demo_conf fs) s t \<Longrightarrow> unstoppable s \<Longrightarrow> unstoppable t"
  by (induction rule: life_step.induct) (auto simp: unstoppable_def demo_conf_def)

theorem early_stop_is_lost:
  "\<exists>s. (life_step (demo_conf []))\<^sup>*\<^sup>* (fresh_life [MakeSignalCtx, AddListener 5, AddHTTPServer 0 5, SpawnWaiter] 1) s
     \<and> Returned [] \<in> set (callers s)
     \<and> (\<forall>t. (life_step (demo_conf []))\<^sup>*\<^sup>* s t \<longrightarrow> serving t = [HttpService 0 5] \<and> \<not> start_returned t)"
proof -
  let ?ops = "[MakeSignalCtx, AddListener 5, AddHTTPServer 0 5, SpawnWaiter]"
  let ?s = "fresh_life ?ops 1\<lparr>callers := [Returned []], shutdown_once := Finished, shutting := True\<rparr>"
  have boots: "(life_step cf)\<^sup>*\<^sup>* s (fold apply_boot (boot s) (s\<lparr>boot := []\<rparr>))" for cf s
  proof (induction "boot s" arbitrary: s)
    case (Cons b bs)
    let ?t = "apply_boot b (s\<lparr>boot := bs\<rparr>)"
    from Cons.hyps(2) have "life_step cf s ?t" by (intro life_step.boot) simp
    moreover have "(life_step cf)\<^sup>*\<^sup>* ?t (fold apply_boot (boot ?t) (?t\<lparr>boot := []\<rparr>))"
      by (rule Cons.hyps(1)) (simp add: apply_boot_def)
    moreover have "fold apply_boot (boot ?t) (?t\<lparr>boot := []\<rparr>) = fold apply_boot (boot s) (s\<lparr>boot := []\<rparr>)"
    proof -
      have "?t\<lparr>boot := []\<rparr> = apply_boot b (s\<lparr>boot := []\<rparr>)" "boot ?t = bs"
        by (cases s; simp add: apply_boot_def)+
      then show ?thesis by (simp flip: Cons.hyps(2))
    qed
    ultimately show ?case by (metis converse_rtranclp_into_rtranclp)
  next
    case Nil
    then have "s\<lparr>boot := []\<rparr> = s" by (cases s) simp
    then show ?case unfolding Nil [symmetric] by (simp del: life.simps)
  qed
  let ?u = "fold apply_boot ?ops (?s\<lparr>boot := []\<rparr>)"
  have "(life_step (demo_conf []))\<^sup>*\<^sup>* (fresh_life ?ops 1) ?u"
    using rtranclp_trans [OF first_stop(1) [of ?ops] boots [of "demo_conf []" ?s]] by (simp add: fresh_life_def)
  moreover have "unstoppable ?u" "Returned [] \<in> set (callers ?u)"
    by (simp_all add: unstoppable_def apply_boot_def fresh_life_def)
  moreover have "unstoppable t" if "(life_step (demo_conf []))\<^sup>*\<^sup>* s t" "unstoppable s" for s t
    using that by (induction rule: rtranclp_induct) (auto intro: unstoppable_step)
  ultimately show ?thesis unfolding unstoppable_def by blast
qed

text \<open>\<open>Start\<close> does not wait for the shutdown: it returns when the servers no longer accept, and the
  caller inside \<open>shutdownOnce\<close> may have everything else still to do. A program that ends when
  \<open>Start\<close> returns, as all the examples do, cuts the shutdown off.\<close>

theorem start_returns_before_shutdown:
  "\<exists>t. (life_step (demo_conf [Some 7]))\<^sup>*\<^sup>* (started_life [AddListener 5, AddHTTPServer 0 5, SpawnWaiter] 0) t
     \<and> start_returned t \<and> calls t = [ShutdownServer 0] \<and> shutdown_once t = InProgress
     \<and> calls_of (demo_conf [Some 7]) (reg t) = [ShutdownServer 0, CloseListener 5, RunCleanup 7]"
proof -
  let ?cf = "demo_conf [Some 7]" and ?s = "started_life [AddListener 5, AddHTTPServer 0 5, SpawnWaiter] 0"
  let ?r = "reg ?s"
  have s: "callers ?s = [AwaitSignal]" "shutdown_once ?s = Fresh" "calls ?s = []" "serving ?s = [HttpService 0 5]"
    "boot ?s = []" "\<not> start_returned ?s"
    by (simp_all add: started_life_def fresh_life_def apply_boot_def no_registry_def)
  have c: "calls_of ?cf ?r = [ShutdownServer 0, CloseListener 5, RunCleanup 7]"
    by (simp add: calls_of_parts started_life_def fresh_life_def apply_boot_def no_registry_def demo_conf_def quiet_env_def
        socket_part_def)
  let ?s1 = "?s\<lparr>callers := [Ready]\<rparr>"
  let ?s2 = "?s1\<lparr>callers := [Cancelling], shutdown_once := InProgress, shutting := True\<rparr>"
  let ?s3 = "?s2\<lparr>callers := [Copying], signal_ctx := map_option (\<lambda>_. True) (signal_ctx ?s2)\<rparr>"
  let ?s4 = "?s3\<lparr>callers := [Executing ?r 0]\<rparr>"
  let ?s5 = "?s4\<lparr>callers := [Executing ?r 1], calls := [ShutdownServer 0]\<rparr>"
  let ?s6 = "?s5\<lparr>serving := []\<rparr>"
  have st1: "life_step ?cf ?s ?s1" using life_step.signal [of ?s "[]" "[]" ?cf] s by simp
  have st2: "life_step ?cf ?s1 ?s2" using life_step.enter [of ?s1 "[]" "[]" ?cf] s by simp
  have st3: "life_step ?cf ?s2 ?s3" using life_step.cancel [of ?s2 "[]" "[]" ?cf] s by simp
  have st4: "life_step ?cf ?s3 ?s4" using life_step.copy [of ?s3 "[]" "[]" ?cf] s by simp
  have st5: "life_step ?cf ?s4 ?s5" using life_step.call [of ?s4 "[]" ?r 0 "[]" ?cf] s c by simp
  have st6: "life_step ?cf ?s5 ?s6" using life_step.served [of ?s5 "[]" "HttpService 0 5" "[]" ?cf] s by simp
  have st7: "life_step ?cf ?s6 (?s6\<lparr>start_returned := True\<rparr>)" using life_step.return [of ?s6 ?cf] s by simp
  note run = run_append [OF run_append [OF run_append [OF run_append [OF run_append [OF run_append [OF run_append
      [OF rtranclp.rtrancl_refl st1] st2] st3] st4] st5] st6] st7]
  show ?thesis by (rule exI [of _ "?s6\<lparr>start_returned := True\<rparr>"], intro conjI, rule run) (simp_all add: c)
qed

text \<open>When the services fail by themselves, \<open>Start\<close> returns without an error and nothing is shut down:
  no cleanup runs, and the listeners stay registered.\<close>

theorem failed_services_end_start:
  assumes "boot s = []" "\<not> start_returned s" "list_all (may_fail cf) (serving s)"
  shows "(life_step cf)\<^sup>*\<^sup>* s (s\<lparr>serving := [], start_returned := True\<rparr>)"
proof -
  have fall: "(life_step cf)\<^sup>*\<^sup>* (s\<lparr>serving := vs\<rparr>) (s\<lparr>serving := []\<rparr>)" if "list_all (may_fail cf) vs" for vs
    using that
  proof (induction vs)
    case (Cons v vs)
    have v: "may_fail cf v" and vs: "list_all (may_fail cf) vs" using Cons.prems by simp_all
    have "life_step cf (s\<lparr>serving := v # vs\<rparr>) (s\<lparr>serving := v # vs\<rparr>\<lparr>serving := [] @ vs\<rparr>)"
      by (rule life_step.failed [of _ "[]" v vs]) (simp_all add: v)
    then have "life_step cf (s\<lparr>serving := v # vs\<rparr>) (s\<lparr>serving := vs\<rparr>)" by simp
    from this Cons.IH [OF vs] show ?case by (rule converse_rtranclp_into_rtranclp)
  qed (rule rtranclp.rtrancl_refl)
  have "life_step cf (s\<lparr>serving := []\<rparr>) (s\<lparr>serving := []\<rparr>\<lparr>start_returned := True\<rparr>)"
    by (rule life_step.return) (simp_all add: assms)
  from run_append [OF fall [OF assms(3)] this] show ?thesis by simp
qed

subsection \<open>A start that fails\<close>

text \<open>A start that fails at a listener leaves nothing open: every listener it had created is
  closed, every HTTP/3 server too, and the cleanup functions have run.\<close>

theorem failed_listen_closes_all:
  assumes "start_listening env fs s = (ops, Some (undo, e))"
  shows "(\<forall>l. AddListener l \<in> set ops \<longrightarrow> CloseListener l \<in> set undo)
    \<and> (\<forall>q. AddQUICListener q \<in> set ops \<longrightarrow> CloseQUIC q \<in> set undo)
    \<and> (\<forall>i q. AddHTTP3Server i q \<in> set ops \<longrightarrow> CloseHTTP3 i \<in> set undo)
    \<and> (\<forall>f. Some f \<in> set fs \<longrightarrow> RunCleanup f \<in> set undo)"
proof -
  have "RunCleanup f \<in> set (cancelCleanup fs)" if "Some f \<in> set fs" for f
    using that unfolding cancelCleanup_def by (induction fs rule: cleanup_part.induct) auto
  with assms show ?thesis
    by (auto simp: start_listening_def open_http_def open_http3_def open_unix_def closeListeners_def no_registry_def Let_def
        split: if_splits sum.splits)
qed

end
