(* ===== verification/Metrics.thy ===== *)
theory Metrics
  imports HandlerChain Pointers "HOL-Library.Multiset"
begin

text \<open>
  The counters of \<open>middleware/metrics.go\<close>. They are atomic 64-bit words, and every method is a
  sequence of atomic additions: a \<open>metric_op\<close> is one of them, or one call of the external
  sink. What a request does is the list of its operations; requests that run at the same
  time interleave theirs.
\<close>

subsection \<open>Counters\<close>

datatype stat_field = StatRequests | StatErrors5x | StatDurationNs | StatSamples

datatype counter =
    Requests | Errors5x | Panics | DurationNs | Samples | InFlight
  | Status1xx | Status2xx | Status3xx | Status4xx | Status5xx
  | Http1Req | Http2Req | Http3Req | Http1Ns | Http2Ns | Http3Ns
  | Http1Samples | Http2Samples | Http3Samples
  | RouteCounter string stat_field
  | GroupCounter string stat_field

datatype sink_event =
    IncCounter string "string list"
  | ObserveDuration string "64 word" "string list"
  | AddGauge string int

record routeStat =
  rs_requests :: "64 word"
  rs_errors5x :: "64 word"
  rs_durationNs :: "64 word"
  rs_samples :: "64 word"

text \<open>\<open>m_sink\<close> is what the sink received, \<open>None\<close> without a sink.\<close>

record Metrics =
  m_sink :: "sink_event list option"
  m_requests :: "64 word"
  m_errors5x :: "64 word"
  m_panics :: "64 word"
  m_durationNs :: "64 word"
  m_samples :: "64 word"
  m_inFlight :: "64 word"
  m_status1xx :: "64 word"
  m_status2xx :: "64 word"
  m_status3xx :: "64 word"
  m_status4xx :: "64 word"
  m_status5xx :: "64 word"
  m_http1Req :: "64 word"
  m_http2Req :: "64 word"
  m_http3Req :: "64 word"
  m_http1Ns :: "64 word"
  m_http2Ns :: "64 word"
  m_http3Ns :: "64 word"
  m_http1Samples :: "64 word"
  m_http2Samples :: "64 word"
  m_http3Samples :: "64 word"
  m_routes :: "(string, routeStat) gomap"
  m_groups :: "(string, routeStat) gomap"

definition NewMetrics :: "bool \<Rightarrow> Metrics" where
  "NewMetrics has_sink =
     \<lparr>m_sink = (if has_sink then Some [] else None), m_requests = 0, m_errors5x = 0, m_panics = 0, m_durationNs = 0, m_samples = 0, m_inFlight = 0,
       m_status1xx = 0, m_status2xx = 0, m_status3xx = 0, m_status4xx = 0, m_status5xx = 0,
       m_http1Req = 0, m_http2Req = 0, m_http3Req = 0, m_http1Ns = 0, m_http2Ns = 0, m_http3Ns = 0,
       m_http1Samples = 0, m_http2Samples = 0, m_http3Samples = 0,
       m_routes = [], m_groups = []\<rparr>"

definition new_stat :: routeStat where
  "new_stat = \<lparr>rs_requests = 0, rs_errors5x = 0, rs_durationNs = 0, rs_samples = 0\<rparr>"

text \<open>\<open>routeStat\<close> and \<open>groupStat\<close>: the counter of the key, created when it is missing.\<close>

definition stat_of :: "(string, routeStat) gomap \<Rightarrow> string \<Rightarrow> routeStat" where
  "stat_of tab key = (case map_of tab key of None \<Rightarrow> new_stat | Some s \<Rightarrow> s)"

fun stat_get :: "stat_field \<Rightarrow> routeStat \<Rightarrow> 64 word" where
  "stat_get StatRequests s = rs_requests s"
| "stat_get StatErrors5x s = rs_errors5x s"
| "stat_get StatDurationNs s = rs_durationNs s"
| "stat_get StatSamples s = rs_samples s"

fun stat_add :: "stat_field \<Rightarrow> 64 word \<Rightarrow> routeStat \<Rightarrow> routeStat" where
  "stat_add StatRequests d s = s\<lparr>rs_requests := rs_requests s + d\<rparr>"
| "stat_add StatErrors5x d s = s\<lparr>rs_errors5x := rs_errors5x s + d\<rparr>"
| "stat_add StatDurationNs d s = s\<lparr>rs_durationNs := rs_durationNs s + d\<rparr>"
| "stat_add StatSamples d s = s\<lparr>rs_samples := rs_samples s + d\<rparr>"

fun load :: "counter \<Rightarrow> Metrics \<Rightarrow> 64 word" where
  "load (RouteCounter r f) m = stat_get f (stat_of (m_routes m) r)"
| "load (GroupCounter g f) m = stat_get f (stat_of (m_groups m) g)"
| "load Requests m = m_requests m"
| "load Errors5x m = m_errors5x m"
| "load Panics m = m_panics m"
| "load DurationNs m = m_durationNs m"
| "load Samples m = m_samples m"
| "load InFlight m = m_inFlight m"
| "load Status1xx m = m_status1xx m"
| "load Status2xx m = m_status2xx m"
| "load Status3xx m = m_status3xx m"
| "load Status4xx m = m_status4xx m"
| "load Status5xx m = m_status5xx m"
| "load Http1Req m = m_http1Req m"
| "load Http2Req m = m_http2Req m"
| "load Http3Req m = m_http3Req m"
| "load Http1Ns m = m_http1Ns m"
| "load Http2Ns m = m_http2Ns m"
| "load Http3Ns m = m_http3Ns m"
| "load Http1Samples m = m_http1Samples m"
| "load Http2Samples m = m_http2Samples m"
| "load Http3Samples m = m_http3Samples m"

fun add_counter :: "counter \<Rightarrow> 64 word \<Rightarrow> Metrics \<Rightarrow> Metrics" where
  "add_counter (RouteCounter r f) d m =
     m\<lparr>m_routes := AList.update r (stat_add f d (stat_of (m_routes m) r)) (m_routes m)\<rparr>"
| "add_counter (GroupCounter g f) d m =
     m\<lparr>m_groups := AList.update g (stat_add f d (stat_of (m_groups m) g)) (m_groups m)\<rparr>"
| "add_counter Requests d m = m\<lparr>m_requests := m_requests m + d\<rparr>"
| "add_counter Errors5x d m = m\<lparr>m_errors5x := m_errors5x m + d\<rparr>"
| "add_counter Panics d m = m\<lparr>m_panics := m_panics m + d\<rparr>"
| "add_counter DurationNs d m = m\<lparr>m_durationNs := m_durationNs m + d\<rparr>"
| "add_counter Samples d m = m\<lparr>m_samples := m_samples m + d\<rparr>"
| "add_counter InFlight d m = m\<lparr>m_inFlight := m_inFlight m + d\<rparr>"
| "add_counter Status1xx d m = m\<lparr>m_status1xx := m_status1xx m + d\<rparr>"
| "add_counter Status2xx d m = m\<lparr>m_status2xx := m_status2xx m + d\<rparr>"
| "add_counter Status3xx d m = m\<lparr>m_status3xx := m_status3xx m + d\<rparr>"
| "add_counter Status4xx d m = m\<lparr>m_status4xx := m_status4xx m + d\<rparr>"
| "add_counter Status5xx d m = m\<lparr>m_status5xx := m_status5xx m + d\<rparr>"
| "add_counter Http1Req d m = m\<lparr>m_http1Req := m_http1Req m + d\<rparr>"
| "add_counter Http2Req d m = m\<lparr>m_http2Req := m_http2Req m + d\<rparr>"
| "add_counter Http3Req d m = m\<lparr>m_http3Req := m_http3Req m + d\<rparr>"
| "add_counter Http1Ns d m = m\<lparr>m_http1Ns := m_http1Ns m + d\<rparr>"
| "add_counter Http2Ns d m = m\<lparr>m_http2Ns := m_http2Ns m + d\<rparr>"
| "add_counter Http3Ns d m = m\<lparr>m_http3Ns := m_http3Ns m + d\<rparr>"
| "add_counter Http1Samples d m = m\<lparr>m_http1Samples := m_http1Samples m + d\<rparr>"
| "add_counter Http2Samples d m = m\<lparr>m_http2Samples := m_http2Samples m + d\<rparr>"
| "add_counter Http3Samples d m = m\<lparr>m_http3Samples := m_http3Samples m + d\<rparr>"

datatype metric_op = Add counter "64 word" | Emit sink_event

fun apply_metric_op :: "metric_op \<Rightarrow> Metrics \<Rightarrow> Metrics" where
  "apply_metric_op (Add k d) m = add_counter k d m"
| "apply_metric_op (Emit e) m = m\<lparr>m_sink := map_option (\<lambda>es. es @ [e]) (m_sink m)\<rparr>"

definition run_ops :: "metric_op list \<Rightarrow> Metrics \<Rightarrow> Metrics" where
  "run_ops ops m = fold apply_metric_op ops m"

subsection \<open>The operations of one request\<close>

definition statusClass :: "int \<Rightarrow> string" where
  "statusClass st =
     (if st < 200 then ''1xx'' else if st < 300 then ''2xx'' else if st < 400 then ''3xx''
      else if st < 500 then ''4xx'' else ''5xx'')"

definition protocolName :: "string \<Rightarrow> string" where
  "protocolName proto =
     (if proto = ''HTTP/1.0'' \<or> proto = ''HTTP/1.1'' then ''HTTP/1'' else if proto = ''HTTP/2.0'' then ''HTTP/2''
      else if proto = ''HTTP/3.0'' then ''HTTP/3'' else ''unknown'')"

definition emitSink :: "'h Context \<Rightarrow> int \<Rightarrow> 64 word \<Rightarrow> metric_op list" where
  "emitSink c st elapsed =
     (let labels = [ctx_route c, ctx_group c, statusClass st, protocolName (req_proto (request c))]
      in [Emit (IncCounter ''webx.requests'' labels), Emit (ObserveDuration ''webx.request_duration'' elapsed labels)])"

definition gaugeDelta :: "string \<Rightarrow> int \<Rightarrow> metric_op list" where
  "gaugeDelta name delta = [Emit (AddGauge name delta)]"

definition recordPanic :: "metric_op list" where
  "recordPanic = [Add Panics 1, Emit (IncCounter ''webx.panics'' [])]"

definition stat_ops :: "(stat_field \<Rightarrow> counter) \<Rightarrow> int \<Rightarrow> 64 word \<Rightarrow> metric_op list" where
  "stat_ops k st elapsed =
     [Add (k StatRequests) 1, Add (k StatDurationNs) elapsed, Add (k StatSamples) 1]
     @ (if st \<ge> 500 then [Add (k StatErrors5x) 1] else [])"

definition recordRoute :: "'h Context \<Rightarrow> int \<Rightarrow> 64 word \<Rightarrow> metric_op list" where
  "recordRoute c st elapsed =
     (if ctx_route c \<noteq> [] then stat_ops (RouteCounter (ctx_route c)) st elapsed else [])
     @ (if ctx_group c \<noteq> [] then stat_ops (GroupCounter (ctx_group c)) st elapsed else [])"

definition class_counter :: "int \<Rightarrow> counter" where
  "class_counter st =
     (if st < 200 then Status1xx else if st < 300 then Status2xx else if st < 400 then Status3xx
      else if st < 500 then Status4xx else Status5xx)"

definition protocol_ops :: "string \<Rightarrow> 64 word \<Rightarrow> metric_op list" where
  "protocol_ops proto elapsed =
     (if proto = ''HTTP/1.0'' \<or> proto = ''HTTP/1.1'' then [Add Http1Req 1, Add Http1Ns elapsed, Add Http1Samples 1]
      else if proto = ''HTTP/2.0'' then [Add Http2Req 1, Add Http2Ns elapsed, Add Http2Samples 1]
      else if proto = ''HTTP/3.0'' then [Add Http3Req 1, Add Http3Ns elapsed, Add Http3Samples 1] else [])"

text \<open>What \<open>MetricsHandler\<close> does before and after the handler; the handler of a panicking
  request counts as a 500, and not for its protocol.\<close>

definition begin_ops :: "metric_op list" where
  "begin_ops = [Add Requests 1, Add InFlight 1] @ gaugeDelta ''webx.requests_in_flight'' 1"

definition finish_ops :: "bool \<Rightarrow> 'h Context \<Rightarrow> 64 word \<Rightarrow> metric_op list" where
  "finish_ops panicked c elapsed =
     [Add InFlight (-1)] @ gaugeDelta ''webx.requests_in_flight'' (-1) @ [Add DurationNs elapsed, Add Samples 1]
     @ (if panicked then [Add Status5xx 1, Add Errors5x 1] @ recordRoute c 500 elapsed @ emitSink c 500 elapsed
        else (let st = StatusCode c
              in [Add (class_counter st) 1] @ (if st \<ge> 500 then [Add Errors5x 1] else [])
                 @ protocol_ops (req_proto (request c)) elapsed @ recordRoute c st elapsed @ emitSink c st elapsed))"

definition MetricsHandler ::
    "('s, Metrics) ptr \<Rightarrow> 64 word \<Rightarrow> ('s \<times> 'h Context \<Rightarrow> ('s \<times> 'h Context) \<times> ending)
      \<Rightarrow> 's \<times> 'h Context \<Rightarrow> ('s \<times> 'h Context) \<times> ending" where
  "MetricsHandler m elapsed next_handler sc =
     (case sc of (s, c) \<Rightarrow>
       (case next_handler (modify m (run_ops begin_ops) s, c) of
          ((s1, c1), e) \<Rightarrow> ((modify m (run_ops (finish_ops (e = Panicked) c1 elapsed)) s1, c1), e)))"

subsection \<open>Snapshots\<close>

definition Snapshot :: "Metrics \<Rightarrow> 64 word \<times> 64 word" where
  "Snapshot m = (load Requests m, load Errors5x m)"

definition Panics_of :: "Metrics \<Rightarrow> 64 word" where
  "Panics_of m = load Panics m"

definition Durations :: "Metrics \<Rightarrow> 64 word \<times> 64 word" where
  "Durations m = (load DurationNs m, load Samples m)"

definition StatusCodes :: "Metrics \<Rightarrow> 64 word \<times> 64 word \<times> 64 word \<times> 64 word \<times> 64 word" where
  "StatusCodes m = (load Status1xx m, load Status2xx m, load Status3xx m, load Status4xx m, load Status5xx m)"

definition avgMs :: "64 word \<Rightarrow> 64 word \<Rightarrow> 64 word" where
  "avgMs totalNs samples = (if samples = 0 then 0 else totalNs div samples div 1000000)"

record ProtocolStats =
  HTTP1Requests :: "64 word"
  HTTP2Requests :: "64 word"
  HTTP3Requests :: "64 word"
  HTTP1AvgMs :: "64 word"
  HTTP2AvgMs :: "64 word"
  HTTP3AvgMs :: "64 word"

definition ProtocolStats_of :: "Metrics \<Rightarrow> ProtocolStats" where
  "ProtocolStats_of m =
     (let avg = (\<lambda>ns n. if n > 0 then ns div n div 1000000 else 0)
      in \<lparr>HTTP1Requests = load Http1Req m, HTTP2Requests = load Http2Req m, HTTP3Requests = load Http3Req m,
          HTTP1AvgMs = avg (load Http1Ns m) (load Http1Samples m),
          HTTP2AvgMs = avg (load Http2Ns m) (load Http2Samples m),
          HTTP3AvgMs = avg (load Http3Ns m) (load Http3Samples m)\<rparr>)"

record RouteStat =
  stat_key :: string
  stat_requests :: "64 word"
  stat_errors5xx :: "64 word"
  stat_avgMs :: "64 word"

definition stat_row :: "string \<times> routeStat \<Rightarrow> RouteStat" where
  "stat_row kv =
     \<lparr>stat_key = fst kv, stat_requests = rs_requests (snd kv), stat_errors5xx = rs_errors5x (snd kv),
      stat_avgMs = avgMs (rs_durationNs (snd kv)) (rs_samples (snd kv))\<rparr>"

definition RouteStats :: "Metrics \<Rightarrow> RouteStat list" where
  "RouteStats m = sort_key stat_key (map stat_row (m_routes m))"

definition GroupStats :: "Metrics \<Rightarrow> RouteStat list" where
  "GroupStats m = sort_key stat_key (map stat_row (m_groups m))"

definition InFlight_of :: "Metrics \<Rightarrow> int" where
  "InFlight_of m = sint (load InFlight m)"

subsection \<open>Order does not matter\<close>

lemma stat_get_add [simp]:
  "stat_get f (stat_add g d s) = stat_get f s + (if f = g then d else 0)"
  by (cases f; cases g; simp)

lemma stat_of_update [simp]:
  "stat_of (AList.update k v tab) k' = (if k' = k then v else stat_of tab k')"
  by (simp add: stat_of_def)

lemma load_add: "load k (add_counter k' d m) = load k m + (if k = k' then d else 0)"
  by (cases k'; cases k; simp)

text \<open>What one operation, and a sequence of them, adds to a counter.\<close>

fun amount :: "counter \<Rightarrow> metric_op \<Rightarrow> 64 word" where
  "amount k (Add k' d) = (if k = k' then d else 0)"
| "amount k (Emit e) = 0"

definition total :: "counter \<Rightarrow> metric_op list \<Rightarrow> 64 word" where
  "total k ops = sum_list (map (amount k) ops)"

lemma load_emit [simp]: "load k (m\<lparr>m_sink := x\<rparr>) = load k m"
  by (cases k) simp_all

lemma load_run: "load k (run_ops ops m) = load k m + total k ops"
proof (induction ops arbitrary: m)
  case (Cons op ops)
  then show ?case
    by (cases op) (simp_all add: run_ops_def total_def load_add)
qed (simp add: run_ops_def total_def)

lemma total_simps [simp]:
  "total k [] = 0" "total k (op # ops) = amount k op + total k ops" "total k (xs @ ys) = total k xs + total k ys"
  by (simp_all add: total_def)

lemma total_concat: "total k (concat xss) = sum_list (map (total k) xss)"
  by (induction xss) simp_all

lemma total_mset: "mset xs = mset ys \<Longrightarrow> total k xs = total k ys"
  unfolding total_def by (metis mset_map sum_mset_sum_list)

text \<open>A request as the counters see it.\<close>

record 'h observed =
  ob_panicked :: bool
  ob_context :: "'h Context"
  ob_elapsed :: "64 word"

definition request_ops :: "'h observed \<Rightarrow> metric_op list" where
  "request_ops q = begin_ops @ finish_ops (ob_panicked q) (ob_context q) (ob_elapsed q)"

definition ob_status :: "'h observed \<Rightarrow> int" where
  "ob_status q = (if ob_panicked q then 500 else StatusCode (ob_context q))"

definition count_of :: "('a \<Rightarrow> bool) \<Rightarrow> 'a list \<Rightarrow> 64 word" where
  "count_of P xs = of_nat (length (filter P xs))"

lemma total_request:
  "total Requests (request_ops q) = 1" "total InFlight (request_ops q) = 0" "total Samples (request_ops q) = 1"
  "total DurationNs (request_ops q) = ob_elapsed q" "total Panics (request_ops q) = 0"
  "total Status1xx (request_ops q) = (if ob_status q < 200 then 1 else 0)"
  "total Status2xx (request_ops q) = (if 200 \<le> ob_status q \<and> ob_status q < 300 then 1 else 0)"
  "total Status3xx (request_ops q) = (if 300 \<le> ob_status q \<and> ob_status q < 400 then 1 else 0)"
  "total Status4xx (request_ops q) = (if 400 \<le> ob_status q \<and> ob_status q < 500 then 1 else 0)"
  "total Status5xx (request_ops q) = (if 500 \<le> ob_status q then 1 else 0)"
  "total Errors5x (request_ops q) = (if 500 \<le> ob_status q then 1 else 0)"
  by (auto simp: request_ops_def begin_ops_def finish_ops_def gaugeDelta_def recordRoute_def stat_ops_def
      emitSink_def protocol_ops_def class_counter_def ob_status_def Let_def)

lemma total_request_route:
  "r \<noteq> [] \<Longrightarrow> total (RouteCounter r StatRequests) (request_ops q) = (if ctx_route (ob_context q) = r then 1 else 0)"
  "r \<noteq> [] \<Longrightarrow> total (RouteCounter r StatErrors5x) (request_ops q)
     = (if ctx_route (ob_context q) = r \<and> 500 \<le> ob_status q then 1 else 0)"
  by (auto simp: request_ops_def begin_ops_def finish_ops_def gaugeDelta_def recordRoute_def stat_ops_def
      emitSink_def protocol_ops_def class_counter_def ob_status_def Let_def)

lemma total_panic: "total k (concat (replicate n recordPanic)) = (if k = Panics then of_nat n else 0)"
  by (induction n) (simp_all add: recordPanic_def)

lemma load_new [simp]: "load k (NewMetrics has_sink) = 0"
  by (cases k) (simp_all add: NewMetrics_def stat_of_def new_stat_def, (metis stat_get.simps stat_field.exhaust routeStat.select_convs)+)

text \<open>Requests that were answered, without a panic, over one of some protocols; these are the ones that
  count for a protocol. And the mean duration of some of the requests, in milliseconds, 0 without any.\<close>

definition answered_over :: "string list \<Rightarrow> 'h observed \<Rightarrow> bool" where
  "answered_over protos q = (\<not> ob_panicked q \<and> req_proto (request (ob_context q)) \<in> set protos)"

definition mean_ms :: "('h observed \<Rightarrow> bool) \<Rightarrow> 'h observed list \<Rightarrow> 64 word" where
  "mean_ms P qs =
     (if count_of P qs = 0 then 0 else sum_list (map ob_elapsed (filter P qs)) div count_of P qs div 1000000)"

lemma total_request_protocol:
  "total Http1Req (request_ops q) = (if answered_over [''HTTP/1.0'', ''HTTP/1.1''] q then 1 else 0)"
  "total Http2Req (request_ops q) = (if answered_over [''HTTP/2.0''] q then 1 else 0)"
  "total Http3Req (request_ops q) = (if answered_over [''HTTP/3.0''] q then 1 else 0)"
  "total Http1Samples (request_ops q) = (if answered_over [''HTTP/1.0'', ''HTTP/1.1''] q then 1 else 0)"
  "total Http2Samples (request_ops q) = (if answered_over [''HTTP/2.0''] q then 1 else 0)"
  "total Http3Samples (request_ops q) = (if answered_over [''HTTP/3.0''] q then 1 else 0)"
  "total Http1Ns (request_ops q) = (if answered_over [''HTTP/1.0'', ''HTTP/1.1''] q then ob_elapsed q else 0)"
  "total Http2Ns (request_ops q) = (if answered_over [''HTTP/2.0''] q then ob_elapsed q else 0)"
  "total Http3Ns (request_ops q) = (if answered_over [''HTTP/3.0''] q then ob_elapsed q else 0)"
  by (auto simp: request_ops_def begin_ops_def finish_ops_def gaugeDelta_def recordRoute_def stat_ops_def
      emitSink_def protocol_ops_def class_counter_def answered_over_def Let_def)

lemma sum_count: "sum_list (map (\<lambda>q. if P q then 1 else (0 :: 64 word)) qs) = count_of P qs"
  by (induction qs) (simp_all add: count_of_def)

text \<open>However the atomic operations of concurrent requests interleave, the counters end up the
  same, and they are right: when all have finished, requests and samples are the number of
  requests, none is in flight, the five status classes and the 5xx counter (panics included)
  count exactly the requests with such a status, the durations add up, and every route has
  counted its own requests and errors. No update is lost, and the counts are modulo \<open>2 ^ 64\<close>.\<close>

theorem metrics_interleaving:
  fixes qs :: "'h observed list" and has_sink :: bool
  defines "m \<equiv> \<lambda>ops. run_ops ops (NewMetrics has_sink)"
  shows "mset ops = mset (concat (map request_ops qs)) \<Longrightarrow>
    Snapshot (m ops) = (of_nat (length qs), count_of (\<lambda>q. 500 \<le> ob_status q) qs)
    \<and> Durations (m ops) = (sum_list (map ob_elapsed qs), of_nat (length qs))
    \<and> StatusCodes (m ops) = (count_of (\<lambda>q. ob_status q < 200) qs,
        count_of (\<lambda>q. 200 \<le> ob_status q \<and> ob_status q < 300) qs,
        count_of (\<lambda>q. 300 \<le> ob_status q \<and> ob_status q < 400) qs,
        count_of (\<lambda>q. 400 \<le> ob_status q \<and> ob_status q < 500) qs, count_of (\<lambda>q. 500 \<le> ob_status q) qs)
    \<and> InFlight_of (m ops) = 0
    \<and> (\<forall>r. r \<noteq> [] \<longrightarrow> rs_requests (stat_of (m_routes (m ops)) r) = count_of (\<lambda>q. ctx_route (ob_context q) = r) qs
         \<and> rs_errors5x (stat_of (m_routes (m ops)) r)
           = count_of (\<lambda>q. ctx_route (ob_context q) = r \<and> 500 \<le> ob_status q) qs)"
proof -
  assume mix: "mset ops = mset (concat (map request_ops qs))"
  have load: "load k (m ops) = sum_list (map (\<lambda>q. total k (request_ops q)) qs)" for k
    by (simp add: m_def load_run load_new total_mset [OF mix] total_concat comp_def)
  have ones: "sum_list (map (\<lambda>q. 1) qs) = (of_nat (length qs) :: 64 word)" by (induction qs) simp_all
  have zeros: "sum_list (map (\<lambda>q. 0) qs) = (0 :: 64 word)" by (induction qs) simp_all
  have routes: "rs_requests (stat_of (m_routes (m ops)) r) = load (RouteCounter r StatRequests) (m ops)"
    "rs_errors5x (stat_of (m_routes (m ops)) r) = load (RouteCounter r StatErrors5x) (m ops)" for r
    by simp_all
  show ?thesis
    unfolding Snapshot_def Durations_def StatusCodes_def InFlight_of_def routes
    by (simp add: load total_request total_request_route sum_count ones zeros del: load.simps)
qed

text \<open>Two requests, a 200 and a panic, whose operations interleave.\<close>

definition demo_observed :: "nat observed list" where
  "demo_observed =
     [\<lparr>ob_panicked = False, ob_context = SetRoute ''/a'' (NewContext new_writer nil_request), ob_elapsed = 5\<rparr>,
      \<lparr>ob_panicked = True, ob_context = SetRoute ''/a'' (NewContext new_writer nil_request), ob_elapsed = 7\<rparr>]"

theorem metrics_interleaving_witness:
  "\<exists>ops. ops \<noteq> concat (map request_ops demo_observed)
     \<and> Snapshot (run_ops ops (NewMetrics True)) = (2, 1)
     \<and> rs_errors5x (stat_of (m_routes (run_ops ops (NewMetrics True))) ''/a'') = 1"
proof (intro exI conjI)
  let ?ops = "rev (concat (map request_ops demo_observed))"
  have counts: "count_of (\<lambda>q. 500 \<le> ob_status q) demo_observed = 1"
    "count_of (\<lambda>q. ctx_route (ob_context q) = ''/a'' \<and> 500 \<le> ob_status q) demo_observed = 1"
    by code_simp+
  have "mset ?ops = mset (concat (map request_ops demo_observed))" by simp
  note facts = metrics_interleaving [OF this, of True]
  show "Snapshot (run_ops ?ops (NewMetrics True)) = (2, 1)"
    using facts counts by (simp add: demo_observed_def)
  show "rs_errors5x (stat_of (m_routes (run_ops ?ops (NewMetrics True))) ''/a'') = 1"
    using facts counts by simp
  show "?ops \<noteq> concat (map request_ops demo_observed)" by code_simp
qed

end
