(* ===== verification/Messages.thy ===== *)
theory Messages
  imports Main
begin

text \<open>
  The Chinese texts of the sources that reach a client or a log, as the UTF-8 bytes of the
  literals.
\<close>

definition msg_body_too_large :: string where
  "msg_body_too_large =
     [CHR 0xE8, CHR 0xAF, CHR 0xB7, CHR 0xE6, CHR 0xB1, CHR 0x82, CHR 0xE4, CHR 0xBD,
      CHR 0x93, CHR 0xE8, CHR 0xBF, CHR 0x87, CHR 0xE5, CHR 0xA4, CHR 0xA7]"

definition msg_timeout :: string where
  "msg_timeout =
     [CHR 0xE8, CHR 0xAF, CHR 0xB7, CHR 0xE6, CHR 0xB1, CHR 0x82, CHR 0xE5, CHR 0xA4,
      CHR 0x84, CHR 0xE7, CHR 0x90, CHR 0x86, CHR 0xE8, CHR 0xB6, CHR 0x85, CHR 0xE6,
      CHR 0x97, CHR 0xB6]"

definition msg_internal :: string where
  "msg_internal =
     [CHR 0xE6, CHR 0x9C, CHR 0x8D, CHR 0xE5, CHR 0x8A, CHR 0xA1, CHR 0xE5, CHR 0x99,
      CHR 0xA8, CHR 0xE5, CHR 0x86, CHR 0x85, CHR 0xE9, CHR 0x83, CHR 0xA8, CHR 0xE9,
      CHR 0x94, CHR 0x99, CHR 0xE8, CHR 0xAF, CHR 0xAF]"

definition msg_internal_colon :: string where
  "msg_internal_colon =
     [CHR 0xE6, CHR 0x9C, CHR 0x8D, CHR 0xE5, CHR 0x8A, CHR 0xA1, CHR 0xE5, CHR 0x99,
      CHR 0xA8, CHR 0xE5, CHR 0x86, CHR 0x85, CHR 0xE9, CHR 0x83, CHR 0xA8, CHR 0xE9,
      CHR 0x94, CHR 0x99, CHR 0xE8, CHR 0xAF, CHR 0xAF, CHR 0xEF, CHR 0xBC, CHR 0x9A]"

definition msg_panic_colon :: string where
  "msg_panic_colon =
     [CHR 0x77, CHR 0x65, CHR 0x62, CHR 0x78, CHR 0xEF, CHR 0xBC, CHR 0x9A, CHR 0xE8,
      CHR 0xAF, CHR 0xB7, CHR 0xE6, CHR 0xB1, CHR 0x82, CHR 0xE5, CHR 0xA4, CHR 0x84,
      CHR 0xE7, CHR 0x90, CHR 0x86, CHR 0xE5, CHR 0x8F, CHR 0x91, CHR 0xE7, CHR 0x94,
      CHR 0x9F, CHR 0x20, CHR 0x70, CHR 0x61, CHR 0x6E, CHR 0x69, CHR 0x63, CHR 0xEF,
      CHR 0xBC, CHR 0x9A]"

definition msg_bad_content_type :: string where
  "msg_bad_content_type =
     [CHR 0xE8, CHR 0xAF, CHR 0xB7, CHR 0xE6, CHR 0xB1, CHR 0x82, CHR 0xE5, CHR 0x8F,
      CHR 0x82, CHR 0xE6, CHR 0x95, CHR 0xB0, CHR 0xE6, CHR 0xA0, CHR 0xA1, CHR 0xE9,
      CHR 0xAA, CHR 0x8C, CHR 0xE5, CHR 0xA4, CHR 0xB1, CHR 0xE8, CHR 0xB4, CHR 0xA5,
      CHR 0xEF, CHR 0xBC, CHR 0x9A, CHR 0x43, CHR 0x6F, CHR 0x6E, CHR 0x74, CHR 0x65,
      CHR 0x6E, CHR 0x74, CHR 0x2D, CHR 0x54, CHR 0x79, CHR 0x70, CHR 0x65, CHR 0x20,
      CHR 0xE5, CHR 0xBF, CHR 0x85, CHR 0xE9, CHR 0xA1, CHR 0xBB, CHR 0xE4, CHR 0xB8,
      CHR 0xBA, CHR 0x20, CHR 0x61, CHR 0x70, CHR 0x70, CHR 0x6C, CHR 0x69, CHR 0x63,
      CHR 0x61, CHR 0x74, CHR 0x69, CHR 0x6F, CHR 0x6E, CHR 0x2F, CHR 0x6A, CHR 0x73,
      CHR 0x6F, CHR 0x6E, CHR 0x20, CHR 0xE6, CHR 0x88, CHR 0x96, CHR 0x20, CHR 0x6D,
      CHR 0x75, CHR 0x6C, CHR 0x74, CHR 0x69, CHR 0x70, CHR 0x61, CHR 0x72, CHR 0x74,
      CHR 0x2F, CHR 0x66, CHR 0x6F, CHR 0x72, CHR 0x6D, CHR 0x2D, CHR 0x64, CHR 0x61,
      CHR 0x74, CHR 0x61]"

definition msg_bad_length :: string where
  "msg_bad_length =
     [CHR 0xE8, CHR 0xAF, CHR 0xB7, CHR 0xE6, CHR 0xB1, CHR 0x82, CHR 0xE5, CHR 0x8F,
      CHR 0x82, CHR 0xE6, CHR 0x95, CHR 0xB0, CHR 0xE6, CHR 0xA0, CHR 0xA1, CHR 0xE9,
      CHR 0xAA, CHR 0x8C, CHR 0xE5, CHR 0xA4, CHR 0xB1, CHR 0xE8, CHR 0xB4, CHR 0xA5,
      CHR 0xEF, CHR 0xBC, CHR 0x9A, CHR 0xE8, CHR 0xAF, CHR 0xB7, CHR 0xE6, CHR 0xB1,
      CHR 0x82, CHR 0xE4, CHR 0xBD, CHR 0x93, CHR 0xE8, CHR 0xBF, CHR 0x87, CHR 0xE5,
      CHR 0xA4, CHR 0xA7]"

definition msg_running :: string where
  "msg_running =
     [CHR 0xE8, CHR 0xBF, CHR 0x90, CHR 0xE8, CHR 0xA1, CHR 0x8C, CHR 0xE4, CHR 0xB8,
      CHR 0xAD]"

definition msg_closing :: string where
  "msg_closing =
     [CHR 0xE5, CHR 0x85, CHR 0xB3, CHR 0xE9, CHR 0x97, CHR 0xAD, CHR 0xE4, CHR 0xB8,
      CHR 0xAD]"

definition msg_unhealthy :: string where
  "msg_unhealthy =
     [CHR 0xE5, CHR 0xBC, CHR 0x82, CHR 0xE5, CHR 0xB8, CHR 0xB8]"

definition msg_server_closing :: string where
  "msg_server_closing =
     [CHR 0xE6, CHR 0x9C, CHR 0x8D, CHR 0xE5, CHR 0x8A, CHR 0xA1, CHR 0xE5, CHR 0x85,
      CHR 0xB3, CHR 0xE9, CHR 0x97, CHR 0xAD, CHR 0xE4, CHR 0xB8, CHR 0xAD]"

definition msg_check_failed :: string where
  "msg_check_failed =
     [CHR 0xE5, CHR 0x81, CHR 0xA5, CHR 0xE5, CHR 0xBA, CHR 0xB7, CHR 0xE6, CHR 0xA3,
      CHR 0x80, CHR 0xE6, CHR 0x9F, CHR 0xA5, CHR 0xE6, CHR 0x9C, CHR 0xAA, CHR 0xE9,
      CHR 0x80, CHR 0x9A, CHR 0xE8, CHR 0xBF, CHR 0x87]"

definition unit_seconds :: string where
  "unit_seconds =
     [CHR 0xE7, CHR 0xA7, CHR 0x92]"

definition unit_minutes :: string where
  "unit_minutes =
     [CHR 0xE5, CHR 0x88, CHR 0x86, CHR 0xE9, CHR 0x92, CHR 0x9F]"

definition unit_hours :: string where
  "unit_hours =
     [CHR 0xE5, CHR 0xB0, CHR 0x8F, CHR 0xE6, CHR 0x97, CHR 0xB6]"

definition msg_slow :: string where
  "msg_slow =
     [CHR 0xE6, CHR 0x85, CHR 0xA2, CHR 0xE8, CHR 0xAF, CHR 0xB7, CHR 0xE6, CHR 0xB1,
      CHR 0x82]"

definition msg_access :: string where
  "msg_access =
     [CHR 0xE8, CHR 0xAE, CHR 0xBF, CHR 0xE9, CHR 0x97, CHR 0xAE, CHR 0xE6, CHR 0x97,
      CHR 0xA5, CHR 0xE5, CHR 0xBF, CHR 0x97]"

definition msg_panic :: string where
  "msg_panic =
     [CHR 0x77, CHR 0x65, CHR 0x62, CHR 0x78, CHR 0xEF, CHR 0xBC, CHR 0x9A, CHR 0xE8,
      CHR 0xAF, CHR 0xB7, CHR 0xE6, CHR 0xB1, CHR 0x82, CHR 0xE5, CHR 0xA4, CHR 0x84,
      CHR 0xE7, CHR 0x90, CHR 0x86, CHR 0xE5, CHR 0x8F, CHR 0x91, CHR 0xE7, CHR 0x94,
      CHR 0x9F, CHR 0x20, CHR 0x70, CHR 0x61, CHR 0x6E, CHR 0x69, CHR 0x63]"

end
