(* ===== verification/Middlewares.thy ===== *)
theory Middlewares
  imports Metrics Messages
begin

text \<open>
  The middlewares of \<open>middleware/\<close> that act on one request: CORS, security headers, request
  validation, body limit, request id, hooks, panic recovery, timeout and compression.

  An \<open>http.Handler\<close> acts on the state \<open>'s\<close> that the requests of a server share and on the
  context of its request, and returns or panics. Its \<open>w\<close> is the writer of the context, as
  the middlewares keep the two equal. A middleware maps the handler behind it to a handler.
\<close>

type_synonym ('s, 'h) http_handler = "'s \<times> 'h Context \<Rightarrow> ('s \<times> 'h Context) \<times> ending"

definition on_header :: "(header \<Rightarrow> header) \<Rightarrow> 'h Context \<Rightarrow> 'h Context" where
  "on_header f c = c\<lparr>writer := map_header f (writer c)\<rparr>"

definition call_writer :: "wcall list \<Rightarrow> 'h Context \<Rightarrow> 'h Context" where
  "call_writer calls c = c\<lparr>writer := writer_calls calls (writer c)\<rparr>"

text \<open>What a logger receives.\<close>

datatype log_level = LogInfo | LogWarn | LogError

record log_entry =
  le_level :: log_level
  le_msg :: string
  le_fields :: "(string \<times> string) list"

subsection \<open>CORS\<close>

record CORSConfig =
  AllowedOrigins :: "string list"
  AllowedMethods :: "string list"
  AllowedHeaders :: "string list"
  ExposeHeaders :: "string list"
  CORS_MaxAge :: int
  AllowCredentials :: bool
  AllowPrivateNetwork :: bool

definition set_if :: "bool \<Rightarrow> string \<Rightarrow> string \<Rightarrow> header \<Rightarrow> header" where
  "set_if b k v h = (if b then header_set k v h else h)"

definition cors_headers :: "CORSConfig \<Rightarrow> string \<Rightarrow> header \<Rightarrow> header" where
  "cors_headers cfg origin h =
     (let allowAll = list_ex (\<lambda>o'. o' = ''*'') (AllowedOrigins cfg);
          h = (if allowAll then header_set ''Access-Control-Allow-Origin'' ''*'' h
               else if origin \<noteq> [] then
                 (case find (\<lambda>o'. o' = origin) (AllowedOrigins cfg) of
                    None \<Rightarrow> h
                  | Some _ \<Rightarrow> header_set ''Vary'' ''Origin'' (header_set ''Access-Control-Allow-Origin'' origin h))
               else h);
          h = set_if (length (AllowedMethods cfg) > 0) ''Access-Control-Allow-Methods'' (join_with '', '' (AllowedMethods cfg)) h;
          h = set_if (length (AllowedHeaders cfg) > 0) ''Access-Control-Allow-Headers'' (join_with '', '' (AllowedHeaders cfg)) h;
          h = set_if (length (ExposeHeaders cfg) > 0) ''Access-Control-Expose-Headers'' (join_with '', '' (ExposeHeaders cfg)) h;
          h = set_if (AllowCredentials cfg) ''Access-Control-Allow-Credentials'' ''true'' h;
          h = set_if (AllowPrivateNetwork cfg) ''Access-Control-Allow-Private-Network'' ''true'' h
      in set_if (CORS_MaxAge cfg > 0) ''Access-Control-Max-Age'' (itoa (CORS_MaxAge cfg)) h)"

definition CORS :: "CORSConfig \<Rightarrow> ('s, 'h) http_handler \<Rightarrow> ('s, 'h) http_handler" where
  "CORS cfg next_handler sc =
     (case sc of (s, c) \<Rightarrow>
        (let c1 = on_header (cors_headers cfg (header_get (req_header (request c)) ''Origin'')) c
         in if req_method (request c) = ''OPTIONS'' then ((s, call_writer [CWriteHeader 204] c1), Returned)
            else next_handler (s, c1)))"

definition DefaultCORSConfig :: CORSConfig where
  "DefaultCORSConfig =
     \<lparr>AllowedOrigins = [''*''], AllowedMethods = [''GET'', ''POST'', ''PUT'', ''DELETE'', ''PATCH'', ''OPTIONS''],
      AllowedHeaders = [''Origin'', ''Content-Type'', ''Accept'', ''Authorization'', ''X-Request-ID''],
      ExposeHeaders = [''X-Request-ID''], CORS_MaxAge = 86400, AllowCredentials = False,
      AllowPrivateNetwork = False\<rparr>"

subsection \<open>Security headers\<close>

record SecurityHeadersOptions =
  ContentTypeNoSniff :: bool
  FrameDeny :: bool
  ReferrerPolicy :: string
  HSTSMaxAge :: int
  PermissionsPolicy :: string
  CrossOriginOpenerPolicy :: string
  CrossOriginResourcePolicy :: string
  CrossOriginEmbedderPolicy :: string
  ContentSecurityPolicy :: string
  ContentSecurityPolicyReportOnly :: string
  HSTSIncludeSubDomains :: bool
  HSTSPreload :: bool
  OriginAgentCluster :: bool

text \<open>\<open>int64(d.Seconds())\<close> of a positive duration of whole seconds, as the server passes it.\<close>

definition whole_seconds :: "int \<Rightarrow> int" where
  "whole_seconds d = d div 1000000000"

definition security_headers :: "SecurityHeadersOptions \<Rightarrow> header \<Rightarrow> header" where
  "security_headers opts h =
     (let hsts = ''max-age='' @ itoa (whole_seconds (HSTSMaxAge opts));
          hsts = (if HSTSIncludeSubDomains opts then hsts @ ''; includeSubDomains'' else hsts);
          hsts = (if HSTSPreload opts then hsts @ ''; preload'' else hsts);
          h = set_if (ContentTypeNoSniff opts) ''X-Content-Type-Options'' ''nosniff'' h;
          h = set_if (FrameDeny opts) ''X-Frame-Options'' ''DENY'' h;
          h = set_if (ReferrerPolicy opts \<noteq> []) ''Referrer-Policy'' (ReferrerPolicy opts) h;
          h = set_if (HSTSMaxAge opts > 0) ''Strict-Transport-Security'' hsts h;
          h = set_if (PermissionsPolicy opts \<noteq> []) ''Permissions-Policy'' (PermissionsPolicy opts) h;
          h = set_if (CrossOriginOpenerPolicy opts \<noteq> []) ''Cross-Origin-Opener-Policy'' (CrossOriginOpenerPolicy opts) h;
          h = set_if (CrossOriginResourcePolicy opts \<noteq> []) ''Cross-Origin-Resource-Policy'' (CrossOriginResourcePolicy opts) h;
          h = set_if (CrossOriginEmbedderPolicy opts \<noteq> []) ''Cross-Origin-Embedder-Policy'' (CrossOriginEmbedderPolicy opts) h;
          h = set_if (ContentSecurityPolicy opts \<noteq> []) ''Content-Security-Policy'' (ContentSecurityPolicy opts) h;
          h = set_if (ContentSecurityPolicyReportOnly opts \<noteq> []) ''Content-Security-Policy-Report-Only'' (ContentSecurityPolicyReportOnly opts) h
      in set_if (OriginAgentCluster opts) ''Origin-Agent-Cluster'' ''?1'' h)"

definition SecurityHeaders :: "SecurityHeadersOptions \<Rightarrow> ('s, 'h) http_handler \<Rightarrow> ('s, 'h) http_handler" where
  "SecurityHeaders opts next_handler sc =
     (case sc of (s, c) \<Rightarrow> next_handler (s, on_header (security_headers opts) c))"

subsection \<open>Validation and body limit\<close>

definition maxRequestBodyBytes :: int where
  "maxRequestBodyBytes = 10 * 1024 * 1024"

definition isJSONContentType :: "string \<Rightarrow> bool" where
  "isJSONContentType ct \<longleftrightarrow>
     (let i = index_byte ct (CHR '';'') in if i \<ge> 0 then take (nat i) ct else ct) = ''application/json''"

definition isMultipartForm :: "string \<Rightarrow> bool" where
  "isMultipartForm ct \<longleftrightarrow>
     (let i = index_byte ct (CHR '';'') in if i \<ge> 0 then take (nat i) ct else ct) = ''multipart/form-data''"

text \<open>The registered rule: the message of the error, or \<open>None\<close>.\<close>

definition http_request_rule :: "string \<Rightarrow> string \<Rightarrow> int \<Rightarrow> string option" where
  "http_request_rule method ct len =
     (if method = ''GET'' \<or> method = ''HEAD'' \<or> method = ''OPTIONS'' then None
      else if ct = [] then None
      else if \<not> isJSONContentType ct \<and> \<not> isMultipartForm ct then Some msg_bad_content_type
      else if len > maxRequestBodyBytes then Some msg_bad_length else None)"

text \<open>\<open>error_text\<close> is what \<open>validx\<close> and \<open>errx\<close> make of the message.\<close>

definition Validation ::
    "(string \<Rightarrow> string) \<Rightarrow> (goval \<Rightarrow> string option) \<Rightarrow> int \<Rightarrow> ('s, 'h) http_handler \<Rightarrow> ('s, 'h) http_handler" where
  "Validation error_text marshal now next_handler sc =
     (case sc of (s, c) \<Rightarrow>
        (case http_request_rule (req_method (request c)) (header_get (req_header (request c)) ''Content-Type'')
                (content_length (request c)) of
           Some msg \<Rightarrow> ((s, AbortWithStatusJSON marshal now 400 (error_text msg) None c), Returned)
         | None \<Rightarrow> next_handler (s, c)))"

text \<open>A body is never nil in a served request.\<close>

definition BodyLimitWithOptions ::
    "int \<Rightarrow> string \<Rightarrow> (goval \<Rightarrow> string option) \<Rightarrow> int \<Rightarrow> ('s, 'h) http_handler \<Rightarrow> ('s, 'h) http_handler" where
  "BodyLimitWithOptions maxBytes message marshal now next_handler sc =
     (case sc of (s, c) \<Rightarrow>
        (let msg = (if message = [] then msg_body_too_large else message); r = request c
         in if maxBytes \<le> 0 then next_handler (s, c)
            else if content_length r > maxBytes then ((s, AbortWithStatusJSON marshal now 413 msg None c), Returned)
            else next_handler (s, SetRequest (r\<lparr>body_limits := maxBytes # body_limits r\<rparr>) c)))"

definition BodyLimit :: "int \<Rightarrow> (goval \<Rightarrow> string option) \<Rightarrow> int \<Rightarrow> ('s, 'h) http_handler \<Rightarrow> ('s, 'h) http_handler" where
  "BodyLimit maxBytes = BodyLimitWithOptions maxBytes []"

subsection \<open>Request id and hooks\<close>

text \<open>\<open>newRequestID\<close>: the result of the random source, and the time when it fails.\<close>

definition newRequestID :: "string option \<Rightarrow> int \<Rightarrow> string" where
  "newRequestID random_hex unix_nano =
     (case random_hex of None \<Rightarrow> ''req-'' @ itoa unix_nano | Some rid \<Rightarrow> rid)"

definition RequestIDWithOptions :: "string \<Rightarrow> string \<Rightarrow> ('s, 'h) http_handler \<Rightarrow> ('s, 'h) http_handler" where
  "RequestIDWithOptions opt_header generated next_handler sc =
     (case sc of (s, c) \<Rightarrow>
        (let canonical = canonical_key (if opt_header = [] then ''X-Request-ID'' else opt_header);
             given = GetHeaderCanonical canonical c;
             requestID = (if given = [] then generated else given);
             c1 = on_header (header_set canonical requestID) (Set_val ''requestId'' (StrVal requestID) c);
             r = request c1
         in next_handler (s, SetRequest (r\<lparr>req_header := header_set canonical requestID (req_header r)\<rparr>) c1)))"

definition RequestID_default :: "string \<Rightarrow> ('s, 'h) http_handler \<Rightarrow> ('s, 'h) http_handler" where
  "RequestID_default = RequestIDWithOptions []"

definition run_hook :: "('s, 'h) http_handler option \<Rightarrow> ('s, 'h) http_handler" where
  "run_hook hook sc = (case hook of None \<Rightarrow> (sc, Returned) | Some f \<Rightarrow> f sc)"

definition and_then :: "('s, 'h) http_handler \<Rightarrow> ('s, 'h) http_handler \<Rightarrow> ('s, 'h) http_handler" where
  "and_then f g sc = (case f sc of (sc1, Returned) \<Rightarrow> g sc1 | r \<Rightarrow> r)"

definition Hooks ::
    "('s, 'h) http_handler option \<Rightarrow> ('s, 'h) http_handler option \<Rightarrow> ('s, 'h) http_handler \<Rightarrow> ('s, 'h) http_handler" where
  "Hooks onRequest onResponse next_handler =
     and_then (run_hook onRequest) (and_then next_handler (run_hook onResponse))"

subsection \<open>Recovery\<close>

text \<open>
  \<open>panic_text\<close> is the panic value as \<open>%v\<close> prints it, \<open>stack\<close> the stack trace; \<open>m\<close> is the
  pointer to the metrics and \<open>logs\<close> the one to the log, if there are any.
\<close>

record panic_env =
  panic_text :: string
  panic_stack :: string

definition panic_log :: "panic_env \<Rightarrow> string \<Rightarrow> log_entry" where
  "panic_log pe rid =
     \<lparr>le_level = LogError, le_msg = msg_panic,
      le_fields = [(''requestId'', rid), (''stack'', panic_stack pe), (''panic'', panic_text pe)]\<rparr>"

definition recovered ::
    "('s, log_entry list) ptr option \<Rightarrow> ('s, Metrics) ptr option \<Rightarrow> bool \<Rightarrow> panic_env \<Rightarrow> (goval \<Rightarrow> string option) \<Rightarrow> int
      \<Rightarrow> 's \<times> 'h Context \<Rightarrow> 's \<times> 'h Context" where
  "recovered logs m debugMode pe marshal now sc =
     (case sc of (s, c) \<Rightarrow>
        (let s = (case m of None \<Rightarrow> s | Some p \<Rightarrow> modify p (run_ops recordPanic) s);
             s = (case logs of None \<Rightarrow> s | Some p \<Rightarrow> modify p (\<lambda>es. es @ [panic_log pe (RequestID c)]) s);
             c = Set_val ''recoveryError'' (StrVal (msg_panic_colon @ panic_text pe)) c;
             c = Set_val ''recoveryStack'' (StrVal (panic_stack pe)) c;
             msg = (if debugMode then msg_internal_colon @ panic_text pe else msg_internal)
         in (s, AbortWithStatusJSON marshal now 500 msg None c)))"

definition RecoveryWithOptions ::
    "('s, log_entry list) ptr option \<Rightarrow> ('s, Metrics) ptr option \<Rightarrow> bool \<Rightarrow> panic_env \<Rightarrow> (goval \<Rightarrow> string option) \<Rightarrow> int
      \<Rightarrow> ('s, 'h) http_handler \<Rightarrow> ('s, 'h) http_handler" where
  "RecoveryWithOptions logs m debugMode pe marshal now next_handler sc =
     (case next_handler sc of
        (sc1, Returned) \<Rightarrow> (sc1, Returned)
      | (sc1, Panicked) \<Rightarrow> (recovered logs m debugMode pe marshal now sc1, Returned))"

definition Recovery ::
    "panic_env \<Rightarrow> (goval \<Rightarrow> string option) \<Rightarrow> int \<Rightarrow> ('s, 'h) http_handler \<Rightarrow> ('s, 'h) http_handler" where
  "Recovery = RecoveryWithOptions None None False"

definition RecoveryWithMetrics ::
    "('s, Metrics) ptr \<Rightarrow> panic_env \<Rightarrow> (goval \<Rightarrow> string option) \<Rightarrow> int \<Rightarrow> ('s, 'h) http_handler \<Rightarrow> ('s, 'h) http_handler" where
  "RecoveryWithMetrics m = RecoveryWithOptions None (Some m) False"

definition RecoveryWith ::
    "('s, log_entry list) ptr option \<Rightarrow> ('s, Metrics) ptr option \<Rightarrow> panic_env \<Rightarrow> (goval \<Rightarrow> string option) \<Rightarrow> int
      \<Rightarrow> ('s, 'h) http_handler \<Rightarrow> ('s, 'h) http_handler" where
  "RecoveryWith logs m = RecoveryWithOptions logs m False"

subsection \<open>Timeout and compression\<close>

text \<open>
  \<open>calls_before\<close> is the number of calls on the writer that come before the deadline. When the
  handler panics, the deferred \<open>cancel\<close> runs and the context keeps the writers it has.
\<close>

definition cancel_timeout :: "nat \<Rightarrow> Writer \<Rightarrow> Writer" where
  "cancel_timeout n w =
     w\<lparr>w_stack := (w_stack w)[base_index n w :=
         (case w_stack w ! base_index n w of TimeoutW t \<Rightarrow> TimeoutW (t\<lparr>tw_cancelled := True\<rparr>) | x \<Rightarrow> x)]\<rparr>"

definition TimeoutWithOptions ::
    "int \<Rightarrow> string \<Rightarrow> nat \<Rightarrow> (goval \<Rightarrow> string option) \<Rightarrow> int \<Rightarrow> ('s, 'h) http_handler \<Rightarrow> ('s, 'h) http_handler" where
  "TimeoutWithOptions timeout message calls_before marshal now next_handler sc =
     (case sc of (s, c) \<Rightarrow>
        (if timeout \<le> 0 then next_handler (s, c)
         else
           (let msg = (if message = [] then msg_timeout else message);
                n = length (w_stack (writer c));
                tw = TimeoutW \<lparr>tw_before = calls_before, tw_cancelled = False, timedOut = False, wroteHeader = False\<rparr>
            in case next_handler (s, SetWriter (push_wrapper tw (writer c)) c) of
                 ((s1, c1), Panicked) \<Rightarrow> ((s1, SetWriter (cancel_timeout n (writer c1)) c1), Panicked)
               | ((s1, c1), Returned) \<Rightarrow>
                   (let c2 = SetWriter (restore_writer n (writer c1)) c1
                    in case w_stack (writer c1) ! base_index n (writer c1) of
                         TimeoutW t \<Rightarrow>
                           (if timedOut t \<and> \<not> wroteHeader t
                            then ((s1, AbortWithStatusJSON marshal now 503 msg None (ResetWriteState c2)), Returned)
                            else ((s1, c2), Returned))
                       | _ \<Rightarrow> ((s1, c2), Returned)))))"

definition Timeout ::
    "int \<Rightarrow> nat \<Rightarrow> (goval \<Rightarrow> string option) \<Rightarrow> int \<Rightarrow> ('s, 'h) http_handler \<Rightarrow> ('s, 'h) http_handler" where
  "Timeout timeout = TimeoutWithOptions timeout []"

definition acceptsGzip :: "string \<Rightarrow> bool" where
  "acceptsGzip h = list_ex (\<lambda>part. trim_space part = ''gzip'') (split_on (CHR '','') h)"

record GzipOptions =
  MinSize :: int
  Level :: int

definition gzip_min_size :: "GzipOptions \<Rightarrow> int" where
  "gzip_min_size opts = (if MinSize opts \<le> 0 then 1024 else MinSize opts)"

text \<open>\<open>HuffmanOnly\<close> is -2, \<open>BestCompression\<close> 9 and \<open>DefaultCompression\<close> -1.\<close>

definition gzip_level :: "GzipOptions \<Rightarrow> int" where
  "gzip_level opts = (if Level opts = 0 \<or> Level opts < -2 \<or> Level opts > 9 then -1 else Level opts)"

definition new_gzipWriter :: "(gz_input list \<Rightarrow> gz_input \<Rightarrow> string list) \<Rightarrow> int \<Rightarrow> gzipWriter" where
  "new_gzipWriter emit minsz =
     \<lparr>gz_out = emit, gz_hist = [], wroteHead = False, gw_started = False, decided = False, compress = False,
      minSize = minsz, gw_buf = []\<rparr>"

text \<open>\<open>Close\<close> writes to the writer behind the wrapper.\<close>

definition close_gzip :: "gzipWriter \<Rightarrow> Writer \<Rightarrow> Writer" where
  "close_gzip gw w = (case gw_Close gw (w_header w) of (gw1, h, calls) \<Rightarrow> writer_calls calls (w\<lparr>w_header := h\<rparr>))"

definition GzipWithOptions ::
    "(int \<Rightarrow> gz_input list \<Rightarrow> gz_input \<Rightarrow> string list) \<Rightarrow> GzipOptions \<Rightarrow> ('s, 'h) http_handler \<Rightarrow> ('s, 'h) http_handler" where
  "GzipWithOptions compressor opts next_handler sc =
     (case sc of (s, c) \<Rightarrow>
        (if \<not> acceptsGzip (header_get (req_header (request c)) ''Accept-Encoding'') then next_handler (s, c)
         else
           (let n = length (w_stack (writer c));
                gw = GzipW (new_gzipWriter (compressor (gzip_level opts)) (gzip_min_size opts))
            in case next_handler (s, SetWriter (push_wrapper gw (writer c)) c) of
                 ((s1, c1), Panicked) \<Rightarrow> ((s1, c1), Panicked)
               | ((s1, c1), Returned) \<Rightarrow>
                   (let w = restore_writer n (writer c1)
                    in case w_stack (writer c1) ! base_index n (writer c1) of
                         GzipW g \<Rightarrow> ((s1, SetWriter (close_gzip g w) c1), Returned)
                       | _ \<Rightarrow> ((s1, SetWriter w c1), Returned)))))"

definition Gzip :: "(int \<Rightarrow> gz_input list \<Rightarrow> gz_input \<Rightarrow> string list) \<Rightarrow> ('s, 'h) http_handler \<Rightarrow> ('s, 'h) http_handler" where
  "Gzip compressor = GzipWithOptions compressor \<lparr>MinSize = 0, Level = 0\<rparr>"

end
