(* ===== verification/StaticFiles.thy ===== *)
theory StaticFiles
  imports Middlewares RouterServe
begin

text \<open>
  Static files and the fallback of single page applications: \<open>static.go\<close>, on the part of
  \<open>path\<close> and \<open>net/http\<close> it uses (\<open>path.Clean\<close>, \<open>http.FileServer\<close>,
  \<open>http.ServeContent\<close> with its preconditions).

  A file system is the function behind \<open>Open\<close>; it acts on the state of the disk, so two
  calls for the same name may differ. The state of a handler also counts the files that are open.
\<close>

subsection \<open>Paths\<close>

fun clean_parts :: "bool \<Rightarrow> string list \<Rightarrow> string list \<Rightarrow> string list" where
  "clean_parts rooted [] acc = rev acc"
| "clean_parts rooted (p # ps) acc =
     (if p = [] \<or> p = ''.'' then clean_parts rooted ps acc
      else if p = ''..'' then
        (if acc = [] then clean_parts rooted ps (if rooted then [] else [p])
         else if hd acc = ''..'' then clean_parts rooted ps (p # acc)
         else clean_parts rooted ps (tl acc))
      else clean_parts rooted ps (p # acc))"

definition path_clean :: "string \<Rightarrow> string" where
  "path_clean s =
     (if s = [] then ''.''
      else (let rooted = (hd s = CHR ''/''); t = join_with ''/'' (clean_parts rooted (split_on (CHR ''/'') s) [])
            in if rooted then CHR ''/'' # t else if t = [] then ''.'' else t))"

definition path_join :: "string list \<Rightarrow> string" where
  "path_join elems =
     (let es = filter (\<lambda>e. e \<noteq> []) elems in if es = [] then [] else path_clean (join_with ''/'' es))"

definition path_base :: "string \<Rightarrow> string" where
  "path_base s =
     (if s = [] then ''.''
      else (let t = rev (takeWhile (\<lambda>c. c \<noteq> CHR ''/'') (dropWhile (\<lambda>c. c = CHR ''/'') (rev s)))
            in if t = [] then ''/'' else t))"

subsection \<open>Files\<close>

datatype fs_error = NotExist | Permission | OtherFailure

text \<open>\<open>f_stat\<close> is the result of \<open>Stat\<close>, \<open>f_listing\<close> the page that lists the entries of
  a directory; times are in seconds since the epoch.\<close>

record file_info =
  fi_name :: string
  fi_dir :: bool
  fi_mod :: int
  fi_size :: int

record fs_file =
  f_stat :: "file_info option"
  f_body :: string
  f_listing :: "string option"

record 'd fs_state =
  disk :: 'd
  open_files :: int

type_synonym 'd filesystem = "string \<Rightarrow> 'd \<Rightarrow> (fs_error + fs_file) \<times> 'd"

definition fs_open :: "'d filesystem \<Rightarrow> string \<Rightarrow> 'd fs_state \<Rightarrow> (fs_error + fs_file) \<times> 'd fs_state" where
  "fs_open fs name st =
     (case fs name (disk st) of
        (Inl e, d) \<Rightarrow> (Inl e, st\<lparr>disk := d\<rparr>)
      | (Inr f, d) \<Rightarrow> (Inr f, st\<lparr>disk := d, open_files := open_files st + 1\<rparr>))"

definition fs_close :: "'d fs_state \<Rightarrow> 'd fs_state" where
  "fs_close st = st\<lparr>open_files := open_files st - 1\<rparr>"

text \<open>\<open>info != nil \<and> \<not> info.IsDir()\<close> and \<open>info.IsDir()\<close> after a \<open>Stat\<close> without error.\<close>

definition is_file :: "fs_file \<Rightarrow> bool" where
  "is_file f = (case f_stat f of None \<Rightarrow> False | Some i \<Rightarrow> \<not> fi_dir i)"

definition is_dir :: "fs_file \<Rightarrow> bool" where
  "is_dir f = (case f_stat f of None \<Rightarrow> False | Some i \<Rightarrow> fi_dir i)"

subsection \<open>Entity tags\<close>

fun hex_nat :: "nat \<Rightarrow> string" where
  "hex_nat n = (if n < 16 then [hexDigits ! n] else hex_nat (n div 16) @ [hexDigits ! (n mod 16)])"

declare hex_nat.simps [simp del]

text \<open>\<open>%x\<close> of a signed integer.\<close>

definition hex_int :: "int \<Rightarrow> string" where
  "hex_int i = (if i < 0 then CHR ''-'' # hex_nat (nat (- i)) else hex_nat (nat i))"

definition quote :: char where "quote = CHR 0x22"

definition weakETag :: "int \<Rightarrow> int \<Rightarrow> string" where
  "weakETag modTime sz = ''W/'' @ [quote] @ hex_int modTime @ ''-'' @ hex_int sz @ [quote]"

definition trim_string :: "string \<Rightarrow> string" where
  "trim_string s =
     (let sp = (\<lambda>c. c = CHR '' '' \<or> c = CHR 0x09 \<or> c = CHR 0x0A \<or> c = CHR 0x0D)
      in rev (dropWhile sp (rev (dropWhile sp s))))"

definition etag_char :: "char \<Rightarrow> bool" where
  "etag_char c \<longleftrightarrow> c = CHR 0x21 \<or> (CHR 0x23 \<le> c \<and> c \<le> CHR 0x7E) \<or> CHR 0x80 \<le> c"

text \<open>The tag at the front of a text, and what follows it; the tag is empty if there is none.\<close>

definition scanETag :: "string \<Rightarrow> string \<times> string" where
  "scanETag s0 =
     (let s = trim_string s0;
          start = (if has_prefix s ''W/'' then 2 else 0);
          t = drop start s
      in if length t < 2 \<or> hd t \<noteq> quote then ([], [])
         else (let body = takeWhile etag_char (tl t); rest = dropWhile etag_char (tl t)
               in if rest \<noteq> [] \<and> hd rest = quote then (take start s @ [quote] @ body @ [quote], tl rest)
                  else ([], [])))"

definition etagWeakMatch :: "string \<Rightarrow> string \<Rightarrow> bool" where
  "etagWeakMatch a b = (trim_prefix a ''W/'' = trim_prefix b ''W/'')"

definition etagStrongMatch :: "string \<Rightarrow> string \<Rightarrow> bool" where
  "etagStrongMatch a b = (a = b \<and> a \<noteq> [] \<and> hd a = quote)"

text \<open>Whether a list of tags has one that \<open>match\<close> accepts; \<open>*\<close> always is one. The first
  argument bounds the rounds: each takes a byte at least.\<close>

fun any_tag :: "nat \<Rightarrow> (string \<Rightarrow> bool) \<Rightarrow> string \<Rightarrow> bool" where
  "any_tag 0 match buf = False"
| "any_tag (Suc n) match buf0 =
     (let buf = trim_string buf0
      in if buf = [] then False
         else if hd buf = CHR '','' then any_tag n match (tl buf)
         else if hd buf = CHR ''*'' then True
         else (case scanETag buf of
                 (tag, remain) \<Rightarrow> if tag = [] then False else if match tag then True else any_tag n match remain))"

subsection \<open>http.ServeContent\<close>

text \<open>The time format of \<open>net/http\<close>, the media types, and the answer to a \<open>Range\<close> header.\<close>

record http_env =
  he_time :: "int \<Rightarrow> string"
  he_parse :: "string \<Rightarrow> int option"
  he_mime :: "string \<Rightarrow> string \<Rightarrow> string"
  he_range :: "string \<Rightarrow> header \<Rightarrow> string \<Rightarrow> (header \<Rightarrow> header) \<times> wcall list"

definition is_zero_time :: "int \<Rightarrow> bool" where
  "is_zero_time m \<longleftrightarrow> m = 0 \<or> m = -62135596800"

datatype condition = CondNone | CondTrue | CondFalse

definition cond_of :: "bool \<Rightarrow> condition" where
  "cond_of b = (if b then CondTrue else CondFalse)"

definition reads :: "Request \<Rightarrow> bool" where
  "reads r \<longleftrightarrow> req_method r = ''GET'' \<or> req_method r = ''HEAD''"

definition checkIfMatch :: "Request \<Rightarrow> header \<Rightarrow> condition" where
  "checkIfMatch r h =
     (let im = header_get (req_header r) ''If-Match''
      in if im = [] then CondNone
         else cond_of (any_tag (Suc (length im)) (\<lambda>t. etagStrongMatch t (header_get h ''Etag'')) im))"

definition checkIfNoneMatch :: "Request \<Rightarrow> header \<Rightarrow> condition" where
  "checkIfNoneMatch r h =
     (let inm = header_get (req_header r) ''If-None-Match''
      in if inm = [] then CondNone
         else cond_of (\<not> any_tag (Suc (length inm)) (\<lambda>t. etagWeakMatch t (header_get h ''Etag'')) inm))"

definition checkIfUnmodifiedSince :: "http_env \<Rightarrow> Request \<Rightarrow> int \<Rightarrow> condition" where
  "checkIfUnmodifiedSince env r m =
     (let ius = header_get (req_header r) ''If-Unmodified-Since''
      in if ius = [] \<or> is_zero_time m then CondNone
         else (case he_parse env ius of None \<Rightarrow> CondNone | Some t \<Rightarrow> cond_of (m \<le> t)))"

definition checkIfModifiedSince :: "http_env \<Rightarrow> Request \<Rightarrow> int \<Rightarrow> condition" where
  "checkIfModifiedSince env r m =
     (let ims = header_get (req_header r) ''If-Modified-Since''
      in if \<not> reads r \<or> ims = [] \<or> is_zero_time m then CondNone
         else (case he_parse env ims of None \<Rightarrow> CondNone | Some t \<Rightarrow> cond_of (\<not> m \<le> t)))"

definition checkIfRange :: "http_env \<Rightarrow> Request \<Rightarrow> header \<Rightarrow> int \<Rightarrow> condition" where
  "checkIfRange env r h m =
     (let ir = header_get (req_header r) ''If-Range''
      in if \<not> reads r \<or> ir = [] then CondNone
         else (let tag = fst (scanETag ir)
               in if tag \<noteq> [] then cond_of (etagStrongMatch tag (header_get h ''Etag''))
                  else if is_zero_time m then CondFalse
                  else (case he_parse env ir of None \<Rightarrow> CondFalse | Some t \<Rightarrow> cond_of (t = m))))"

definition setLastModified :: "http_env \<Rightarrow> int \<Rightarrow> header \<Rightarrow> header" where
  "setLastModified env m h = (if is_zero_time m then h else header_set ''Last-Modified'' (he_time env m) h)"

definition not_modified_header :: "header \<Rightarrow> header" where
  "not_modified_header h =
     (let h1 = header_del ''Content-Encoding'' (header_del ''Content-Length'' (header_del ''Content-Type'' h))
      in if header_get h1 ''Etag'' \<noteq> [] then header_del ''Last-Modified'' h1 else h1)"

text \<open>An answer is the change to the header and the calls on the writer that follow it.\<close>

type_synonym answer = "(header \<Rightarrow> header) \<times> wcall list"

definition give :: "answer \<Rightarrow> 'h Context \<Rightarrow> 'h Context" where
  "give a c = call_writer (snd a) (on_header (fst a) c)"

definition content_answer :: "http_env \<Rightarrow> Request \<Rightarrow> header \<Rightarrow> string \<Rightarrow> int \<Rightarrow> string \<Rightarrow> answer" where
  "content_answer env r h name m body =
     (let h1 = setLastModified env m h;
          match = (case checkIfMatch r h1 of CondNone \<Rightarrow> checkIfUnmodifiedSince env r m | cnd \<Rightarrow> cnd);
          none_match = checkIfNoneMatch r h1;
          unchanged = (none_match = CondFalse
            \<or> none_match = CondNone \<and> checkIfModifiedSince env r m = CondFalse);
          range = header_get (req_header r) ''Range'';
          h2 = (if hindex h1 ''Content-Type'' = [] then header_set ''Content-Type'' (he_mime env name body) h1 else h1);
          h3 = header_set ''Accept-Ranges'' ''bytes'' h2;
          h4 = (if header_get h3 ''Content-Encoding'' = [] then header_set ''Content-Length'' (itoa (int (length body))) h3 else h3)
      in if match = CondFalse then (\<lambda>_. h1, [CWriteHeader 412])
         else if none_match = CondFalse \<and> \<not> reads r then (\<lambda>_. h1, [CWriteHeader 412])
         else if unchanged then (\<lambda>_. not_modified_header h1, [CWriteHeader 304])
         else if range \<noteq> [] \<and> checkIfRange env r h1 m \<noteq> CondFalse then he_range env range h2 body
         else (\<lambda>_. h4, CWriteHeader 200 # (if req_method r = ''HEAD'' then [] else [CWrite body])))"

definition serve_content :: "http_env \<Rightarrow> string \<Rightarrow> int \<Rightarrow> string \<Rightarrow> 'h Context \<Rightarrow> 'h Context" where
  "serve_content env name m body c =
     give (content_answer env (request c) (w_header (writer c)) name m body) c"

subsection \<open>http.FileServer\<close>

definition http_error :: "string \<Rightarrow> int \<Rightarrow> answer" where
  "http_error msg code =
     (\<lambda>h. header_set ''X-Content-Type-Options'' ''nosniff''
            (header_set ''Content-Type'' ''text/plain; charset=utf-8'' (header_del ''Content-Length'' h)),
      [CWriteHeader code, CWrite (msg @ [CHR 0x0A])])"

definition not_found :: "'h Context \<Rightarrow> 'h Context" where
  "not_found c = give (http_error ''404 page not found'' 404) c"

text \<open>The errors of the file server also drop the caching headers.\<close>

definition serve_error :: "string \<Rightarrow> int \<Rightarrow> 'h Context \<Rightarrow> 'h Context" where
  "serve_error msg code c =
     give (http_error msg code)
       (on_header (\<lambda>h. header_del ''Last-Modified'' (header_del ''Etag''
          (header_del ''Content-Encoding'' (header_del ''Cache-Control'' h)))) c)"

definition fs_failure :: "fs_error \<Rightarrow> 'h Context \<Rightarrow> 'h Context" where
  "fs_failure e c =
     (case e of NotExist \<Rightarrow> serve_error ''404 page not found'' 404 c
      | Permission \<Rightarrow> serve_error ''403 Forbidden'' 403 c
      | OtherFailure \<Rightarrow> serve_error ''500 Internal Server Error'' 500 c)"

definition local_redirect :: "string \<Rightarrow> 'h Context \<Rightarrow> 'h Context" where
  "local_redirect new_path c =
     (let q = raw_query (request c)
      in give (header_set ''Location'' (if q = [] then new_path else new_path @ ''?'' @ q), [CWriteHeader 301]) c)"

definition dir_list :: "fs_file \<Rightarrow> 'h Context \<Rightarrow> 'h Context" where
  "dir_list f c =
     (case f_listing f of
        None \<Rightarrow> give (http_error ''Error reading directory'' 500) c
      | Some page \<Rightarrow> give (header_set ''Content-Type'' ''text/html; charset=utf-8'', [CWrite page]) c)"

text \<open>What is sent of an open file or directory with its information.\<close>

definition serve_found :: "http_env \<Rightarrow> fs_file \<Rightarrow> file_info \<Rightarrow> 'h Context \<Rightarrow> 'h Context" where
  "serve_found env f i c =
     (if fi_dir i then
        (if checkIfModifiedSince env (request c) (fi_mod i) = CondFalse
         then give (not_modified_header, [CWriteHeader 304]) c
         else dir_list f (on_header (setLastModified env (fi_mod i)) c))
      else serve_content env (fi_name i) (fi_mod i) (f_body f) c)"

definition serve_opened ::
    "http_env \<Rightarrow> 'd filesystem \<Rightarrow> string \<Rightarrow> string \<Rightarrow> fs_file \<Rightarrow> 'd fs_state \<times> 'h Context \<Rightarrow> 'd fs_state \<times> 'h Context" where
  "serve_opened env fs url name f sc =
     (case sc of (st, c) \<Rightarrow>
       (case f_stat f of
          None \<Rightarrow> (st, fs_failure OtherFailure c)
        | Some i \<Rightarrow>
            (if fi_dir i \<and> \<not> has_suffix url ''/'' then (st, local_redirect (path_base url @ ''/'') c)
             else if \<not> fi_dir i \<and> has_suffix url ''/'' then
               (if path_base url = ''/'' \<or> path_base url = ''.''
                then (st, serve_error ''http: attempting to traverse a non-directory'' 500 c)
                else (st, local_redirect (''../'' @ path_base url) c))
             else if fi_dir i then
               (case fs_open fs (trim_suffix name ''/'' @ ''/index.html'') st of
                  (Inl e, st1) \<Rightarrow> (st1, serve_found env f i c)
                | (Inr ff, st1) \<Rightarrow>
                    (fs_close st1,
                     case f_stat ff of None \<Rightarrow> serve_found env f i c | Some ii \<Rightarrow> serve_found env ff ii c))
             else (st, serve_found env f i c))))"

definition FileServer :: "http_env \<Rightarrow> 'd filesystem \<Rightarrow> ('d fs_state, 'h) http_handler" where
  "FileServer env fs sc =
     (case sc of (st, c0) \<Rightarrow>
       (let p = req_path (request c0);
            url = (if has_prefix p ''/'' then p else CHR ''/'' # p);
            c = c0\<lparr>request := (request c0)\<lparr>req_path := url\<rparr>\<rparr>;
            name = path_clean url
        in if has_suffix url ''/index.html'' then ((st, local_redirect ''./'' c), Returned)
           else (case fs_open fs name st of
                   (Inl e, st1) \<Rightarrow> ((st1, fs_failure e c), Returned)
                 | (Inr f, st1) \<Rightarrow>
                     (case serve_opened env fs url name f (st1, c) of (st2, c2) \<Rightarrow> ((fs_close st2, c2), Returned)))))"

text \<open>\<open>http.StripPrefix\<close>, for a URL without an encoded path; the handler behind it gets a copy
  of the request.\<close>

definition StripPrefix :: "string \<Rightarrow> ('s, 'h) http_handler \<Rightarrow> ('s, 'h) http_handler" where
  "StripPrefix pre h sc =
     (if pre = [] then h sc
      else (case sc of (s, c) \<Rightarrow>
        (let p = trim_prefix (req_path (request c)) pre
         in if length p < length (req_path (request c)) then
              (case h (s, c\<lparr>request := (request c)\<lparr>req_path := p\<rparr>\<rparr>) of
                 ((s', c'), e) \<Rightarrow> ((s', c'\<lparr>request := request c\<rparr>), e))
            else ((s, not_found c), Returned))))"

subsection \<open>The handlers of static.go\<close>

definition disabled_listing ::
    "StaticOptions \<Rightarrow> 'd filesystem \<Rightarrow> string \<Rightarrow> 'd fs_state \<Rightarrow> bool \<times> 'd fs_state" where
  "disabled_listing opts fs p st =
     (if \<not> DisableIndex opts then (False, st)
      else (case fs_open fs p st of
              (Inl _, st1) \<Rightarrow> (False, st1)
            | (Inr f, st1) \<Rightarrow>
                (if is_dir f then
                   (case fs_open fs (path_join [p, ''index.html'']) (fs_close st1) of
                      (Inl _, st2) \<Rightarrow> (True, st2)
                    | (Inr _, st2) \<Rightarrow> (False, fs_close st2))
                 else (False, fs_close st1))))"

text \<open>The file that is served with an entity tag, still open.\<close>

definition tagged_file ::
    "StaticOptions \<Rightarrow> 'd filesystem \<Rightarrow> string \<Rightarrow> 'd fs_state \<Rightarrow> (fs_file \<times> file_info) option \<times> 'd fs_state" where
  "tagged_file opts fs p st =
     (if \<not> EnableETag opts then (None, st)
      else (case fs_open fs p st of
              (Inl _, st1) \<Rightarrow> (None, st1)
            | (Inr f, st1) \<Rightarrow>
                (case f_stat f of
                   None \<Rightarrow> (None, fs_close st1)
                 | Some i \<Rightarrow> if fi_dir i then (None, fs_close st1) else (Some (f, i), st1))))"

definition cache_header :: "StaticOptions \<Rightarrow> header \<Rightarrow> header" where
  "cache_header opts h =
     (if MaxAge opts > 0 then header_set ''Cache-Control'' (''max-age='' @ itoa (whole_seconds (MaxAge opts))) h else h)"

definition staticOptionsFileServer ::
    "http_env \<Rightarrow> 'd filesystem \<Rightarrow> StaticOptions \<Rightarrow> ('d fs_state, 'h) http_handler" where
  "staticOptionsFileServer env fs opts sc =
     (if MaxAge opts \<le> 0 \<and> \<not> DisableIndex opts \<and> \<not> EnableETag opts then FileServer env fs sc
      else (case sc of (st, c0) \<Rightarrow>
        (let c = on_header (cache_header opts) c0; p = req_path (request c0)
         in case disabled_listing opts fs p st of
              (True, st1) \<Rightarrow> ((st1, not_found c), Returned)
            | (False, st1) \<Rightarrow>
                (case tagged_file opts fs p st1 of
                   (Some (f, i), st2) \<Rightarrow>
                     ((fs_close st2,
                       serve_content env (path_base p) (fi_mod i) (f_body f)
                         (on_header (header_set ''Etag'' (weakETag (fi_mod i) (fi_size i))) c)), Returned)
                 | (None, st2) \<Rightarrow> FileServer env fs (st2, c)))))"

definition static_handler ::
    "http_env \<Rightarrow> string \<Rightarrow> 'd filesystem \<Rightarrow> StaticOptions \<Rightarrow> ('d fs_state, 'h) http_handler" where
  "static_handler env pre fs opts = StripPrefix pre (staticOptionsFileServer env fs opts)"

text \<open>The file behind the path of the request: the outcome \<open>Some\<close> ends the request.\<close>

definition spa_file ::
    "http_env \<Rightarrow> 'd filesystem \<Rightarrow> string \<Rightarrow> 'd fs_state \<times> 'h Context \<Rightarrow> ('d fs_state \<times> 'h Context) \<times> ending option" where
  "spa_file env fs p sc =
     (case sc of (st, c) \<Rightarrow>
       (case fs_open fs p st of
          (Inl _, st1) \<Rightarrow> ((st1, c), None)
        | (Inr f, st1) \<Rightarrow>
            (if is_file f then
               (case fs_open fs p (fs_close st1) of
                  (Inl _, st2) \<Rightarrow> ((st2, c), None)
                | (Inr f2, st2) \<Rightarrow>
                    (case f_stat f2 of
                       None \<Rightarrow> ((fs_close st2, c), Some Panicked)
                     | Some i \<Rightarrow> ((fs_close st2, serve_content env p (fi_mod i) (f_body f2) c), Some Returned)))
             else ((fs_close st1, c), None))))"

definition spaNoRoute ::
    "(goval \<Rightarrow> string option) \<Rightarrow> int \<Rightarrow> http_env \<Rightarrow> 'd filesystem \<Rightarrow> string \<Rightarrow> ('d fs_state, 'h) http_handler" where
  "spaNoRoute marshal now env fs indexPath sc =
     (case sc of (st, c) \<Rightarrow>
       (let missing = JSONResponse marshal now 404 msg_not_found None
        in if \<not> reads (request c) then ((st, missing c), Returned)
           else (case spa_file env fs (req_path (request c)) (st, c) of
                   (sc1, Some e) \<Rightarrow> (sc1, e)
                 | ((st1, _), None) \<Rightarrow>
                     (case fs_open fs indexPath st1 of
                        (Inl _, st2) \<Rightarrow> ((st2, missing c), Returned)
                      | (Inr f, st2) \<Rightarrow>
                          (case f_stat f of
                             None \<Rightarrow> ((fs_close st2, missing c), Returned)
                           | Some i \<Rightarrow>
                               if fi_dir i then ((fs_close st2, missing c), Returned)
                               else ((fs_close st2, serve_content env indexPath (fi_mod i) (f_body f) c), Returned))))))"

subsection \<open>Open files\<close>

lemma fs_open_count [simp]:
  "fs_open fs p st = (Inl e, st') \<Longrightarrow> open_files st' = open_files st"
  "fs_open fs p st = (Inr f, st') \<Longrightarrow> open_files st' = open_files st + 1"
  by (auto simp: fs_open_def split: prod.splits sum.splits)

lemma fs_close_count [simp]: "open_files (fs_close st) = open_files st - 1"
  by (simp add: fs_close_def)

lemma serve_opened_count:
  "serve_opened env fs url name f (st, c) = (st', c') \<Longrightarrow> open_files st' = open_files st"
  by (auto simp: serve_opened_def split: prod.splits sum.splits option.splits if_splits)

lemma FileServer_count: "open_files (fst (fst (FileServer env fs (st, c)))) = open_files st"
  by (auto simp: FileServer_def Let_def split: prod.split sum.split dest!: serve_opened_count)

lemma disabled_listing_count: "open_files (snd (disabled_listing opts fs p st)) = open_files st"
  by (auto simp: disabled_listing_def split: prod.split sum.split)

lemma tagged_file_count:
  "open_files (snd (tagged_file opts fs p st)) = open_files st + (if fst (tagged_file opts fs p st) = None then 0 else 1)"
  by (auto simp: tagged_file_def split: prod.split sum.split option.split)

lemma static_server_count: "open_files (fst (fst (staticOptionsFileServer env fs opts (st, c)))) = open_files st"
  using disabled_listing_count [of opts fs "req_path (request c)" st]
    tagged_file_count [of opts fs "req_path (request c)" "snd (disabled_listing opts fs (req_path (request c)) st)"]
  by (auto simp: staticOptionsFileServer_def FileServer_count Let_def split: prod.split bool.split option.split)

lemma StripPrefix_count:
  assumes "\<And>st c. open_files (fst (fst (h (st, c)))) = open_files st"
  shows "open_files (fst (fst (StripPrefix pre h (st, c)))) = open_files st"
proof (cases "pre = []")
  case False
  obtain s c' e where h: "h (st, c\<lparr>request := (request c)\<lparr>req_path := trim_prefix (req_path (request c)) pre\<rparr>\<rparr>) = ((s, c'), e)"
    by (metis surj_pair)
  then have "open_files s = open_files st" using assms by (metis fst_conv)
  with False h show ?thesis by (simp add: StripPrefix_def Let_def)
qed (simp add: StripPrefix_def assms)

lemma spa_file_count: "open_files (fst (fst (spa_file env fs p sc))) = open_files (fst sc)"
  by (auto simp: spa_file_def split: prod.split sum.split option.split)

text \<open>C22. No file stays open: whatever the file system answers, call by call, and whether the
  handler returns or panics, the static file handler and the fallback of a single page
  application close every file they opened.\<close>

theorem static_files_closed:
  fixes c :: "'h Context"
  shows "open_files (fst (fst (static_handler env pre fs opts (st, c)))) = open_files st
    \<and> open_files (fst (fst (spaNoRoute marshal now env fs indexPath (st, c)))) = open_files st"
proof
  show "open_files (fst (fst (static_handler env pre fs opts (st, c)))) = open_files st"
    unfolding static_handler_def by (intro StripPrefix_count static_server_count)
  obtain st1 c1 e where sp: "spa_file env fs (req_path (request c)) (st, c) = ((st1, c1), e)" by (metis surj_pair)
  then have "open_files st1 = open_files st" using spa_file_count [of env fs _ "(st, c)"] by (metis fst_conv)
  with sp show "open_files (fst (fst (spaNoRoute marshal now env fs indexPath (st, c)))) = open_files st"
    by (auto simp: spaNoRoute_def Let_def split: prod.split sum.split option.split)
qed

subsection \<open>Entity tags match themselves\<close>

lemma hex_nat_chars: "list_all etag_char (hex_nat n) \<and> hex_nat n \<noteq> []"
proof (induction n rule: hex_nat.induct)
  case (1 n)
  have "list_all (\<lambda>d. etag_char (hexDigits ! d)) [0..<16]" by code_simp
  then have d: "d < 16 \<Longrightarrow> etag_char (hexDigits ! d)" for d by (simp add: list_all_iff)
  with 1 show ?case by (subst (1 2) hex_nat.simps) auto
qed

lemma hex_int_chars [simp]: "list_all etag_char (hex_int i)"
  using hex_nat_chars by (simp add: hex_int_def etag_char_def less_eq_char_def)

lemma not_etag_quote [simp]: "\<not> etag_char quote"
  by (simp add: etag_char_def quote_def less_eq_char_def)

lemma quoted_take [simp]:
  "list_all etag_char b \<Longrightarrow> takeWhile etag_char (b @ quote # t) = b"
  "list_all etag_char b \<Longrightarrow> dropWhile etag_char (b @ quote # t) = quote # t"
  by (induction b) auto

lemma trim_weak [simp]: "trim_string (''W/'' @ [quote] @ b @ [quote]) = ''W/'' @ [quote] @ b @ [quote]"
  by (simp add: trim_string_def quote_def)

lemma scan_weak:
  assumes "list_all etag_char b"
  shows "scanETag (''W/'' @ [quote] @ b @ [quote]) = (''W/'' @ [quote] @ b @ [quote], [])"
  using assms trim_weak [of b] by (simp add: scanETag_def Let_def)

lemma weak_parts: "\<exists>b. weakETag m sz = ''W/'' @ [quote] @ b @ [quote] \<and> list_all etag_char b"
  by (intro exI [of _ "hex_int m @ ''-'' @ hex_int sz"])
    (simp add: weakETag_def etag_char_def less_eq_char_def)

lemma any_tag_weak: "any_tag (Suc n) (\<lambda>t. etagWeakMatch t (weakETag m sz)) (weakETag m sz)"
proof -
  obtain b where b: "weakETag m sz = ''W/'' @ [quote] @ b @ [quote]" "list_all etag_char b"
    using weak_parts by blast
  show ?thesis using scan_weak [OF b(2)] trim_weak [of b] by (simp add: b(1) Let_def etagWeakMatch_def)
qed

lemma weak_not_Nil [simp]: "weakETag m sz \<noteq> []"
  by (simp add: weakETag_def)

lemma canonical_static [simp]:
  "canonical_key ''Etag'' = ''Etag''" "canonical_key ''Last-Modified'' = ''Last-Modified''"
  "canonical_key ''Cache-Control'' = ''Cache-Control''" "canonical_key ''Content-Type'' = ''Content-Type''"
  "canonical_key ''Content-Length'' = ''Content-Length''" "canonical_key ''Content-Encoding'' = ''Content-Encoding''"
  "canonical_key ''Accept-Ranges'' = ''Accept-Ranges''"
  by code_simp+

lemma header_get_del [simp]:
  "header_get (header_del k h) k' = (if canonical_key k' = canonical_key k then [] else header_get h k')"
  by (simp add: header_get_def first_value_def)

lemma etag_kept [simp]:
  "header_get (setLastModified env m h) ''Etag'' = header_get h ''Etag''"
  "header_get (not_modified_header h) ''Etag'' = header_get h ''Etag''"
  by (simp_all add: setLastModified_def not_modified_header_def Let_def)

lemma call_writer_sel [simp]:
  "request (call_writer calls c) = request c" "request (on_header f c) = request c"
  "w_header (writer (on_header f c)) = f (w_header (writer c))" "w_log (writer (on_header f c)) = w_log (writer c)"
  "w_stack (writer (on_header f c)) = w_stack (writer c)"
  "w_stack (writer c) = [] \<Longrightarrow> w_log (writer (call_writer calls c)) = w_log (writer c) @ map (event (w_header (writer c))) calls"
  by (simp_all add: call_writer_def on_header_def writer_calls_def)

lemma tagged_branch:
  assumes "EnableETag opts" "\<And>d. fs (req_path (request c)) d = (Inr f, d)" "f_stat f = Some i" "\<not> fi_dir i"
  shows "\<exists>st'. staticOptionsFileServer env fs opts (st, c) =
    ((st', serve_content env (path_base (req_path (request c))) (fi_mod i) (f_body f)
        (on_header (\<lambda>h. header_set ''Etag'' (weakETag (fi_mod i) (fi_size i)) (cache_header opts h)) c)), Returned)"
  using assms
  by (auto simp: staticOptionsFileServer_def Let_def disabled_listing_def tagged_file_def fs_open_def is_dir_def on_header_def
      map_header_def split: prod.split)

text \<open>Entity tags work: with \<open>EnableETag\<close> a regular file is sent with its tag, and a client
  that sends the tag back in \<open>If-None-Match\<close> gets a 304 that carries the tag and no body, while
  one without conditions and ranges gets the whole file with status 200.\<close>

theorem etag_revalidates:
  assumes "EnableETag opts" "\<And>d. fs (req_path (request c)) d = (Inr f, d)" "f_stat f = Some i" "\<not> fi_dir i"
    and "req_method (request c) = ''GET''" "w_stack (writer c) = []"
    and "header_get (req_header (request c)) ''If-Match'' = []" "header_get (req_header (request c)) ''If-Unmodified-Since'' = []"
  shows "(header_get (req_header (request c)) ''If-None-Match'' = weakETag (fi_mod i) (fi_size i) \<longrightarrow>
      (\<exists>h. w_log (writer (snd (fst (staticOptionsFileServer env fs opts (st, c))))) = w_log (writer c) @ [WHeader 304 h]
        \<and> header_get h ''Etag'' = weakETag (fi_mod i) (fi_size i)))
   \<and> (header_get (req_header (request c)) ''If-None-Match'' = [] \<and>
      header_get (req_header (request c)) ''If-Modified-Since'' = [] \<and> header_get (req_header (request c)) ''Range'' = [] \<longrightarrow>
      (\<exists>h. w_log (writer (snd (fst (staticOptionsFileServer env fs opts (st, c))))) = w_log (writer c) @ [WHeader 200 h, WBytes (f_body f) h]
        \<and> header_get h ''Etag'' = weakETag (fi_mod i) (fi_size i)))"
proof -
  obtain st' where run: "staticOptionsFileServer env fs opts (st, c) =
    ((st', serve_content env (path_base (req_path (request c))) (fi_mod i) (f_body f)
        (on_header (\<lambda>h. header_set ''Etag'' (weakETag (fi_mod i) (fi_size i)) (cache_header opts h)) c)), Returned)"
    using tagged_branch [where fs = fs, OF assms(1-4)] by blast
  note defs = serve_content_def give_def content_answer_def checkIfMatch_def checkIfUnmodifiedSince_def
    checkIfModifiedSince_def checkIfNoneMatch_def cond_of_def reads_def Let_def
  show ?thesis
    using assms any_tag_weak by (simp add: run defs del: any_tag.simps)
qed

text \<open>A disk with one file \<open>/a.txt\<close> and one directory \<open>/docs\<close> without an index, served
  by \<open>http.FS\<close>: a name that ends with a slash is not valid and is not found.\<close>

definition http_demo :: http_env where
  "http_demo = \<lparr>he_time = itoa, he_parse = (\<lambda>_. None), he_mime = (\<lambda>_ _. ''text/plain''), he_range = (\<lambda>_ h _. (id, []))\<rparr>"

definition demo_file :: fs_file where
  "demo_file = \<lparr>f_stat = Some \<lparr>fi_name = ''a.txt'', fi_dir = False, fi_mod = 7, fi_size = 2\<rparr>, f_body = ''hi'', f_listing = None\<rparr>"

definition demo_dir :: fs_file where
  "demo_dir = \<lparr>f_stat = Some \<lparr>fi_name = ''docs'', fi_dir = True, fi_mod = 7, fi_size = 0\<rparr>, f_body = [], f_listing = Some ''secret.txt''\<rparr>"

definition demo_fs :: "unit filesystem" where
  "demo_fs p d = (if p = ''/a.txt'' then Inr demo_file else if p = ''/docs'' then Inr demo_dir else Inl NotExist, d)"

definition demo_context :: "string \<Rightarrow> string \<Rightarrow> nat Context" where
  "demo_context path tag = NewContext new_writer (nil_request\<lparr>req_method := ''GET'', req_path := path, req_header := [(''If-None-Match'', [tag])]\<rparr>)"

lemma demo_sel [simp]:
  "req_path (request (demo_context path tag)) = path" "req_method (request (demo_context path tag)) = ''GET''"
  "req_header (request (demo_context path tag)) = [(''If-None-Match'', [tag])]"
  "writer (demo_context path tag) = new_writer"
  by (simp_all add: demo_context_def NewContext_def)

lemma canonical_conditions [simp]:
  "canonical_key ''If-None-Match'' = ''If-None-Match''" "canonical_key ''If-Match'' = ''If-Match''"
  "canonical_key ''If-Unmodified-Since'' = ''If-Unmodified-Since''"
  "canonical_key ''If-Modified-Since'' = ''If-Modified-Since''"
  by code_simp+

theorem etag_revalidates_witness:
  "\<exists>h. w_log (writer (snd (fst (staticOptionsFileServer http_demo demo_fs \<lparr>MaxAge = 0, DisableIndex = True, EnableETag = True\<rparr>
     (\<lparr>disk = (), open_files = 0\<rparr>, demo_context ''/a.txt'' (weakETag 7 2)))))) = [WHeader 304 h]
    \<and> header_get h ''Etag'' = weakETag 7 2"
  using etag_revalidates [where opts = "\<lparr>MaxAge = 0, DisableIndex = True, EnableETag = True\<rparr>" and fs = demo_fs
      and c = "demo_context ''/a.txt'' (weakETag 7 2)" and f = demo_file and env = http_demo and st = "\<lparr>disk = (), open_files = 0\<rparr>"
      and i = "\<lparr>fi_name = ''a.txt'', fi_dir = False, fi_mod = 7, fi_size = 2\<rparr>"]
  by (simp add: demo_fs_def demo_file_def header_get_def hindex_def first_value_def)

subsection \<open>Directory listings\<close>

text \<open>With \<open>DisableIndex\<close> a directory without \<open>index.html\<close> answers 404, as far as the file
  system opens the directory under the path of the request.\<close>

theorem disabled_index_answers_404:
  assumes "DisableIndex opts" "\<And>d. fs (req_path (request c)) d = (Inr f, d)" "is_dir f"
    and "\<And>d. fs (path_join [req_path (request c), ''index.html'']) d = (Inl e, d)" "w_stack (writer c) = []"
  shows "\<exists>h. w_log (writer (snd (fst (staticOptionsFileServer env fs opts (st, c))))) =
    w_log (writer c) @ [WHeader 404 h, WBytes (''404 page not found'' @ [CHR 0x0A]) h]"
  using assms
  by (simp add: staticOptionsFileServer_def Let_def disabled_listing_def fs_open_def not_found_def give_def http_error_def)

theorem disabled_index_answers_404_witness:
  "\<exists>h. w_log (writer (snd (fst (staticOptionsFileServer http_demo demo_fs \<lparr>MaxAge = 0, DisableIndex = True, EnableETag = False\<rparr>
     (\<lparr>disk = (), open_files = 0\<rparr>, demo_context ''/docs'' []))))) = [WHeader 404 h, WBytes (''404 page not found'' @ [CHR 0x0A]) h]"
proof -
  have "path_join [''/docs'', ''index.html''] = ''/docs/index.html''" by code_simp
  then show ?thesis
    using disabled_index_answers_404 [where opts = "\<lparr>MaxAge = 0, DisableIndex = True, EnableETag = False\<rparr>" and fs = demo_fs
        and c = "demo_context ''/docs'' []" and f = demo_dir and e = NotExist and env = http_demo and st = "\<lparr>disk = (), open_files = 0\<rparr>"]
    by (simp add: demo_fs_def demo_dir_def is_dir_def)
qed

text \<open>But the file server cleans the path before it opens it: with a slash at the end of the path,
  which such a file system refuses, the check finds nothing to disable and the listing is sent.\<close>

theorem disabled_index_lists_with_slash:
  "sent_body (w_log (writer (snd (fst (staticOptionsFileServer http_demo demo_fs \<lparr>MaxAge = 0, DisableIndex = True, EnableETag = False\<rparr>
     (\<lparr>disk = (), open_files = 0\<rparr>, demo_context ''/docs/'' [])))))) = ''secret.txt''"
  by code_simp

end
