(* ===== verification/Delivery.thy ===== *)
theory Delivery
  imports Middlewares
begin

text \<open>
  What the wrappers deliver to the client. A handler that answers through its writer is the
  list of what it does to it: changes of the headers and calls. The results compare the
  response behind \<open>Gzip\<close> and \<open>Timeout\<close> with the response of the same handler on the bare
  connection.
\<close>

subsection \<open>Handlers that answer\<close>

datatype respond_act = SetHdr "header \<Rightarrow> header" | Call wcall

fun respond :: "respond_act list \<Rightarrow> Writer \<Rightarrow> Writer" where
  "respond [] w = w"
| "respond (SetHdr f # as) w = respond as (map_header f w)"
| "respond (Call call # as) w = respond as (writer_calls [call] w)"

definition responder :: "respond_act list \<Rightarrow> ('s, 'h) http_handler" where
  "responder as sc = (case sc of (s, c) \<Rightarrow> ((s, SetWriter (respond as (writer c)) c), Returned))"

fun calls_of :: "respond_act list \<Rightarrow> wcall list" where
  "calls_of [] = []"
| "calls_of (SetHdr f # as) = calls_of as"
| "calls_of (Call call # as) = call # calls_of as"

fun status_of :: "wcall list \<Rightarrow> int" where
  "status_of (CWriteHeader code # _) = code"
| "status_of _ = 200"

fun body_of :: "wcall list \<Rightarrow> string" where
  "body_of [] = []"
| "body_of (CWrite b # cs) = b @ body_of cs"
| "body_of (_ # cs) = body_of cs"

fun call_of :: "wevent \<Rightarrow> wcall" where
  "call_of (WHeader code h) = CWriteHeader code"
| "call_of (WBytes b h) = CWrite b"
| "call_of (WFlush h) = CFlush"

lemma call_of_event [simp]: "call_of (event h call) = call"
  by (cases call) simp_all

lemma status_of_events: "sent_status es = status_of (map call_of es)"
  by (cases es rule: sent_status.cases) simp_all

lemma body_of_events: "sent_body es = body_of (map call_of es)"
  by (induction es rule: sent_body.induct) simp_all

lemma body_of_append [simp]: "body_of (xs @ ys) = body_of xs @ body_of ys"
  by (induction xs rule: body_of.induct) simp_all

lemma writer_calls_plain:
  "w_stack w = [] \<Longrightarrow> writer_calls calls w = w\<lparr>w_log := w_log w @ map (event (w_header w)) calls\<rparr>"
  by (simp add: writer_calls_def)

text \<open>On the bare connection every call arrives.\<close>

lemma respond_plain:
  "w_stack w = [] \<Longrightarrow>
   \<exists>es h. respond as w = w\<lparr>w_header := h, w_log := w_log w @ es\<rparr> \<and> map call_of es = calls_of as"
proof (induction as w rule: respond.induct)
  case (2 f as w)
  then obtain es h where "respond as (map_header f w) = (map_header f w)\<lparr>w_header := h, w_log := w_log w @ es\<rparr>"
    "map call_of es = calls_of as" by auto
  then show ?case by (auto simp: map_header_def)
next
  case (3 call as w)
  let ?w = "writer_calls [call] w"
  have "w_stack ?w = []" using 3(2) by (simp add: writer_calls_plain)
  from 3(1) [OF this] obtain es h where
    "respond as ?w = ?w\<lparr>w_header := h, w_log := w_log ?w @ es\<rparr>" "map call_of es = calls_of as" by blast
  then have "respond (Call call # as) w = w\<lparr>w_header := h, w_log := w_log w @ (event (w_header w) call # es)\<rparr>"
    "map call_of (event (w_header w) call # es) = calls_of (Call call # as)"
    using 3(2) by (simp_all add: writer_calls_plain)
  then show ?case by blast
next
  case (1 w)
  have "respond [] w = w\<lparr>w_header := w_header w, w_log := w_log w @ []\<rparr>" by simp
  then show ?case by (metis calls_of.simps(1) list.map_disc_iff)
qed

subsection \<open>One wrapper in front of the connection\<close>

lemma writer_calls_one:
  "w_stack w = [x] \<Longrightarrow> writer_calls [call] w =
     (case wrapper_step x call (w_header w) of
        (x', h, sub) \<Rightarrow> \<lparr>w_header = h, w_log = w_log w @ map (event h) sub, w_stack = [x']\<rparr>)"
  by (simp add: writer_calls_def split: prod.split)

subsection \<open>Gzip is transparent\<close>

text \<open>The stream a compressor writes, and its law: \<open>gunzip\<close> gives the data back.\<close>

fun gz_stream :: "(gz_input list \<Rightarrow> gz_input \<Rightarrow> string list) \<Rightarrow> gz_input list \<Rightarrow> gz_input list \<Rightarrow> string" where
  "gz_stream emit hist [] = []"
| "gz_stream emit hist (i # is) = concat (emit hist i) @ gz_stream emit (hist @ [i]) is"

fun gz_data :: "gz_input list \<Rightarrow> string" where
  "gz_data [] = []"
| "gz_data (GzData b # is) = b @ gz_data is"
| "gz_data (_ # is) = gz_data is"

definition codec_ok :: "(gz_input list \<Rightarrow> gz_input \<Rightarrow> string list) \<Rightarrow> (string \<Rightarrow> string option) \<Rightarrow> bool" where
  "codec_ok emit gunzip \<longleftrightarrow>
     (\<forall>ins. GzClose \<notin> set ins \<longrightarrow> gunzip (gz_stream emit [] (ins @ [GzClose])) = Some (gz_data ins))"

lemma gz_stream_append:
  "gz_stream emit hist (xs @ ys) = gz_stream emit hist xs @ gz_stream emit (hist @ xs) ys"
  by (induction xs arbitrary: hist) simp_all

lemma gz_data_append [simp]: "gz_data (xs @ ys) = gz_data xs @ gz_data ys"
  by (induction xs rule: gz_data.induct) simp_all

lemma sent_body_writes: "sent_body (map (event h \<circ> CWrite) chunks) = concat chunks"
  by (induction chunks) simp_all

text \<open>What the client reads: it decompresses a response that declares the encoding.\<close>

definition gzip_encoded :: "wevent list \<Rightarrow> bool" where
  "gzip_encoded es \<longleftrightarrow> (case sent_header es of None \<Rightarrow> False | Some h \<Rightarrow> first_value (hindex h key_content_encoding) = ''gzip'')"

definition client_body :: "(string \<Rightarrow> string option) \<Rightarrow> wevent list \<Rightarrow> string option" where
  "client_body gunzip es = (if gzip_encoded es then gunzip (sent_body es) else Some (sent_body es))"

fun is_header_call :: "wcall \<Rightarrow> bool" where
  "is_header_call (CWriteHeader code) = True"
| "is_header_call _ = False"

text \<open>\<open>WriteHeader\<close> comes before the first \<open>Write\<close> or \<open>Flush\<close>, or not at all.\<close>

definition header_first :: "wcall list \<Rightarrow> bool" where
  "header_first calls \<longleftrightarrow> (case calls of [] \<Rightarrow> True | call # rest \<Rightarrow> is_header_call call \<or> \<not> list_ex is_header_call rest)"

fun keeps_encoding :: "respond_act \<Rightarrow> bool" where
  "keeps_encoding (SetHdr f) = (\<forall>h. hindex (f h) key_content_encoding = hindex h key_content_encoding)"
| "keeps_encoding (Call call) = True"

text \<open>
  The states of the wrapper after the calls \<open>done\<close>, with \<open>es\<close> what reached the connection:
  still holding the body back, compressing, or passing the calls on as they are.
\<close>

definition holding :: "gzipWriter \<Rightarrow> header \<Rightarrow> wcall list \<Rightarrow> wevent list \<Rightarrow> bool" where
  "holding g h cs es \<longleftrightarrow>
     \<not> wroteHead g \<and> \<not> gw_started g \<and> (decided g \<longrightarrow> compress g) \<and> (\<not> decided g \<longrightarrow> gw_buf g = []) \<and> minSize g > 0
     \<and> gw_buf g = body_of cs \<and> es = [] \<and> \<not> list_ex is_header_call cs \<and> hindex h key_content_encoding = []"

definition compressing :: "gzipWriter \<Rightarrow> wcall list \<Rightarrow> wevent list \<Rightarrow> bool" where
  "compressing g cs es \<longleftrightarrow>
     wroteHead g \<and> gw_started g \<and> decided g \<and> compress g \<and> gzip_encoded es \<and> es \<noteq> [] \<and> cs \<noteq> []
     \<and> gw_buf g = [] \<and> sent_status es = status_of cs \<and> GzClose \<notin> set (gz_hist g)
     \<and> sent_body es = gz_stream (gz_out g) [] (gz_hist g) \<and> gz_data (gz_hist g) = body_of cs"

definition passing :: "gzipWriter \<Rightarrow> wcall list \<Rightarrow> wevent list \<Rightarrow> bool" where
  "passing g cs es \<longleftrightarrow>
     \<not> gw_started g \<and> decided g \<and> \<not> compress g \<and> gw_buf g = [] \<and> es \<noteq> [] \<and> cs \<noteq> [] \<and> \<not> gzip_encoded es
     \<and> sent_status es = status_of cs \<and> sent_body es = body_of cs \<and> (\<not> wroteHead g \<longrightarrow> \<not> list_ex is_header_call cs)"

definition gz_inv :: "gzipWriter \<Rightarrow> header \<Rightarrow> wcall list \<Rightarrow> wevent list \<Rightarrow> bool" where
  "gz_inv g h cs es \<longleftrightarrow> holding g h cs es \<or> compressing g cs es \<or> passing g cs es"

lemma status_of_append [simp]: "status_of (xs @ ys) = (if xs = [] then status_of ys else status_of xs)"
  by (cases xs rule: status_of.cases) simp_all

lemma no_header_status [simp]: "\<not> list_ex is_header_call cs \<Longrightarrow> status_of cs = 200"
  by (cases cs rule: status_of.cases) simp_all

lemma header_first_snoc:
  "header_first (cs @ [call]) \<Longrightarrow> cs \<noteq> [] \<Longrightarrow> \<not> list_ex is_header_call cs \<Longrightarrow> \<not> is_header_call call"
  by (cases cs) (auto simp: header_first_def)

lemma key_neq [simp]: "key_content_encoding \<noteq> key_vary" "key_vary \<noteq> key_content_encoding"
  by (simp_all add: key_content_encoding_def key_vary_def)

lemma first_value_Nil [simp]: "first_value [] = []"
  by (simp add: first_value_def)

lemma mark_gzip_encoded [simp]: "first_value (hindex (mark_gzip h) key_content_encoding) = ''gzip''"
  by (simp add: mark_gzip_def first_value_def)

lemma gzip_encoded_simps [simp]:
  "gzip_encoded (WHeader code h # es) = (first_value (hindex h key_content_encoding) = ''gzip'')"
  "gzip_encoded (WBytes b h # es) = (first_value (hindex h key_content_encoding) = ''gzip'')"
  "\<not> gzip_encoded []"
  "gzip_encoded (es @ es') = (if es = [] then gzip_encoded es' else gzip_encoded es)"
  by (simp_all add: gzip_encoded_def)

lemma hindex_delete [simp]: "hindex (AList.delete k h) k' = (if k' = k then [] else hindex h k')"
  by (simp add: hindex_def AList.delete_conv')

lemma compressible_cases:
  "\<exists>yes. compressible g h = (yes, g\<lparr>decided := True, compress := yes\<rparr>) \<and> (decided g \<longrightarrow> yes = compress g)"
  by (simp add: compressible_def Let_def)

text \<open>Starting the compression with what was held back.\<close>

lemma startGzip_compressing:
  assumes g: "\<not> wroteHead g" "decided g" "compress g" "gw_buf g = body_of cs" and cs: "\<not> list_ex is_header_call cs" "cs \<noteq> []"
    and run: "startGzip 200 g h = (g', h', sub)"
  shows "compressing g' cs (map (event h') sub) \<and> gz_out g' = gz_out g \<and> minSize g' = minSize g"
  using assms by (cases "gw_buf g = []")
    (auto simp: startGzip_def gz_feed_def compressing_def sent_body_writes)

lemma feed_compressing:
  assumes "compressing g cs es" "gz_feed inp g = (g', sub)" "inp \<noteq> GzClose" "gz_data [inp] = body_of [call]"
  shows "compressing g' (cs @ [call]) (es @ map (event h) sub) \<and> gz_out g' = gz_out g \<and> minSize g' = minSize g"
  using assms by (auto simp: gz_feed_def compressing_def sent_body_writes gz_stream_append)

lemma gw_step_inv:
  assumes inv: "gz_inv g h cs es" and first: "header_first (cs @ [call])"
    and step: "gw_step g call h = (g', h', sub)"
  shows "gz_inv g' h' (cs @ [call]) (es @ map (event h') sub) \<and> gz_out g' = gz_out g"
proof -
  consider (hold) "holding g h cs es" | (comp) "compressing g cs es" | (pass) "passing g cs es"
    using inv by (auto simp: gz_inv_def)
  then show ?thesis
  proof cases
    case hold
    then have g: "\<not> wroteHead g" "\<not> gw_started g" "gw_buf g = body_of cs" "es = []" "minSize g > 0"
      and no: "\<not> list_ex is_header_call cs" and enc: "hindex h key_content_encoding = []"
      and dec: "decided g \<longrightarrow> compress g" "\<not> decided g \<longrightarrow> gw_buf g = []"
      by (auto simp: holding_def)
    show ?thesis
    proof (cases call)
      case (CWriteHeader code)
      then have cs: "cs = []" using header_first_snoc [OF first] no by auto
      from compressible_cases obtain yes where
        "compressible (g\<lparr>wroteHead := True\<rparr>) h = (yes, g\<lparr>wroteHead := True, decided := True, compress := yes\<rparr>)"
        by (metis gzipWriter.surjective gzipWriter.update_convs(3-6))
      with step g cs CWriteHeader show ?thesis
        by (cases yes) (auto simp: gw_WriteHeader_def gz_inv_def compressing_def passing_def)
    next
      case (CWrite b)
      show ?thesis
      proof (cases "fst (compressible g h)")
        case False
        with compressible_cases [of g h] dec have "gw_buf g = []"
          "compressible g h = (False, g\<lparr>decided := True, compress := False\<rparr>)" by auto
        with step g enc no CWrite show ?thesis
          by (auto simp: gw_Write_def gz_inv_def passing_def)
      next
        case True
        define g1 where "g1 = g\<lparr>decided := True, compress := True\<rparr>"
        have "compressible g h = (True, g1)"
          using True compressible_cases [of g h] by (auto simp: g1_def)
        then have c: "gw_Write b g h = (let g2 = g1\<lparr>gw_buf := gw_buf g @ b\<rparr> in
            if int (length (gw_buf g2)) \<ge> minSize g2 then startGzip 200 g2 h else (g2, h, []))"
          using g(2) by (simp add: gw_Write_def g1_def Let_def)
        show ?thesis
        proof (cases "int (length (gw_buf g @ b)) \<ge> minSize g")
          case True
          then have "startGzip 200 (g1\<lparr>gw_buf := gw_buf g @ b\<rparr>) h = (g', h', sub)"
            using c step CWrite by (simp add: Let_def g1_def)
          from startGzip_compressing [OF _ _ _ _ _ _ this, of "cs @ [call]"] g no CWrite show ?thesis
            by (simp add: g1_def gz_inv_def)
        next
          case False
          then show ?thesis using c step CWrite g no enc
            by (auto simp: Let_def g1_def gz_inv_def holding_def)
        qed
      qed
    next
      case CFlush
      show ?thesis
      proof (cases "gw_buf g = []")
        case True
        with step CFlush g dec no enc show ?thesis
          by (auto simp: gw_Flush_def gz_inv_def holding_def)
      next
        case False
        obtain g1 h1 sub1 where start: "startGzip 200 g h = (g1, h1, sub1)" by (cases "startGzip 200 g h") auto
        have "cs \<noteq> []" using False g(3) by auto
        with startGzip_compressing [OF g(1) _ _ g(3) no _ start] dec False
        have comp: "compressing g1 cs (map (event h1) sub1)" "gz_out g1 = gz_out g" "gw_started g1" by (auto simp: compressing_def)
        with step CFlush g(2) False start obtain sub2 where
          "gz_feed GzFlush g1 = (g', sub2)" "h' = h1" "sub = sub1 @ sub2"
          by (auto simp: gw_Flush_def split: prod.splits)
        with feed_compressing [OF comp(1), of GzFlush g' sub2 CFlush h1] comp(2) CFlush g(4) show ?thesis
          by (simp add: gz_inv_def)
      qed
    qed
  next
    case comp
    then have g: "wroteHead g" "gw_started g" "decided g" "compress g" "es \<noteq> []" by (auto simp: compressing_def)
    show ?thesis
    proof (cases call)
      case (CWriteHeader code)
      with comp step g show ?thesis by (auto simp: gw_WriteHeader_def gz_inv_def compressing_def)
    next
      case (CWrite b)
      with step g have "gz_feed (GzData b) g = (g', sub)"
        by (auto simp: gw_Write_def compressible_def split: prod.splits)
      from feed_compressing [OF comp this, of call h'] CWrite show ?thesis by (simp add: gz_inv_def)
    next
      case CFlush
      with step g have "gz_feed GzFlush g = (g', sub)" by (auto simp: gw_Flush_def split: prod.splits)
      from feed_compressing [OF comp this, of call h'] CFlush show ?thesis by (simp add: gz_inv_def)
    qed
  next
    case pass
    then have g: "\<not> gw_started g" "decided g" "\<not> compress g" "gw_buf g = []" "es \<noteq> []" "cs \<noteq> []"
      by (auto simp: passing_def)
    show ?thesis
    proof (cases call)
      case (CWriteHeader code)
      then have "wroteHead g" using pass header_first_snoc [OF first g(6)] by (auto simp: passing_def)
      with pass step g CWriteHeader show ?thesis by (auto simp: gw_WriteHeader_def gz_inv_def passing_def)
    next
      case (CWrite b)
      with pass step g show ?thesis by (auto simp: gw_Write_def compressible_def gz_inv_def passing_def)
    next
      case CFlush
      with pass step g show ?thesis by (auto simp: gw_Flush_def gz_inv_def passing_def)
    qed
  qed
qed

lemma header_first_prefix: "header_first (xs @ ys) \<Longrightarrow> header_first xs"
  by (cases xs) (auto simp: header_first_def)

lemma gz_inv_header:
  "gz_inv g h cs es \<Longrightarrow> hindex h' key_content_encoding = hindex h key_content_encoding \<Longrightarrow> gz_inv g h' cs es"
  by (auto simp: gz_inv_def holding_def)

lemma respond_gzip:
  assumes "w_stack w = [GzipW g]" "gz_inv g (w_header w) cs (w_log w)"
    and "header_first (cs @ calls_of as)" "list_all keeps_encoding as"
  shows "\<exists>g' h' es'. respond as w = \<lparr>w_header = h', w_log = es', w_stack = [GzipW g']\<rparr>
     \<and> gz_inv g' h' (cs @ calls_of as) es' \<and> gz_out g' = gz_out g"
  using assms
proof (induction as w arbitrary: g cs rule: respond.induct)
  case (1 w)
  then show ?case by (cases w) simp
next
  case (2 f as w)
  from 2(5) have "gz_inv g (w_header (map_header f w)) cs (w_log (map_header f w))"
    using gz_inv_header [OF 2(3), of "f (w_header w)"] by simp
  with 2(1) [of g cs] 2(2,4,5) show ?case by simp
next
  case (3 call as w)
  obtain g1 h1 sub where step: "gw_step g call (w_header w) = (g1, h1, sub)"
    by (cases "gw_step g call (w_header w)") auto
  have "header_first (cs @ [call])" using 3(4) header_first_prefix [of "cs @ [call]" "calls_of as"] by simp
  note inv = gw_step_inv [OF 3(3) this step]
  let ?w = "writer_calls [call] w"
  have w: "?w = \<lparr>w_header = h1, w_log = w_log w @ map (event h1) sub, w_stack = [GzipW g1]\<rparr>"
    using writer_calls_one [OF 3(2), of call] by (simp add: step)
  with 3(1) [of g1 "cs @ [call]"] inv 3(4,5) show ?case by simp
qed

lemma close_delivers:
  assumes inv: "gz_inv g h cs es" and close: "gw_Close g h = (g', h', calls)" and codec: "codec_ok (gz_out g) gunzip"
  shows "sent_status (es @ map (event h') calls) = status_of cs
    \<and> client_body gunzip (es @ map (event h') calls) = Some (body_of cs)"
proof -
  consider (hold) "holding g h cs es" | (comp) "compressing g cs es" | (pass) "passing g cs es"
    using inv by (auto simp: gz_inv_def)
  then show ?thesis
  proof cases
    case hold
    with close show ?thesis
      by (cases "gw_buf g = []") (auto simp: gw_Close_def holding_def client_body_def)
  next
    case comp
    have law: "gunzip (gz_stream (gz_out g) [] (gz_hist g @ [GzClose])) = Some (gz_data (gz_hist g))"
      using codec comp by (simp add: codec_ok_def compressing_def)
    from comp close have "calls = map CWrite (gz_out g (gz_hist g) GzClose)"
      by (auto simp: gw_Close_def gz_feed_def compressing_def)
    then have "sent_body (es @ map (event h') calls) = gz_stream (gz_out g) [] (gz_hist g @ [GzClose])"
      using comp by (simp add: compressing_def sent_body_writes gz_stream_append)
    with law comp show ?thesis
      by (simp add: client_body_def compressing_def)
  next
    case pass
    with close show ?thesis by (auto simp: gw_Close_def passing_def client_body_def)
  qed
qed

lemma new_gzip_holding:
  "m > 0 \<Longrightarrow> hindex h key_content_encoding = [] \<Longrightarrow> gz_inv (new_gzipWriter emit m) h [] []"
  by (simp add: gz_inv_def holding_def new_gzipWriter_def)

fun encoding_free :: "wevent \<Rightarrow> bool" where
  "encoding_free (WHeader code h) = (hindex h key_content_encoding = [])"
| "encoding_free (WBytes b h) = (hindex h key_content_encoding = [])"
| "encoding_free (WFlush h) = (hindex h key_content_encoding = [])"

lemma encoding_free_event [simp]: "encoding_free (event h call) = (hindex h key_content_encoding = [])"
  by (cases call) simp_all

lemma respond_encoding_free:
  "w_stack w = [] \<Longrightarrow> hindex (w_header w) key_content_encoding = [] \<Longrightarrow> list_all keeps_encoding as \<Longrightarrow>
   list_all encoding_free (w_log w) \<Longrightarrow> list_all encoding_free (w_log (respond as w))"
  by (induction as w rule: respond.induct) (auto simp: writer_calls_plain)

text \<open>Compression is invisible: for a handler that answers through its writer (setting headers,
  writing in any pieces, flushing), what the client has after decompressing is the status
  and the body it would have had without the middleware, whether the response was
  compressed, was too small, or has a type that is not compressed. The handler sends its
  status before its body, does not touch \<open>Content-Encoding\<close>, and \<open>compress/gzip\<close> is any
  codec that is inverted by \<open>gunzip\<close>.\<close>

theorem gzip_transparent:
  fixes c :: "'h Context"
  assumes codec: "codec_ok (compressor (gzip_level opts)) gunzip"
    and ans: "header_first (calls_of as)" "list_all keeps_encoding as"
    and fresh: "w_stack (writer c) = []" "w_log (writer c) = []" "hindex (w_header (writer c)) key_content_encoding = []"
  shows "\<exists>w. GzipWithOptions compressor opts (responder as) (s, c) = ((s, SetWriter w c), Returned)
    \<and> sent_status (w_log w) = sent_status (w_log (respond as (writer c)))
    \<and> client_body gunzip (w_log w) = Some (sent_body (w_log (respond as (writer c))))"
proof -
  from respond_plain [OF fresh(1), of as] obtain es h where
    plain: "respond as (writer c) = (writer c)\<lparr>w_header := h, w_log := es\<rparr>" and calls: "map call_of es = calls_of as"
    using fresh(2) by auto
  have status: "sent_status es = status_of (calls_of as)" "sent_body es = body_of (calls_of as)"
    by (simp_all add: status_of_events body_of_events calls)
  show ?thesis
  proof (cases "acceptsGzip (header_get (req_header (request c)) ''Accept-Encoding'')")
    case False
    have "list_all encoding_free es"
      using respond_encoding_free [OF fresh(1,3) ans(2)] fresh(2) plain by simp
    then have "\<not> gzip_encoded es"
      by (cases es) (auto simp: gzip_encoded_def elim: encoding_free.elims)
    with False plain show ?thesis
      by (intro exI [of _ "respond as (writer c)"]) (simp add: GzipWithOptions_def responder_def client_body_def)
  next
    case True
    let ?g = "new_gzipWriter (compressor (gzip_level opts)) (gzip_min_size opts)"
    let ?w = "push_wrapper (GzipW ?g) (writer c)"
    have "gzip_min_size opts > 0" by (simp add: gzip_min_size_def)
    then have "gz_inv ?g (w_header ?w) [] (w_log ?w)" using fresh by (simp add: new_gzip_holding)
    from respond_gzip [OF _ this, of as] ans fresh obtain g' h' es' where
      run: "respond as ?w = \<lparr>w_header = h', w_log = es', w_stack = [GzipW g']\<rparr>"
      and inv: "gz_inv g' h' (calls_of as) es'" and out: "gz_out g' = compressor (gzip_level opts)"
      by (auto simp: new_gzipWriter_def)
    obtain g2 h2 cl where close: "gw_Close g' h' = (g2, h2, cl)" by (cases "gw_Close g' h'") auto
    let ?r = "\<lparr>w_header = h2, w_log = es' @ map (event h2) cl, w_stack = []\<rparr>"
    have "GzipWithOptions compressor opts (responder as) (s, c) = ((s, SetWriter ?r c), Returned)"
      using True fresh run
      by (simp add: GzipWithOptions_def responder_def SetWriter_def Let_def base_index_def restore_writer_def
          close_gzip_def close writer_calls_def)
    moreover from close_delivers [OF inv close, of gunzip] codec out plain status have
      "sent_status (w_log ?r) = sent_status (w_log (respond as (writer c)))"
      "client_body gunzip (w_log ?r) = Some (sent_body (w_log (respond as (writer c))))" by simp_all
    ultimately show ?thesis by blast
  qed
qed

text \<open>A codec that frames its data, and a handler that answers in two pieces.\<close>

definition demo_emit :: "int \<Rightarrow> gz_input list \<Rightarrow> gz_input \<Rightarrow> string list" where
  "demo_emit level hist inp =
     (if hist = [] then [''<''] else [])
     @ (case inp of GzData b \<Rightarrow> [b] | GzFlush \<Rightarrow> [] | GzClose \<Rightarrow> [''>''])"

definition demo_gunzip :: "string \<Rightarrow> string option" where
  "demo_gunzip t = (if t \<noteq> [] \<and> hd t = CHR ''<'' \<and> last t = CHR ''>'' then Some (butlast (tl t)) else None)"

lemma demo_codec: "codec_ok (demo_emit level) demo_gunzip"
proof -
  have rest: "gz_stream (demo_emit level) hist (ins @ [GzClose]) = gz_data ins @ ''>''"
    if "hist \<noteq> []" "GzClose \<notin> set ins" for hist ins
    using that by (induction "ins" arbitrary: hist) (auto simp: demo_emit_def split: gz_input.splits)
  have "gz_stream (demo_emit level) [] (ins @ [GzClose]) = ''<'' @ gz_data ins @ ''>''"
    if "GzClose \<notin> set ins" for "ins"
    using that rest [of "[hd ins]" "tl ins"] by (cases "ins") (auto simp: demo_emit_def split: gz_input.splits)
  then show ?thesis by (simp add: codec_ok_def demo_gunzip_def)
qed

definition demo_answer :: "respond_act list" where
  "demo_answer = [SetHdr (header_set ''Content-Type'' ''text/plain''), Call (CWriteHeader 201), Call (CWrite ''hel''),
     Call (CWrite ''lo'')]"

definition gzip_request :: "nat Context" where
  "gzip_request = NewContext new_writer (nil_request\<lparr>req_header := [(''Accept-Encoding'', [''br, gzip''])]\<rparr>)"

lemma demo_answer_ok: "header_first (calls_of demo_answer)" "list_all keeps_encoding demo_answer"
proof -
  have "canonical_key ''Content-Type'' \<noteq> key_content_encoding" by code_simp
  then show "list_all keeps_encoding demo_answer"
    by (simp add: demo_answer_def header_set_def)
  show "header_first (calls_of demo_answer)" by code_simp
qed

theorem gzip_transparent_witness:
  "\<exists>w. GzipWithOptions demo_emit \<lparr>MinSize = 0, Level = 5\<rparr> (responder demo_answer) ((), gzip_request)
        = (((), SetWriter w gzip_request), Returned)
     \<and> sent_status (w_log w) = 201 \<and> client_body demo_gunzip (w_log w) = Some ''hello''"
proof -
  have w: "w_stack (writer gzip_request) = []" "w_log (writer gzip_request) = []"
    "hindex (w_header (writer gzip_request)) key_content_encoding = []"
    by (simp_all add: gzip_request_def NewContext_def hindex_def)
  have "sent_status (w_log (respond demo_answer (writer gzip_request))) = 201"
    "sent_body (w_log (respond demo_answer (writer gzip_request))) = ''hello''" by code_simp+
  moreover from gzip_transparent [of demo_emit "\<lparr>MinSize = 0, Level = 5\<rparr>", OF demo_codec demo_answer_ok w, where s = "()"]
  obtain v where "GzipWithOptions demo_emit \<lparr>MinSize = 0, Level = 5\<rparr> (responder demo_answer) ((), gzip_request)
        = (((), SetWriter v gzip_request), Returned)"
    "sent_status (w_log v) = sent_status (w_log (respond demo_answer (writer gzip_request)))"
    "client_body demo_gunzip (w_log v) = Some (sent_body (w_log (respond demo_answer (writer gzip_request))))"
    by (elim exE conjE)
  ultimately show ?thesis by (intro exI [of _ v]) (simp only: simp_thms)
qed

text \<open>A status sent after the first bytes loses them: they are still held back, and the wrapper
  starts the compressed stream without them.\<close>

theorem gzip_loses_held_bytes:
  "(case GzipWithOptions demo_emit \<lparr>MinSize = 0, Level = 5\<rparr>
        (responder [Call (CWrite ''hello''), Call (CWriteHeader 200)]) ((), gzip_request) of
      ((_, c), _) \<Rightarrow> client_body demo_gunzip (w_log (writer c)) = Some [])
   \<and> sent_body (w_log (respond [Call (CWrite ''hello''), Call (CWriteHeader 200)] (writer gzip_request))) = ''hello''"
  by code_simp

subsection \<open>Timeout\<close>

text \<open>The deadline cuts the calls; a call later than it marks the response as timed out.\<close>

definition timeout_inv :: "nat \<Rightarrow> timeoutWriter \<Rightarrow> wcall list \<Rightarrow> wevent list \<Rightarrow> bool" where
  "timeout_inv k t cs es \<longleftrightarrow>
     \<not> tw_cancelled t \<and> tw_before t = k - length cs \<and> map call_of es = take k cs
     \<and> timedOut t = (k < length cs) \<and> wroteHeader t = list_ex is_header_call (take k cs)"

lemma tw_step_inv:
  assumes "timeout_inv k t cs es" "call \<noteq> CFlush" "tw_step t call = (t', sub)"
  shows "timeout_inv k t' (cs @ [call]) (es @ map (event h) sub)"
  using assms by (cases call) (auto simp: timeout_inv_def ctx_done_def split: if_splits)

lemma respond_timeout:
  assumes "w_stack w = [TimeoutW t]" "w_log w = l0 @ es" "timeout_inv k t cs es" "CFlush \<notin> set (calls_of as)"
  shows "\<exists>t' h' es'. respond as w = \<lparr>w_header = h', w_log = l0 @ es', w_stack = [TimeoutW t']\<rparr>
     \<and> timeout_inv k t' (cs @ calls_of as) es'"
  using assms
proof (induction as w arbitrary: t cs es rule: respond.induct)
  case (1 w)
  then show ?case by (cases w) auto
next
  case (2 f as w)
  then show ?case using 2(1) [of t es cs] by simp
next
  case (3 call as w)
  obtain t1 sub where step: "tw_step t call = (t1, sub)" by (cases "tw_step t call") auto
  have "call \<noteq> CFlush" "CFlush \<notin> set (calls_of as)" using 3(5) by auto
  note inv = tw_step_inv [OF 3(4) this(1) step, of "w_header w"]
  have "writer_calls [call] w =
      \<lparr>w_header = w_header w, w_log = l0 @ es @ map (event (w_header w)) sub, w_stack = [TimeoutW t1]\<rparr>"
    using writer_calls_one [OF 3(2), of call] 3(3) by (simp add: step)
  with 3(1) [OF _ _ inv \<open>CFlush \<notin> set (calls_of as)\<close>] show ?case by simp
qed

text \<open>C23. The deadline cuts the response at one place: of the calls that a handler makes on its
  writer, exactly those before the deadline reach the client, in their order. When some came
  too late and no status had been sent, the client gets the 503 envelope behind them; when
  none came too late, the middleware is not noticed.\<close>

theorem timeout_cuts:
  fixes c :: "'h Context"
  assumes "w_stack (writer c) = []" "CFlush \<notin> set (calls_of as)" "timeout > 0"
  shows "\<exists>c' es rest b h. TimeoutWithOptions timeout message k marshal now (responder as) (s, c) = ((s, c'), Returned)
    \<and> w_stack (writer c') = [] \<and> w_log (writer c') = w_log (writer c) @ es @ rest
    \<and> map call_of es = take k (calls_of as)
    \<and> (if k < length (calls_of as) \<and> \<not> list_ex is_header_call (take k (calls_of as))
       then rest = [WHeader 503 h, WBytes b h] \<and> StatusCode c' = 503
         \<and> read_envelope b = Some (503, if message = [] then msg_timeout else message, RequestID c, now)
       else rest = [] \<and> StatusCode c' = StatusCode c)"
proof -
  let ?t = "\<lparr>tw_before = k, tw_cancelled = False, timedOut = False, wroteHeader = False\<rparr>"
  let ?w = "push_wrapper (TimeoutW ?t) (writer c)"
  have "timeout_inv k ?t [] []" by (simp add: timeout_inv_def)
  from respond_timeout [OF _ _ this assms(2), of ?w "w_log (writer c)"] assms(1) obtain t' h' es where
    run: "respond as ?w = \<lparr>w_header = h', w_log = w_log (writer c) @ es, w_stack = [TimeoutW t']\<rparr>"
    and inv: "timeout_inv k t' (calls_of as) es" by auto
  let ?c = "SetWriter \<lparr>w_header = h', w_log = w_log (writer c) @ es, w_stack = []\<rparr> c"
  have flags: "timedOut t' = (k < length (calls_of as))" "wroteHeader t' = list_ex is_header_call (take k (calls_of as))"
    "map call_of es = take k (calls_of as)"
    using inv by (simp_all add: timeout_inv_def)
  define msg where "msg = (if message = [] then msg_timeout else message)"
  have result: "TimeoutWithOptions timeout message k marshal now (responder as) (s, c) =
      ((s, if timedOut t' \<and> \<not> wroteHeader t' then AbortWithStatusJSON marshal now 503 msg None (ResetWriteState ?c) else ?c), Returned)"
    using assms(1,3) run
    by (simp add: TimeoutWithOptions_def responder_def SetWriter_def Let_def base_index_def restore_writer_def msg_def)
  show ?thesis
  proof (cases "timedOut t' \<and> \<not> wroteHeader t'")
    case True
    let ?d = "AbortWithStatusJSON marshal now 503 msg None (ResetWriteState ?c)"
    have rid: "RequestID (Abort (ResetWriteState ?c)) = RequestID c" "\<not> wrote (Abort (ResetWriteState ?c))"
      "w_stack (writer (Abort (ResetWriteState ?c))) = []" "writer (Abort (ResetWriteState ?c)) = writer ?c"
      by (simp_all add: RequestID_def GetString_def Get_val_def Abort_def ResetWriteState_def SetWriter_def)
    let ?h = "header_put_first ''Content-Type'' ''application/json; charset=utf-8'' h'"
    obtain b where b: "read_envelope b = Some (503, msg, RequestID c, now)"
      and log: "w_log (writer ?d) = w_log (writer c) @ es @ [WHeader 503 ?h, WBytes b ?h]" and code: "StatusCode ?d = 503"
      using standardized_written [of None "Abort (ResetWriteState ?c)" 503 msg now marshal 503] rid
      by (auto simp: AbortWithStatusJSON_def JSONResponse_def SetWriter_def)
    have "w_stack (writer ?d) = []"
      by (simp add: AbortWithStatusJSON_def JSONResponse_def writeStandardized_def Let_def write_bytes_def writeHeader_def
          setContentType_def Abort_def ResetWriteState_def SetWriter_def)
    with True flags b log code show ?thesis
      by (intro exI [of _ ?d] exI [of _ es] exI [of _ "[WHeader 503 ?h, WBytes b ?h]"] exI [of _ b] exI [of _ ?h])
        (simp add: result msg_def)
  next
    case False
    then show ?thesis unfolding result using flags by (auto simp: SetWriter_def StatusCode_def)
  qed
qed

text \<open>A handler whose calls all come too late.\<close>

theorem timeout_cuts_witness:
  "\<exists>c'. TimeoutWithOptions 5 [] 0 (\<lambda>_. None) 17 (responder demo_answer) ((), gzip_request) = (((), c'), Returned)
     \<and> StatusCode c' = 503 \<and> sent_status (w_log (writer c')) = 503"
proof -
  have w: "w_stack (writer gzip_request) = []" "w_log (writer gzip_request) = []"
    by (simp_all add: gzip_request_def NewContext_def)
  have calls: "CFlush \<notin> set (calls_of demo_answer)" "length (calls_of demo_answer) = 3" by (simp_all add: demo_answer_def)
  from timeout_cuts [OF w(1) calls(1), of 5 "[]" 0 "\<lambda>_. None" 17 "()"] calls(2) w(2)
  obtain c' rest b h where r: "TimeoutWithOptions 5 [] 0 (\<lambda>_. None) 17 (responder demo_answer) ((), gzip_request) = (((), c'), Returned)"
    "w_log (writer c') = rest" "rest = [WHeader 503 h, WBytes b h]" "StatusCode c' = 503" by auto
  then show ?thesis by (intro exI [of _ c']) simp
qed

text \<open>Only a call on the writer notices the deadline: a handler that gives up on its cancelled
  context and writes nothing is answered with an empty 200, not with a 503.\<close>

theorem silent_timeout:
  fixes c :: "'h Context"
  assumes "timeout > 0"
  shows "TimeoutWithOptions timeout message 0 marshal now (\<lambda>sc. (sc, Returned)) (s, c) = ((s, c), Returned)"
  using assms
  by (simp add: TimeoutWithOptions_def SetWriter_def Let_def base_index_def restore_writer_def push_wrapper_def)

subsection \<open>Panics\<close>

lemma request_id_of_recovery [simp]:
  "RequestID (Set_val ''recoveryStack'' v (Set_val ''recoveryError'' u c)) = RequestID c"
  by (simp add: RequestID_def GetString_def Get_val_def Set_val_def)

text \<open>A panic never leaves \<open>Recovery\<close>, and the client hears of it: whatever the handlers behind
  it did before panicking, the request is aborted and the 500 envelope with the request id is
  written behind what was already sent, with its status when none had been sent; the panic is
  counted. The panic value is disclosed in debug mode only.\<close>

theorem recovery_answers:
  fixes c1 :: "'h Context"
  assumes "next_handler (s, c) = ((s1, c1), Panicked)" "w_stack (writer c1) = []" "pointer p"
  shows "\<exists>s2 c2 b h. RecoveryWithOptions None (Some p) debug pe marshal now next_handler (s, c) = ((s2, c2), Returned)
    \<and> IsAborted c2 \<and> load Panics (deref p s2) = load Panics (deref p s1) + 1
    \<and> w_log (writer c2) = w_log (writer c1) @ (if wrote c1 then [] else [WHeader 500 h]) @ [WBytes b h]
    \<and> read_envelope b = Some (500, if debug then msg_internal_colon @ panic_text pe else msg_internal, RequestID c1, now)"
proof -
  define msg where "msg = (if debug then msg_internal_colon @ panic_text pe else msg_internal)"
  let ?c = "Abort (Set_val ''recoveryStack'' (StrVal (panic_stack pe))
    (Set_val ''recoveryError'' (StrVal (msg_panic_colon @ panic_text pe)) c1))"
  let ?c2 = "writeStandardized marshal now 500 msg None 500 ?c"
  let ?h = "header_put_first ''Content-Type'' ''application/json; charset=utf-8'' (w_header (writer c1))"
  have sel: "writer ?c = writer c1" "wrote ?c = wrote c1" "RequestID ?c = RequestID c1" "aborted ?c"
    by (simp_all add: Abort_def Set_val_def RequestID_def GetString_def Get_val_def)
  have run: "RecoveryWithOptions None (Some p) debug pe marshal now next_handler (s, c)
      = ((modify p (run_ops recordPanic) s1, ?c2), Returned)"
    by (simp add: RecoveryWithOptions_def assms(1) recovered_def AbortWithStatusJSON_def JSONResponse_def msg_def Let_def)
  have "load Panics (deref p (modify p (run_ops recordPanic) s1)) = load Panics (deref p s1) + 1"
    by (simp add: pointer.deref_modify [OF assms(3)] load_run recordPanic_def del: load.simps)
  moreover have "aborted ?c2" using sel(4)
    by (simp add: writeStandardized_def Let_def write_bytes_def writeHeader_def)
  moreover obtain b where env: "read_envelope b = Some (500, msg, RequestID c1, now)" and
    log: "w_log (writer ?c2) = w_log (writer c1) @ (if wrote c1 then [] else [WHeader 500 ?h]) @ [WBytes b ?h]"
    using standardized_written [of None ?c 500 msg now marshal 500] sel assms(2) by auto
  ultimately show ?thesis unfolding msg_def [symmetric]
    by (intro exI [of _ "modify p (run_ops recordPanic) s1"] exI [of _ ?c2] exI [of _ b] exI [of _ ?h])
      (simp only: run IsAborted_def env log simp_thms)
qed

text \<open>A handler that panics before it writes.\<close>

theorem recovery_answers_witness:
  "\<exists>s2 c2 b h. RecoveryWithOptions None (Some whole) False \<lparr>panic_text = ''boom'', panic_stack = []\<rparr> (\<lambda>_. None) 17
        (\<lambda>sc. (sc, Panicked)) (NewMetrics False, gzip_request) = ((s2, c2), Returned)
     \<and> load Panics s2 = 1 \<and> w_log (writer c2) = [WHeader 500 h, WBytes b h]"
proof -
  have w: "w_stack (writer gzip_request) = []" "w_log (writer gzip_request) = []" "\<not> wrote gzip_request"
    by (simp_all add: gzip_request_def NewContext_def)
  have "deref whole x = x" for x :: Metrics by (simp add: whole_def)
  moreover have "load Panics (NewMetrics False) = 0" by (simp add: NewMetrics_def)
  moreover note recovery_answers [of "\<lambda>sc. (sc, Panicked)" "NewMetrics False" gzip_request "NewMetrics False" gzip_request whole
      False "\<lparr>panic_text = ''boom'', panic_stack = []\<rparr>" "\<lambda>_. None" 17, OF refl w(1) whole.pointer_axioms]
  ultimately show ?thesis using w(2,3) by auto
qed

text \<open>A panic below \<open>Timeout\<close> does not reach the client: the deferred \<open>cancel\<close> runs before
  \<open>Recovery\<close>, whose 500 goes to the timeout writer of a cancelled context. The client gets an
  empty 200, while the context reports 500.\<close>

theorem panic_under_timeout:
  fixes c :: "'h Context"
  assumes "timeout > 0" "w_stack (writer c) = []" "\<not> wrote c"
  shows "case RecoveryWithOptions None None debug pe marshal now
      (TimeoutWithOptions timeout message k marshal now (\<lambda>sc. (sc, Panicked))) (s, c) of
    ((s', c'), e) \<Rightarrow> w_log (writer c') = w_log (writer c) \<and> StatusCode c' = 500 \<and> e = Returned"
  using assms
  by (simp add: RecoveryWithOptions_def TimeoutWithOptions_def recovered_def SetWriter_def Let_def base_index_def
      cancel_timeout_def push_wrapper_def AbortWithStatusJSON_def JSONResponse_def writeStandardized_def write_bytes_def
      writeHeader_def setContentType_def Abort_def Set_val_def StatusCode_def WriteHeader_def Write_def writer_calls_def
      map_header_def ctx_done_def)

subsection \<open>Cross-origin requests\<close>

lemma canonical_cors [simp]:
  "canonical_key ''Access-Control-Allow-Origin'' = ''Access-Control-Allow-Origin''"
  "canonical_key ''Access-Control-Allow-Methods'' = ''Access-Control-Allow-Methods''"
  "canonical_key ''Access-Control-Allow-Headers'' = ''Access-Control-Allow-Headers''"
  "canonical_key ''Access-Control-Expose-Headers'' = ''Access-Control-Expose-Headers''"
  "canonical_key ''Access-Control-Allow-Credentials'' = ''Access-Control-Allow-Credentials''"
  "canonical_key ''Access-Control-Allow-Private-Network'' = ''Access-Control-Allow-Private-Network''"
  "canonical_key ''Access-Control-Max-Age'' = ''Access-Control-Max-Age''"
  "canonical_key ''Vary'' = ''Vary''"
  by code_simp+

lemma hindex_set_if:
  "hindex (set_if b k v h) k' = (if b \<and> k' = canonical_key k then [v] else hindex h k')"
  by (simp add: set_if_def header_set_def)

lemma find_origin: "find (\<lambda>o'. o' = origin) os = (if origin \<in> set os then Some origin else None)"
  by (induction os) auto

text \<open>An origin is granted access only when it is configured: the response carries
  \<open>Access-Control-Allow-Origin\<close> of the middleware exactly when \<open>*\<close> is configured, or the
  request's own origin is in the list, and then that very origin (marked in \<open>Vary\<close>);
  credentials are allowed exactly when configured. A preflight is answered with 204 and goes
  no further; every other request reaches the next handler with these headers.\<close>

theorem cors_grants_listed:
  "\<exists>h. CORS cfg next_handler (s, c) =
      (if req_method (request c) = ''OPTIONS'' then ((s, call_writer [CWriteHeader 204] (on_header h c)), Returned)
       else next_handler (s, on_header h c))
    \<and> (\<forall>hdr. hindex (h hdr) ''Access-Control-Allow-Origin'' =
         (let origin = header_get (req_header (request c)) ''Origin''
          in if ''*'' \<in> set (AllowedOrigins cfg) then [''*'']
             else if origin \<noteq> [] \<and> origin \<in> set (AllowedOrigins cfg) then [origin]
             else hindex hdr ''Access-Control-Allow-Origin'')
       \<and> hindex (h hdr) ''Vary'' =
         (let origin = header_get (req_header (request c)) ''Origin''
          in if ''*'' \<notin> set (AllowedOrigins cfg) \<and> origin \<noteq> [] \<and> origin \<in> set (AllowedOrigins cfg)
             then [''Origin''] else hindex hdr ''Vary'')
       \<and> hindex (h hdr) ''Access-Control-Allow-Credentials'' =
           (if AllowCredentials cfg then [''true''] else hindex hdr ''Access-Control-Allow-Credentials''))"
  by (intro exI [of _ "cors_headers cfg (header_get (req_header (request c)) ''Origin'')"])
    (simp add: CORS_def cors_headers_def Let_def hindex_set_if find_origin list_ex_iff header_set_def)

end
