(* ===== verification/AccessLogging.thy ===== *)
theory AccessLogging
  imports Delivery
begin

text \<open>
  The access log of \<open>middleware/accesslog.go\<close>, with what it uses of \<open>net/url\<close>:
  \<open>QueryEscape\<close>, \<open>QueryUnescape\<close>, \<open>ParseQuery\<close> and \<open>Values.Encode\<close>.
\<close>

subsection \<open>Query strings\<close>

definition upperhex :: string where
  "upperhex = ''0123456789ABCDEF''"

definition unhex :: "char \<Rightarrow> nat option" where
  "unhex c =
     (if CHR ''0'' \<le> c \<and> c \<le> CHR ''9'' then Some (of_char c - 48)
      else if CHR ''a'' \<le> c \<and> c \<le> CHR ''f'' then Some (of_char c - 87)
      else if CHR ''A'' \<le> c \<and> c \<le> CHR ''F'' then Some (of_char c - 55) else None)"

definition unreserved :: "char \<Rightarrow> bool" where
  "unreserved c \<longleftrightarrow> (CHR ''a'' \<le> c \<and> c \<le> CHR ''z'') \<or> (CHR ''A'' \<le> c \<and> c \<le> CHR ''Z'')
     \<or> (CHR ''0'' \<le> c \<and> c \<le> CHR ''9'') \<or> c \<in> set ''-_.~''"

definition escape_char :: "char \<Rightarrow> string" where
  "escape_char c =
     (if unreserved c then [c] else if c = CHR '' '' then ''+''
      else [CHR ''%'', upperhex ! (of_char c div 16), upperhex ! (of_char c mod 16)])"

definition QueryEscape :: "string \<Rightarrow> string" where
  "QueryEscape s = concat (map escape_char s)"

fun QueryUnescape :: "string \<Rightarrow> string option" where
  "QueryUnescape [] = Some []"
| "QueryUnescape (c # cs) =
     (if c = CHR ''%'' then
        (case cs of
           a # b # ds \<Rightarrow>
             (case (unhex a, unhex b) of
                (Some x, Some y) \<Rightarrow> map_option ((#) (char_of (16 * x + y))) (QueryUnescape ds)
              | _ \<Rightarrow> None)
         | _ \<Rightarrow> None)
      else map_option ((#) (if c = CHR ''+'' then CHR '' '' else c)) (QueryUnescape cs))"

text \<open>\<open>strings.Cut\<close> at the first separator.\<close>

definition cut :: "char \<Rightarrow> string \<Rightarrow> string \<times> string" where
  "cut sep s = (takeWhile (\<lambda>c. c \<noteq> sep) s, tl (dropWhile (\<lambda>c. c \<noteq> sep) s))"

text \<open>\<open>ParseQuery\<close>; \<open>None\<close> when it returns an error. The pieces are those between the \<open>&\<close>s.\<close>

fun parse_pairs :: "string list \<Rightarrow> header \<Rightarrow> header option" where
  "parse_pairs [] m = Some m"
| "parse_pairs (p # ps) m =
     (if CHR '';'' \<in> set p then None
      else if p = [] then parse_pairs ps m
      else (let (k, v) = cut (CHR ''='') p
            in case (QueryUnescape k, QueryUnescape v) of
                 (Some k', Some v') \<Rightarrow> parse_pairs ps (AList.update k' (hindex m k' @ [v']) m)
               | _ \<Rightarrow> None))"

definition ParseQuery :: "string \<Rightarrow> header option" where
  "ParseQuery q = parse_pairs (split_on (CHR ''&'') q) []"

definition encode_pair :: "string \<Rightarrow> string \<Rightarrow> string" where
  "encode_pair k v = QueryEscape k @ ''='' @ QueryEscape v"

definition Encode :: "header \<Rightarrow> string" where
  "Encode m = join_with ''&'' (concat (map (\<lambda>(k, vs). map (encode_pair k) vs) (sort_key fst m)))"

subsection \<open>The log entry\<close>

definition headerFieldName :: "string \<Rightarrow> string" where
  "headerFieldName key = ''header_'' @ to_lower (map (\<lambda>c. if c = CHR ''-'' then CHR ''_'' else c) key)"

fun isRedactKey :: "string list \<Rightarrow> string \<Rightarrow> bool" where
  "isRedactKey [] key = False"
| "isRedactKey (k # ks) key = (if k = key then True else isRedactKey ks key)"

definition requestScheme :: "Request \<Rightarrow> string" where
  "requestScheme r = (if req_tls r \<or> proto_major r \<ge> 3 then ''https'' else ''http'')"

definition friendlyProto :: "string \<Rightarrow> string" where
  "friendlyProto proto =
     (if proto = ''HTTP/2.0'' then ''HTTP/2'' else if proto = ''HTTP/3.0'' then ''HTTP/3'' else proto)"

definition redact_values :: "string list \<Rightarrow> header \<Rightarrow> header" where
  "redact_values keys m = map (\<lambda>(k, vs). if k \<in> set keys then (k, [''***'']) else (k, vs)) m"

definition redactQuery :: "string \<Rightarrow> string list \<Rightarrow> string" where
  "redactQuery raw keys =
     (if keys = [] \<or> raw = [] then raw
      else (case ParseQuery raw of None \<Rightarrow> raw | Some vals \<Rightarrow> Encode (redact_values keys vals)))"

record AccessLogOptions =
  LogSuccess :: bool
  SampleRate :: int
  RedactKeys :: "string list"
  SlowThreshold :: int
  HeaderKeys :: "string list"

fun header_fields :: "Request \<Rightarrow> string list \<Rightarrow> string list \<Rightarrow> (string \<times> string) list" where
  "header_fields r redact [] = []"
| "header_fields r redact (key # keys) =
     (if key = [] then header_fields r redact keys
      else (let v = header_get (req_header r) (canonical_key key)
            in if v = [] then header_fields r redact keys
               else (headerFieldName key, if isRedactKey redact key then ''***'' else v) # header_fields r redact keys))"

text \<open>The environment: the elapsed time and its text, the sample drawn, and \<open>net.ParseIP\<close>.\<close>

record log_env =
  env_elapsed :: int
  env_duration :: string
  env_sample :: int
  env_parse_ip :: "string \<Rightarrow> 8 word list option"

text \<open>The request the middleware was called with. A handler may give the context another request, but the
  copies it makes of one share its header map, so the headers are those of the last.\<close>

definition logged_request :: "Request \<Rightarrow> 'h Context \<Rightarrow> Request" where
  "logged_request r c = r\<lparr>req_header := req_header (request c)\<rparr>"

definition slow_entry :: "log_env \<Rightarrow> Request \<Rightarrow> 'h Context \<Rightarrow> log_entry" where
  "slow_entry env r c =
     \<lparr>le_level = LogWarn, le_msg = msg_slow,
      le_fields = [(''method'', req_method r), (''path'', req_path r),
        (''status'', itoa (StatusCode c)), (''requestId'', RequestID c), (''duration'', env_duration env)]\<rparr>"

definition access_entry :: "AccessLogOptions \<Rightarrow> log_env \<Rightarrow> int \<Rightarrow> Request \<Rightarrow> 'h Context \<Rightarrow> log_entry" where
  "access_entry opts env bytes_sent r c =
     \<lparr>le_level = (if StatusCode c \<ge> 400 then LogWarn else LogInfo), le_msg = msg_access,
      le_fields =
        [(''method'', req_method r), (''path'', req_path r), (''status'', itoa (StatusCode c)),
         (''requestId'', RequestID c), (''ip'', RemoteIP (env_parse_ip env) c), (''host'', req_host r),
         (''scheme'', requestScheme r), (''proto'', friendlyProto (req_proto r)),
         (''query'', redactQuery (raw_query r) (RedactKeys opts)),
         (''user_agent'', header_get (req_header r) ''User-Agent''), (''duration'', env_duration env),
         (''duration_ms'', itoa (env_elapsed env div 1000000)), (''bytes'', itoa bytes_sent)]
        @ header_fields r (RedactKeys opts) (HeaderKeys opts)\<rparr>"

definition log_entries :: "AccessLogOptions \<Rightarrow> log_env \<Rightarrow> int \<Rightarrow> Request \<Rightarrow> 'h Context \<Rightarrow> log_entry list" where
  "log_entries opts env bytes_sent r c =
     (let st = StatusCode c
      in (if SlowThreshold opts > 0 \<and> env_elapsed env \<ge> SlowThreshold opts then [slow_entry env r c] else [])
         @ (if st \<ge> 200 \<and> st < 300 \<and> \<not> LogSuccess opts then []
            else if SampleRate opts > 0 \<and> env_sample env \<noteq> 0 then []
            else [access_entry opts env bytes_sent r c]))"

definition AccessLog ::
    "('s, log_entry list) ptr \<Rightarrow> AccessLogOptions \<Rightarrow> log_env \<Rightarrow> ('s, 'h) http_handler \<Rightarrow> ('s, 'h) http_handler" where
  "AccessLog logs opts env next_handler sc =
     (case sc of (s, c) \<Rightarrow>
        (let n = length (w_stack (writer c))
         in case next_handler (s, SetWriter (push_wrapper (CountW \<lparr>cw_n = 0\<rparr>) (writer c)) c) of
              ((s1, c1), Panicked) \<Rightarrow> ((s1, c1), Panicked)
            | ((s1, c1), Returned) \<Rightarrow>
                (let sent = (case w_stack (writer c1) ! base_index n (writer c1) of CountW w \<Rightarrow> cw_n w | _ \<Rightarrow> 0);
                     c2 = SetWriter (restore_writer n (writer c1)) c1
                 in ((modify logs (\<lambda>es. es @ log_entries opts env sent (logged_request (request c) c2) c2) s1, c2), Returned))))"

subsection \<open>The log is a witness only\<close>

lemma wrap64_add [simp]: "wrap64 (wrap64 a + b) = wrap64 (a + b)"
proof -
  have "((a + 2 ^ 63) mod 2 ^ 64 - 2 ^ 63 + b + 2 ^ 63) mod 2 ^ 64 = (a + b + 2 ^ 63) mod (2 ^ 64 :: int)"
    by (simp add: mod_simps algebra_simps)
  then show ?thesis unfolding wrap64_def by simp
qed

lemma respond_counted:
  assumes "w_stack w = [CountW n]" "wrap64 (cw_n n) = cw_n n"
  shows "\<exists>h es. respond as w = \<lparr>w_header = h, w_log = w_log w @ es,
       w_stack = [CountW \<lparr>cw_n = wrap64 (cw_n n + int (length (body_of (calls_of as))))\<rparr>]\<rparr>
     \<and> respond as (w\<lparr>w_stack := []\<rparr>) = \<lparr>w_header = h, w_log = w_log w @ es, w_stack = []\<rparr>"
  using assms
proof (induction as w arbitrary: n rule: respond.induct)
  case (1 w)
  then show ?case by (cases w; cases n) simp
next
  case (2 f as w)
  from 2(1) [of n] 2(2,3) show ?case by (cases w) (simp add: map_header_def)
next
  case (3 call as w)
  let ?n = "fst (cw_step n call)"
  have step: "cw_step n call = (?n, [call])" by (cases call) simp_all
  have w1: "writer_calls [call] w =
      \<lparr>w_header = w_header w, w_log = w_log w @ [event (w_header w) call], w_stack = [CountW ?n]\<rparr>"
    using writer_calls_one [OF 3(2), of call] step by (simp split: prod.splits)
  have w2: "writer_calls [call] (w\<lparr>w_stack := []\<rparr>) = (writer_calls [call] w)\<lparr>w_stack := []\<rparr>"
    by (simp add: w1 writer_calls_plain)
  have "wrap64 (cw_n ?n) = cw_n ?n"
    using 3(3) wrap64_add [of "cw_n n + int (length b)" 0 for b] by (cases call) (simp_all add: wrap64_range)
  from 3(1) [OF _ this] w1 w2 show ?case
    by (cases call) (auto simp: add.assoc)
qed

lemma isRedactKey_set [simp]: "isRedactKey ks k = (k \<in> set ks)"
  by (induction ks) auto

lemma header_fields_set:
  "set (header_fields r redact keys) =
     {(headerFieldName k, if k \<in> set redact then ''***'' else v) | k v.
       k \<in> set keys \<and> k \<noteq> [] \<and> v = header_get (req_header r) (canonical_key k) \<and> v \<noteq> []}"
  by (induction keys) (auto simp: Let_def)

lemma writer_frame [simp]:
  "request (SetWriter w c) = request c" "StatusCode (SetWriter w c) = StatusCode c" "RequestID (SetWriter w c) = RequestID c"
  "remoteHost (SetWriter w c) = remoteHost c" "isTrustedProxy ip a (SetWriter w c) = isTrustedProxy ip a c"
  "GetHeaderCanonical k (SetWriter w c) = GetHeaderCanonical k c"
  by (simp_all add: SetWriter_def StatusCode_def RequestID_def GetString_def Get_val_def remoteHost_def isTrustedProxy_def
      GetHeaderCanonical_def split: option.split)

lemma RemoteIP_writer [simp]: "RemoteIP ip (SetWriter w c) = RemoteIP ip c"
  by (simp add: RemoteIP_def Let_def)

lemma messages_differ: "msg_slow \<noteq> msg_access"
  by code_simp



subsection \<open>Redaction\<close>

lemma unescape_escape_char:
  "QueryUnescape (escape_char c @ s) = map_option ((#) c) (QueryUnescape s)"
proof -
  have hex: "unhex (upperhex ! d) = Some d" if "d < 16" for d
  proof -
    have "list_all (\<lambda>d. unhex (upperhex ! d) = Some d) [0..<16]" by code_simp
    with that show ?thesis by (simp add: list_all_iff)
  qed
  have "(of_char c :: nat) < 16 * 16" by simp
  then have "of_char c div 16 < (16::nat)" "of_char c mod 16 < (16::nat)" by (simp_all add: less_mult_imp_div_less)
  then have val: "unhex (upperhex ! (of_char c div 16)) = Some (of_char c div 16)"
    "unhex (upperhex ! (of_char c mod 16)) = Some (of_char c mod 16)" by (simp_all add: hex)
  have "\<not> unreserved (CHR ''%'')" "\<not> unreserved (CHR ''+'')" "char_of (37::nat) = CHR ''%''" "char_of (43::nat) = CHR ''+''"
    by code_simp+
  then show ?thesis using val by (auto simp: escape_char_def)
qed

lemma unescape_escape [simp]: "QueryUnescape (QueryEscape s) = Some s"
proof -
  have "QueryUnescape (QueryEscape s @ t) = map_option ((@) s) (QueryUnescape t)" for t
    by (induction s) (simp_all add: QueryEscape_def unescape_escape_char option.map_comp comp_def option.map_ident)
  from this [of "[]"] show ?thesis by simp
qed

lemma escape_chars: "set (QueryEscape s) \<inter> {CHR ''&'', CHR ''='', CHR '';''} = {}"
proof -
  have up: "upperhex ! d \<notin> {CHR ''&'', CHR ''='', CHR '';''}" if "d < 16" for d
  proof -
    have "list_all (\<lambda>d. upperhex ! d \<notin> {CHR ''&'', CHR ''='', CHR '';''}) [0..<16]" by code_simp
    with that show ?thesis by (simp add: list_all_iff)
  qed
  have un: "\<not> unreserved (CHR ''&'')" "\<not> unreserved (CHR ''='')" "\<not> unreserved (CHR '';'')" by code_simp+
  have "set (escape_char c) \<inter> {CHR ''&'', CHR ''='', CHR '';''} = {}" for c
  proof -
    have "(of_char c :: nat) < 16 * 16" by simp
    then have "of_char c div 16 < (16::nat)" "of_char c mod 16 < (16::nat)" by (simp_all add: less_mult_imp_div_less)
    with up [of "of_char c div 16"] up [of "of_char c mod 16"] un show ?thesis
      by (auto simp: escape_char_def)
  qed
  then show ?thesis by (fastforce simp: QueryEscape_def)
qed

lemma cut_pair: "cut (CHR ''='') (encode_pair k v) = (QueryEscape k, QueryEscape v)"
proof -
  have "CHR ''='' \<notin> set (QueryEscape k)" using escape_chars [of k] by auto
  then have "takeWhile (\<lambda>c. c \<noteq> CHR ''='') (encode_pair k v) = QueryEscape k"
    "dropWhile (\<lambda>c. c \<noteq> CHR ''='') (encode_pair k v) = ''='' @ QueryEscape v"
    by (auto simp: encode_pair_def takeWhile_append dropWhile_append)
  then show ?thesis by (simp add: cut_def)
qed

lemma parse_pair:
  "parse_pairs (encode_pair k v # ps) m = parse_pairs ps (AList.update k (hindex m k @ [v]) m)"
proof -
  have "CHR '';'' \<notin> set (encode_pair k v)" using escape_chars [of k] escape_chars [of v] by (auto simp: encode_pair_def)
  then show ?thesis by (simp add: cut_pair) (simp add: encode_pair_def)
qed

declare parse_pairs.simps(2) [simp del]

lemma update_twice: "AList.update k v (AList.update k w m) = AList.update k v m"
  by (induction m) auto

lemma parse_pairs_group:
  "parse_pairs (map (encode_pair k) vs @ ps) m =
     parse_pairs ps (if vs = [] then m else AList.update k (hindex m k @ vs) m)"
proof (induction vs arbitrary: m)
  case (Cons v vs)
  then show ?case
    by (simp add: parse_pair update_twice)
qed simp

lemma parse_pairs_groups:
  "distinct (map fst (m @ gs)) \<Longrightarrow> list_all (\<lambda>kv. snd kv \<noteq> []) gs \<Longrightarrow>
   parse_pairs (concat (map (\<lambda>(k, vs). map (encode_pair k) vs) gs)) m = Some (m @ gs)"
proof (induction gs arbitrary: m)
  case (Cons g gs)
  obtain k vs where g: "g = (k, vs)" by (cases g)
  with Cons.prems have new: "k \<notin> fst ` set m" "vs \<noteq> []" by auto
  then have "map_of m k = None" by (simp add: map_of_eq_None_iff)
  moreover have "AList.update k vs m = m @ [(k, vs)]" using new(1) by (induction m) auto
  ultimately have "parse_pairs (map (encode_pair k) vs @ ps) m = parse_pairs ps (m @ [(k, vs)])" for ps
    using new(2) by (simp add: parse_pairs_group hindex_def)
  with Cons.IH [of "m @ [(k, vs)]"] Cons.prems g show ?case by simp
qed simp

lemma split_join_pairs:
  "list_all (\<lambda>p. c \<notin> set p) ps \<Longrightarrow> ps \<noteq> [] \<Longrightarrow> split_on c (join_with [c] ps) = ps"
  by (induction "[c]" ps rule: join_with.induct) (auto simp: split_on_no_sep split_on_append)

lemma pair_chars: "CHR ''&'' \<notin> set (encode_pair k v)"
  using escape_chars [of k] escape_chars [of v] by (auto simp: encode_pair_def)

text \<open>Encoding a table of parameters and parsing it again gives the table, in the order of its keys.\<close>

lemma parse_encode:
  assumes "distinct (map fst m)" "list_all (\<lambda>kv. snd kv \<noteq> []) m"
  shows "ParseQuery (Encode m) = Some (sort_key fst m)"
proof -
  let ?gs = "sort_key fst m" and ?ps = "concat (map (\<lambda>(k, vs). map (encode_pair k) vs) (sort_key fst m))"
  have "distinct (map fst ?gs)"
    using assms(1) by (simp add: distinct_map inj_on_def)
  moreover have "list_all (\<lambda>kv. snd kv \<noteq> []) ?gs" using assms(2) by (simp add: list_all_iff)
  ultimately have pairs: "parse_pairs ?ps [] = Some ?gs" using parse_pairs_groups [of "[]" ?gs] by simp
  show ?thesis
  proof (cases "?ps = []")
    case True
    with pairs show ?thesis by (simp add: ParseQuery_def Encode_def parse_pairs.simps(2))
  next
    case False
    have "list_all (\<lambda>p. CHR ''&'' \<notin> set p) ?ps" by (auto simp: list_all_iff pair_chars)
    from split_join_pairs [OF this False] pairs show ?thesis by (simp add: ParseQuery_def Encode_def)
  qed
qed

lemma parse_pairs_wf:
  "parse_pairs ps m = Some m' \<Longrightarrow> distinct (map fst m) \<Longrightarrow> list_all (\<lambda>kv. snd kv \<noteq> []) m \<Longrightarrow>
   distinct (map fst m') \<and> list_all (\<lambda>kv. snd kv \<noteq> []) m'"
proof (induction ps arbitrary: m)
  case (Cons p ps)
  have "list_all (\<lambda>kv. snd kv \<noteq> []) (AList.update k (ws @ [v]) m)" for k v ws
    using Cons.prems(3) by (induction m) (auto split: if_splits)
  with Cons show ?case
    by (auto simp: parse_pairs.simps(2) distinct_update split: if_splits option.splits prod.splits)
qed simp

lemma redact_values_alt:
  "redact_values keys m = map (\<lambda>kv. (fst kv, if fst kv \<in> set keys then [''***''] else snd kv)) m"
  by (auto simp: redact_values_def)

lemma redact_values_keys [simp]: "map fst (redact_values keys m) = map fst m"
  by (simp add: redact_values_alt comp_def)

lemma redact_values_index:
  "distinct (map fst m) \<Longrightarrow> list_all (\<lambda>kv. snd kv \<noteq> []) m \<Longrightarrow>
   hindex (redact_values keys m) k = (if k \<in> set keys \<and> hindex m k \<noteq> [] then [''***''] else hindex m k)"
  by (induction m) (auto simp: redact_values_alt hindex_def)

lemma parsed_wf:
  assumes "ParseQuery raw = Some m"
  shows "distinct (map fst m)" "list_all (\<lambda>kv. snd kv \<noteq> []) m"
  using parse_pairs_wf [of "split_on (CHR ''&'') raw" "[]" m] assms by (auto simp: ParseQuery_def)

lemma sort_key_set_unique:
  assumes "distinct (map fst xs)" "distinct (map fst ys)" "set xs = set ys"
  shows "sort_key fst xs = (sort_key fst ys :: (string \<times> 'a) list)"
proof (rule map_sorted_distinct_set_unique [of fst])
  show "inj_on fst (set (sort_key fst xs) \<union> set (sort_key fst ys))"
    using assms(1,3) by (auto simp: distinct_map)
qed (use assms in \<open>simp_all add: distinct_map\<close>)

lemma hindex_sorted:
  "distinct (map fst m) \<Longrightarrow> hindex (sort_key fst m) k = hindex m k"
proof -
  assume d: "distinct (map fst m)"
  then have "map_of (sort_key fst m) = map_of m" by (subst map_of_inject_set) (simp_all add: distinct_map)
  then show ?thesis by (simp add: hindex_def)
qed

text \<open>C25. The log does not disclose a redacted parameter: whenever the query can be parsed, the query
  that is logged parses to the same parameters, in the order of their keys, where each with a redacted
  key has the one value \<open>***\<close> and all others have their values. And no part of the redacted values
  is kept: another query with the same keys that differs in these values only is logged as the same
  text.\<close>

theorem redaction_replaces_values:
  assumes "ParseQuery raw = Some m" "keys \<noteq> []" "raw \<noteq> []"
  shows "(\<exists>m'. ParseQuery (redactQuery raw keys) = Some m' \<and> sorted (map fst m') \<and> set (map fst m') = set (map fst m)
        \<and> (\<forall>k. hindex m' k = (if k \<in> set keys \<and> hindex m k \<noteq> [] then [''***''] else hindex m k)))
    \<and> (\<forall>raw2 m2. ParseQuery raw2 = Some m2 \<and> raw2 \<noteq> [] \<and> set (map fst m2) = set (map fst m)
        \<and> (\<forall>k. k \<notin> set keys \<longrightarrow> hindex m2 k = hindex m k) \<longrightarrow> redactQuery raw2 keys = redactQuery raw keys)"
proof (intro conjI allI impI)
  note wf = parsed_wf [OF assms(1)]
  have d: "distinct (map fst (redact_values keys m))" using wf(1) by simp
  have "list_all (\<lambda>kv. snd kv \<noteq> []) (redact_values keys m)"
    using wf(2) by (auto simp: redact_values_alt list_all_iff)
  from parse_encode [OF d this] assms have "ParseQuery (redactQuery raw keys) = Some (sort_key fst (redact_values keys m))"
    by (simp add: redactQuery_def)
  moreover have "set (map fst (sort_key fst (redact_values keys m))) = set (map fst m)"
    using redact_values_keys [of keys m] by (metis list.set_map set_sort)
  ultimately show "\<exists>m'. ParseQuery (redactQuery raw keys) = Some m' \<and> sorted (map fst m') \<and> set (map fst m') = set (map fst m)
      \<and> (\<forall>k. hindex m' k = (if k \<in> set keys \<and> hindex m k \<noteq> [] then [''***''] else hindex m k))"
    by (simp add: hindex_sorted [OF d] redact_values_index [OF wf])
next
  fix raw2 m2
  assume "ParseQuery raw2 = Some m2 \<and> raw2 \<noteq> [] \<and> set (map fst m2) = set (map fst m)
    \<and> (\<forall>k. k \<notin> set keys \<longrightarrow> hindex m2 k = hindex m k)"
  then have raw2: "ParseQuery raw2 = Some m2" "raw2 \<noteq> []" "set (map fst m2) = set (map fst m)"
    and same: "\<And>k. k \<notin> set keys \<Longrightarrow> hindex m2 k = hindex m k" by blast+
  note wf = parsed_wf [OF assms(1)]
  have d: "distinct (map fst (redact_values keys m))" using wf(1) by simp
  note wf2 = parsed_wf [OF raw2(1)]
  have d2: "distinct (map fst (redact_values keys m2))" using wf2(1) by simp
  have entry: "(k, vs) \<in> set x \<longleftrightarrow> k \<in> set (map fst x) \<and> hindex x k = vs" if "distinct (map fst x)" for k vs and x :: header
  proof -
    have "(k, vs) \<in> set x \<longleftrightarrow> map_of x k = Some vs" using that by simp
    moreover have "k \<in> set (map fst x) \<longleftrightarrow> map_of x k \<noteq> None" by (simp add: map_of_eq_None_iff)
    ultimately show ?thesis by (cases "map_of x k") (auto simp: hindex_def)
  qed
  have "set (redact_values keys m2) = set (redact_values keys m)"
  proof (rule set_eqI, clarify)
    fix k vs
    have present: "k \<in> set (map fst x) \<longleftrightarrow> hindex x k \<noteq> []" if "list_all (\<lambda>kv. snd kv \<noteq> []) x" for x :: header
      using that by (induction x) (auto simp: hindex_def split: option.splits)
    have shown: "hindex (redact_values keys m2) k = hindex (redact_values keys m) k" if "k \<in> set (map fst m)"
    proof -
      have "hindex m k \<noteq> []" using that present [OF wf(2)] by blast
      moreover have "hindex m2 k \<noteq> []" using that present [OF wf2(2)] unfolding raw2(3) by blast
      ultimately show ?thesis
        unfolding redact_values_index [OF wf] redact_values_index [OF wf2]
        using same [of k] by (cases "k \<in> set keys") simp_all
    qed
    show "(k, vs) \<in> set (redact_values keys m2) \<longleftrightarrow> (k, vs) \<in> set (redact_values keys m)"
      unfolding entry [OF d] entry [OF d2] redact_values_keys raw2(3)
      by (rule conj_cong [OF refl]) (simp only: shown)
  qed
  from sort_key_set_unique [OF _ _ this] wf wf2 have "Encode (redact_values keys m2) = Encode (redact_values keys m)"
    by (simp add: Encode_def)
  with assms raw2 show "redactQuery raw2 keys = redactQuery raw keys" by (simp add: redactQuery_def)
qed

theorem redaction_replaces_values_witness:
  "\<exists>m'. ParseQuery (redactQuery ''token=a%26b&x=1&token=c'' [''token'']) = Some m'
     \<and> hindex m' ''token'' = [''***''] \<and> hindex m' ''x'' = [''1'']
     \<and> redactQuery ''x=1&token=secret'' [''token''] = redactQuery ''token=a%26b&x=1&token=c'' [''token'']"
proof -
  have p: "ParseQuery ''token=a%26b&x=1&token=c'' = Some [(''token'', [''a&b'', ''c'']), (''x'', [''1''])]"
    and q: "ParseQuery ''x=1&token=secret'' = Some [(''x'', [''1'']), (''token'', [''secret''])]" by code_simp+
  have "''token=a%26b&x=1&token=c'' \<noteq> []" "[''token''] \<noteq> []" by simp_all
  note both = redaction_replaces_values [where keys = "[''token'']", OF p this(2,1)]
  from conjunct1 [OF both] obtain m' where m': "ParseQuery (redactQuery ''token=a%26b&x=1&token=c'' [''token'']) = Some m'"
      "\<And>k. hindex m' k = (if k \<in> set [''token''] \<and> hindex [(''token'', [''a&b'', ''c'']), (''x'', [''1''])] k \<noteq> []
         then [''***''] else hindex [(''token'', [''a&b'', ''c'']), (''x'', [''1''])] k)" by blast
  have "redactQuery ''x=1&token=secret'' [''token''] = redactQuery ''token=a%26b&x=1&token=c'' [''token'']"
    by (rule conjunct2 [OF both, rule_format, OF conjI [OF q]]) (auto simp: hindex_def)
  with m'(1) m'(2) [of "''token''"] m'(2) [of "''x''"] show ?thesis by (simp add: hindex_def)
qed

text \<open>A query that does not parse is logged as it is, secrets included: one malformed escape anywhere
  in it switches the redaction off.\<close>

theorem malformed_query_not_redacted:
  "redactQuery ''token=secret&x=%zz'' [''token''] = ''token=secret&x=%zz''"
  by code_simp

text \<open>Headers are looked up by their canonical name, but redacted by the text of the key: with
  \<open>cookie\<close> to be redacted, the header logged under \<open>Cookie\<close> is shown.\<close>

theorem header_redaction_case_sensitive:
  "header_fields (nil_request\<lparr>req_header := [(''Cookie'', [''secret''])]\<rparr>) [''cookie''] [''Cookie''] = [(''header_cookie'', ''secret'')]"
  by code_simp

end
