(* ===== verification/Pipeline.thy ===== *)
theory Pipeline
  imports ServerStart StaticFiles AccessLogging
begin

text \<open>
  The server as one handler: the built-in middlewares with the options that
  \<open>registerBuiltinMiddleware\<close> takes from the configuration, the router of \<open>router.go\<close> behind
  them, and the context put in front of both by \<open>injectContext\<close>.

  The requests of a server share the state \<open>shared\<close>; each middleware holds a pointer to its
  part of it.
\<close>

subsection \<open>The shared state\<close>

record ('d, 't) shared =
  sh_metrics :: Metrics
  sh_limiter :: ConcurrencyLimiter
  sh_rate :: "'t RateLimiter"
  sh_log :: "log_entry list"
  sh_files :: "'d fs_state"

definition metrics_ptr :: "(('d, 't) shared, Metrics) ptr" where
  "metrics_ptr = \<lparr>deref = sh_metrics, assign = (\<lambda>a s. s\<lparr>sh_metrics := a\<rparr>)\<rparr>"

definition limiter_ptr :: "(('d, 't) shared, ConcurrencyLimiter) ptr" where
  "limiter_ptr = \<lparr>deref = sh_limiter, assign = (\<lambda>a s. s\<lparr>sh_limiter := a\<rparr>)\<rparr>"

definition rate_ptr :: "(('d, 't) shared, 't RateLimiter) ptr" where
  "rate_ptr = \<lparr>deref = sh_rate, assign = (\<lambda>a s. s\<lparr>sh_rate := a\<rparr>)\<rparr>"

definition log_ptr :: "(('d, 't) shared, log_entry list) ptr" where
  "log_ptr = \<lparr>deref = sh_log, assign = (\<lambda>a s. s\<lparr>sh_log := a\<rparr>)\<rparr>"

definition files_ptr :: "(('d, 't) shared, 'd fs_state) ptr" where
  "files_ptr = \<lparr>deref = sh_files, assign = (\<lambda>a s. s\<lparr>sh_files := a\<rparr>)\<rparr>"

lemmas shared_ptrs = metrics_ptr_def limiter_ptr_def rate_ptr_def log_ptr_def files_ptr_def

interpretation log_metrics: separate_pointers log_ptr metrics_ptr by unfold_locales (simp_all add: shared_ptrs)
interpretation log_limiter: separate_pointers log_ptr limiter_ptr by unfold_locales (simp_all add: shared_ptrs)
interpretation metrics_limiter: separate_pointers metrics_ptr limiter_ptr by unfold_locales (simp_all add: shared_ptrs)
interpretation limiter_metrics: separate_pointers limiter_ptr metrics_ptr by unfold_locales (simp_all add: shared_ptrs)
interpretation rate_metrics: separate_pointers rate_ptr metrics_ptr by unfold_locales (simp_all add: shared_ptrs)
interpretation rate_limiter: separate_pointers rate_ptr limiter_ptr by unfold_locales (simp_all add: shared_ptrs)
interpretation files_metrics: separate_pointers files_ptr metrics_ptr by unfold_locales (simp_all add: shared_ptrs)
interpretation files_limiter: separate_pointers files_ptr limiter_ptr by unfold_locales (simp_all add: shared_ptrs)

subsection \<open>Options of the built-in middlewares\<close>

definition message_for :: "('f, 't) Server \<Rightarrow> string \<Rightarrow> string" where
  "message_for s key = (case map_of (mergeErrorMessages s) key of None \<Rightarrow> [] | Some m \<Rightarrow> m)"

definition cors_config :: "Config \<Rightarrow> CORSConfig" where
  "cors_config c =
     (let cfg = \<lparr>AllowedOrigins = CORSAllowedOrigins c, AllowedMethods = CORSAllowedMethods c,
                 AllowedHeaders = CORSAllowedHeaders c, ExposeHeaders = CORSExposeHeaders c,
                 CORS_MaxAge = whole_seconds (CORSMaxAge c), AllowCredentials = CORSAllowCredentials c,
                 AllowPrivateNetwork = CORSAllowPrivateNetwork c\<rparr>
      in if length (AllowedOrigins cfg) = 0 then
           (let d = DefaultCORSConfig;
                d = (if length (CORSExposeHeaders c) > 0 then d\<lparr>ExposeHeaders := CORSExposeHeaders c\<rparr> else d)
            in if CORSAllowPrivateNetwork c then d\<lparr>AllowPrivateNetwork := True\<rparr> else d)
         else cfg)"

definition security_options :: "Config \<Rightarrow> SecurityHeadersOptions" where
  "security_options c =
     \<lparr>ContentTypeNoSniff = True, FrameDeny = True, ReferrerPolicy = SecurityReferrerPolicy c,
      HSTSMaxAge = wrap64 (SecurityHSTSMaxAge c * second), PermissionsPolicy = SecurityPermissionsPolicy c,
      CrossOriginOpenerPolicy = SecurityCrossOriginOpenerPolicy c,
      CrossOriginResourcePolicy = SecurityCrossOriginResourcePolicy c,
      CrossOriginEmbedderPolicy = SecurityCrossOriginEmbedderPolicy c,
      ContentSecurityPolicy = SecurityContentSecurityPolicy c,
      ContentSecurityPolicyReportOnly = SecurityContentSecurityPolicyReportOnly c,
      HSTSIncludeSubDomains = SecurityHSTSIncludeSubDomains c, HSTSPreload = SecurityHSTSPreload c,
      OriginAgentCluster = SecurityOriginAgentCluster c\<rparr>"

definition access_log_options :: "Config \<Rightarrow> AccessLogOptions" where
  "access_log_options c =
     \<lparr>LogSuccess = LogSuccessReq c, SampleRate = AccessLogSampleRate c, RedactKeys = AccessLogRedact c,
      SlowThreshold = SlowRequestThreshold c, HeaderKeys = AccessLogHeaders c\<rparr>"

definition gzip_options :: "Config \<Rightarrow> GzipOptions" where
  "gzip_options c = \<lparr>MinSize = GzipMinSize c, Level = GzipLevel c\<rparr>"

text \<open>The limiter and the metrics \<open>registerBuiltinMiddleware\<close> creates.\<close>

definition new_limiter :: "('f, 't) Server \<Rightarrow> ConcurrencyLimiter" where
  "new_limiter s =
     SetMetricsSink (metricsSink s \<noteq> None) (SetRejectMessage (message_for s ''too_busy'') (NewConcurrencyLimiter (maxConcurrent s)))"

definition initial_shared :: "'d \<Rightarrow> 't RateLimiter \<Rightarrow> ('f, 't) Server \<Rightarrow> ('d, 't) shared" where
  "initial_shared d rl s =
     \<lparr>sh_metrics = NewMetrics (metricsSink s \<noteq> None), sh_limiter = new_limiter s, sh_rate = rl, sh_log = [],
      sh_files = \<lparr>disk = d, open_files = 0\<rparr>\<rparr>"

subsection \<open>The middlewares\<close>

text \<open>The functions behind the values of the user, and those of the libraries.\<close>

record ('f, 'd, 't) runtime =
  rt_middleware :: "'f \<Rightarrow> (('d, 't) shared, handler) http_handler \<Rightarrow> (('d, 't) shared, handler) http_handler"
  rt_files :: "'f \<Rightarrow> 'd filesystem"
  rt_key :: "'f \<Rightarrow> handler Context \<Rightarrow> string"
  rt_generate :: "'f \<Rightarrow> string"
  rt_bucket :: "'t bucket_impl"
  rt_http :: http_env
  rt_marshal :: "goval \<Rightarrow> string option"
  rt_compress :: "int \<Rightarrow> gz_input list \<Rightarrow> gz_input \<Rightarrow> string list"
  rt_error_text :: "string \<Rightarrow> string"
  rt_parse_ip :: "string \<Rightarrow> 8 word list option"

text \<open>What differs between requests: the clock in nanoseconds, the random id, the elapsed time, the
  deadline, a panic and the log line.\<close>

record request_env =
  re_now :: int
  re_random :: "string option"
  re_elapsed :: "64 word"
  re_deadline :: nat
  re_panic :: panic_env
  re_log :: log_env

definition millis :: "request_env \<Rightarrow> int" where
  "millis q = re_now q div 1000000"

definition builtin_middleware ::
    "('f, 'd, 't) runtime \<Rightarrow> ('f, 't) Server \<Rightarrow> request_env \<Rightarrow> string
      \<Rightarrow> (('d, 't) shared, handler) http_handler \<Rightarrow> (('d, 't) shared, handler) http_handler" where
  "builtin_middleware rt s q key =
     (let c = config s; m = rt_marshal rt
      in if key = ''recovery'' then RecoveryWithOptions (Some log_ptr) (Some metrics_ptr) (Debug c) (re_panic q) m (millis q)
         else if key = ''request_id'' then
           RequestIDWithOptions (rid_Header (requestIDOpts s))
             (case rid_Generator (requestIDOpts s) of
                None \<Rightarrow> newRequestID (re_random q) (re_now q) | Some f \<Rightarrow> rt_generate rt f)
         else if key = ''body_limit'' then
           BodyLimitWithOptions (MaxBodyBytes c) (message_for s ''body_too_large'') m (millis q)
         else if key = ''concurrency_limit'' then ConcurrencyLimit limiter_ptr m (millis q)
         else if key = ''timeout'' then
           TimeoutWithOptions (RequestTimeout c) (message_for s ''timeout'') (re_deadline q) m (millis q)
         else if key = ''cors'' then CORS (cors_config c)
         else if key = ''validation'' then Validation (rt_error_text rt) m (millis q)
         else if key = ''security'' then SecurityHeaders (security_options c)
         else if key = ''gzip'' then GzipWithOptions (rt_compress rt) (gzip_options c)
         else if key = ''metrics'' then MetricsHandler metrics_ptr (re_elapsed q)
         else AccessLog log_ptr (access_log_options c) (re_log q))"

fun middleware_of ::
    "('f, 'd, 't) runtime \<Rightarrow> ('f, 't) Server \<Rightarrow> request_env \<Rightarrow> 'f middleware_value
      \<Rightarrow> (('d, 't) shared, handler) http_handler \<Rightarrow> (('d, 't) shared, handler) http_handler" where
  "middleware_of rt s q (Builtin key) = builtin_middleware rt s q key"
| "middleware_of rt s q RateLimitMiddleware =
     RateLimit rate_ptr (rt_bucket rt) (rt_parse_ip rt) (rt_marshal rt) (re_now q)
       (case rateLimiter s of Some (_, Some f) \<Rightarrow> Some (rt_key rt f) | _ \<Rightarrow> None)"
| "middleware_of rt s q (External f) = rt_middleware rt f"

subsection \<open>The router\<close>

text \<open>The chain runs with fuel that \<open>chain_terminates\<close> shows to be enough.\<close>

definition run_handlers :: "handler list \<Rightarrow> ('s, handler) http_handler" where
  "run_handlers hs sc =
     (case sc of (s, c) \<Rightarrow>
        (case Run (2 * length hs) (SetHandlers hs c) of
           Some (c', e) \<Rightarrow> ((s, c'), e)
         | None \<Rightarrow> ((s, c), Panicked)))"

definition wrapRequestHandler :: "int \<Rightarrow> handler list \<Rightarrow> string list \<Rightarrow> Param list \<Rightarrow> ('s, handler) http_handler" where
  "wrapRequestHandler max_body chain names matched sc =
     (case sc of (s, c) \<Rightarrow>
        (let c = (if length names > 0 then SetParams matched c else c);
             c = (if max_body > 0 then SetMaxBody max_body c else c)
         in run_handlers chain (s, c)))"

text \<open>A handler on a part of the state.\<close>

definition on_part :: "('s, 'a) ptr \<Rightarrow> ('a, 'h) http_handler \<Rightarrow> ('s, 'h) http_handler" where
  "on_part p h sc =
     (case sc of (s, c) \<Rightarrow> (case h (deref p s, c) of ((a, c'), e) \<Rightarrow> ((assign p a s, c'), e)))"

text \<open>The fallback for an unknown path; with \<open>EnableSPA\<close> it is the handler of \<open>static.go\<close>, which
  runs as the only handler of its chain.\<close>

definition run_no_route ::
    "('f, 'd, 't) runtime \<Rightarrow> ('f, 't) Server \<Rightarrow> request_env \<Rightarrow> handler \<Rightarrow> (('d, 't) shared, handler) http_handler" where
  "run_no_route rt s q noRt sc =
     (case spa s of
        None \<Rightarrow> run_handlers [noRt] sc
      | Some (fs, indexPath) \<Rightarrow>
          (if aborted (snd sc) then (sc, Returned)
           else on_part files_ptr (spaNoRoute (rt_marshal rt) (millis q) (rt_http rt) (rt_files rt fs) indexPath) sc))"

definition ServeHTTP ::
    "('f, 'd, 't) runtime \<Rightarrow> ('f, 't) Server \<Rightarrow> request_env \<Rightarrow> (handler, 'f) Router \<Rightarrow> (('d, 't) shared, handler) http_handler" where
  "ServeHTTP rt s q router sc =
     (case sc of (sh, c) \<Rightarrow>
        (case serve router (req_method (request c)) (req_path (request c)) of
           Dispatch (ChainHandler chain names) matched \<Rightarrow> wrapRequestHandler (maxBody router) chain names matched sc
         | Dispatch (StaticHandler pre fs opts) matched \<Rightarrow>
             on_part files_ptr (static_handler (rt_http rt) pre (rt_files rt fs) opts) sc
         | Redirect301 loc \<Rightarrow> ((sh, call_writer [CWriteHeader 301] (on_header (header_set ''Location'' loc) c)), Returned)
         | Options204 allow \<Rightarrow> ((sh, call_writer [CWriteHeader 204] (on_header (header_set ''Allow'' allow) c)), Returned)
         | MethodNotAllowed405 allow \<Rightarrow> run_handlers [noMethod router] (sh, on_header (header_set ''Allow'' allow) c)
         | NotFound404 \<Rightarrow> run_no_route rt s q (noRoute router) sc))"

subsection \<open>The root handler\<close>

definition root_handler ::
    "('f, 'd, 't) runtime \<Rightarrow> ('f, 't) Server \<Rightarrow> request_env \<Rightarrow> 'f middleware_value list \<Rightarrow> (handler, 'f) Router
      \<Rightarrow> (('d, 't) shared, handler) http_handler" where
  "root_handler rt s q chain router = foldr (middleware_of rt s q) chain (ServeHTTP rt s q router)"

text \<open>\<open>injectContext\<close>: one request on the connection \<open>w\<close>.\<close>

definition handle_request ::
    "('f, 'd, 't) runtime \<Rightarrow> ('f, 't) Server \<Rightarrow> request_env \<Rightarrow> 'f middleware_value list \<Rightarrow> (handler, 'f) Router
      \<Rightarrow> handler Context \<Rightarrow> Writer \<Rightarrow> Request \<Rightarrow> ('d, 't) shared \<Rightarrow> (('d, 't) shared \<times> handler Context) \<times> ending" where
  "handle_request rt s q chain router pooled w r sh =
     root_handler rt s q chain router (sh, SetRequest r (Acquire pooled w r))"

text \<open>Requests one after the other; each takes the context of the one before from the pool.\<close>

fun handle_all ::
    "('f, 'd, 't) runtime \<Rightarrow> ('f, 't) Server \<Rightarrow> 'f middleware_value list \<Rightarrow> (handler, 'f) Router
      \<Rightarrow> (request_env \<times> Writer \<times> Request) list \<Rightarrow> handler Context \<Rightarrow> ('d, 't) shared \<Rightarrow> ('d, 't) shared" where
  "handle_all rt s chain router [] pooled sh = sh"
| "handle_all rt s chain router ((q, w, r) # reqs) pooled sh =
     (case handle_request rt s q chain router pooled w r sh of
        ((sh1, c), e) \<Rightarrow> handle_all rt s chain router reqs c sh1)"

subsection \<open>Counters are given back\<close>

text \<open>What a request must leave as it found it: the slots of the limiter and the gauge of requests
  in flight. \<open>balanced on\<close> says a handler does, where \<open>on\<close> tells whether the limiter has a bound.\<close>

definition occupancy :: "('d, 't) shared \<Rightarrow> int \<times> int \<times> 64 word" where
  "occupancy s = (max_active (sh_limiter s), active (sh_limiter s), load InFlight (sh_metrics s))"

definition balanced :: "bool \<Rightarrow> (('d, 't) shared, 'h) http_handler \<Rightarrow> bool" where
  "balanced on h \<longleftrightarrow> (\<forall>s c. (on \<longrightarrow> max_active (sh_limiter s) > 0) \<longrightarrow> occupancy (fst (fst (h (s, c)))) = occupancy s)"

lemma balancedD:
  "balanced on h \<Longrightarrow> h (s, c) = ((s', c'), e) \<Longrightarrow> (on \<longrightarrow> max_active (sh_limiter s) > 0) \<Longrightarrow> occupancy s' = occupancy s"
  unfolding balanced_def by (metis fst_conv)

lemma balancedI:
  "(\<And>s c s' c' e. h (s, c) = ((s', c'), e) \<Longrightarrow> (on \<longrightarrow> max_active (sh_limiter s) > 0) \<Longrightarrow> occupancy s' = occupancy s) \<Longrightarrow> balanced on h"
  unfolding balanced_def by (metis surj_pair fst_conv)

lemma occupancy_ptrs [simp]:
  "occupancy (modify log_ptr f s) = occupancy s" "occupancy (assign log_ptr l s) = occupancy s"
  "occupancy (assign rate_ptr rl s) = occupancy s" "occupancy (assign files_ptr st s) = occupancy s"
  "sh_limiter (modify log_ptr f s) = sh_limiter s" "sh_limiter (modify metrics_ptr g s) = sh_limiter s"
  by (simp_all add: occupancy_def modify_def shared_ptrs)

lemma occupancy_ops:
  "total InFlight ops = 0 \<Longrightarrow> occupancy (modify metrics_ptr (run_ops ops) s) = occupancy s"
  by (simp add: occupancy_def modify_def metrics_ptr_def load_run del: load.simps)

text \<open>Every middleware keeps the balance of what is behind it.\<close>

lemma balanced_recovery: "balanced on h \<Longrightarrow> balanced on (RecoveryWithOptions (Some log_ptr) (Some metrics_ptr) d pe m now h)"
  by (rule balancedI) (auto simp: RecoveryWithOptions_def recovered_def Let_def occupancy_ops recordPanic_def
      split: prod.splits ending.splits dest: balancedD)

lemma balanced_simple:
  assumes "balanced on h"
  shows "balanced on (RequestIDWithOptions name rid h)" "balanced on (BodyLimitWithOptions n msg m now h)"
    "balanced on (CORS cfg h)" "balanced on (Validation et m now h)" "balanced on (SecurityHeaders opts h)"
  using assms
  by (auto simp: balanced_def RequestIDWithOptions_def BodyLimitWithOptions_def CORS_def Validation_def SecurityHeaders_def
      Let_def split: option.split)

lemma balanced_timeout: "balanced on h \<Longrightarrow> balanced on (TimeoutWithOptions t msg k m now h)"
  by (rule balancedI) (auto simp: TimeoutWithOptions_def Let_def split: if_splits prod.splits ending.splits wrapper.splits dest: balancedD)

lemma balanced_gzip: "balanced on h \<Longrightarrow> balanced on (GzipWithOptions codec opts h)"
  by (rule balancedI) (auto simp: GzipWithOptions_def Let_def split: if_splits prod.splits ending.splits wrapper.splits dest: balancedD)

lemma balanced_access_log: "balanced on h \<Longrightarrow> balanced on (AccessLog log_ptr opts env h)"
  by (rule balancedI) (auto simp: AccessLog_def Let_def split: if_splits prod.splits ending.splits wrapper.splits dest: balancedD)

lemma balanced_rate: "balanced on h \<Longrightarrow> balanced on (RateLimit rate_ptr impl ip m now key h)"
  by (auto simp: balanced_def RateLimit_def Let_def split: prod.splits bool.splits option.splits)
    (simp_all add: rate_ptr_def occupancy_def)

lemma occupancy_limiter [simp]:
  "occupancy (assign limiter_ptr l s) = (max_active l, active l, load InFlight (sh_metrics s))"
  "occupancy (modify limiter_ptr Release s) = (case occupancy s of (n, k, g) \<Rightarrow> (n, k - 1, g))"
  "max_active (sh_limiter (assign limiter_ptr l s)) = max_active l"
  by (simp_all add: occupancy_def modify_def limiter_ptr_def Release_def)

lemma balanced_concurrency:
  assumes "balanced on h"
  shows "balanced True (ConcurrencyLimit limiter_ptr m now h)"
proof (rule balancedI)
  fix s c s' c' e
  assume run: "ConcurrencyLimit limiter_ptr m now h (s, c) = ((s', c'), e)" and on: "True \<longrightarrow> max_active (sh_limiter s) > 0"
  let ?l = "sh_limiter s" and ?up = "(sh_limiter s)\<lparr>active := active (sh_limiter s) + 1\<rparr>"
  have lim: "deref limiter_ptr s = ?l" by (simp add: limiter_ptr_def)
  show "occupancy s' = occupancy s"
  proof (cases "active ?l \<ge> max_active ?l")
    case True
    with run on lim show ?thesis
      by (auto simp: ConcurrencyLimit_def TryAcquire_def emitRejected_def Let_def occupancy_def limiter_ptr_def)
  next
    case False
    obtain s2 c2 e2 where h: "h (assign limiter_ptr ?up s, c) = ((s2, c2), e2)" by (metis surj_pair)
    with run on lim False have "s' = modify limiter_ptr Release s2"
      by (simp add: ConcurrencyLimit_def TryAcquire_def Let_def)
    moreover from balancedD [OF assms h] on
    have "occupancy s2 = (max_active ?l, active ?l + 1, load InFlight (sh_metrics s))" by (simp del: load.simps)
    ultimately have "occupancy s' = (max_active ?l, active ?l, load InFlight (sh_metrics s))" by (simp del: load.simps)
    then show ?thesis by (simp add: occupancy_def)
  qed
qed

lemma balanced_metrics:
  assumes "balanced on h"
  shows "balanced on (MetricsHandler metrics_ptr elapsed h)"
proof (rule balancedI)
  fix s c s' c' e
  assume run: "MetricsHandler metrics_ptr elapsed h (s, c) = ((s', c'), e)" and on: "on \<longrightarrow> max_active (sh_limiter s) > 0"
  let ?s = "modify metrics_ptr (run_ops begin_ops) s"
  obtain s2 c2 e2 where h: "h (?s, c) = ((s2, c2), e2)" by (metis surj_pair)
  with run have s': "s' = modify metrics_ptr (run_ops (finish_ops (e2 = Panicked) c2 elapsed)) s2"
    by (auto simp: MetricsHandler_def)
  have before: "total InFlight begin_ops = 1" by (simp add: begin_ops_def gaugeDelta_def)
  have after: "total InFlight (finish_ops b c2 elapsed) = -1" for b
    using total_request(2) [of "\<lparr>ob_panicked = b, ob_context = c2, ob_elapsed = elapsed\<rparr>"] before
    by (simp add: request_ops_def eq_neg_iff_add_eq_0 add.commute)
  have occ: "occupancy (modify metrics_ptr (run_ops ops) s) = (case occupancy s of (n, k, g) \<Rightarrow> (n, k, g + total InFlight ops))" for ops s
    by (simp add: occupancy_def modify_def metrics_ptr_def load_run del: load.simps)
  from balancedD [OF assms h] on have "occupancy s2 = (case occupancy s of (n, k, g) \<Rightarrow> (n, k, g + 1))"
    by (simp add: occ before)
  then show "occupancy s' = occupancy s" by (simp add: s' occ after split: prod.splits)
qed

lemma balanced_weaken: "balanced False h \<Longrightarrow> balanced on h"
  by (simp add: balanced_def)

lemma balanced_mono: "balanced on h \<Longrightarrow> on \<longrightarrow> on' \<Longrightarrow> balanced on' h"
  by (auto simp: balanced_def)

lemma balanced_builtin:
  assumes "balanced on h" "key = ''concurrency_limit'' \<longrightarrow> on"
  shows "balanced on (builtin_middleware rt s q key h)"
  using assms balanced_simple [OF assms(1)] balanced_timeout [OF assms(1)] balanced_gzip [OF assms(1)]
    balanced_access_log [OF assms(1)] balanced_concurrency [OF assms(1)] balanced_metrics [OF assms(1)] balanced_recovery [OF assms(1)]
  by (auto simp: builtin_middleware_def Let_def split: option.split)

lemma occupancy_run_handlers: "run_handlers hs (s, c) = ((s', c'), e) \<Longrightarrow> occupancy s' = occupancy s"
  by (auto simp: run_handlers_def split: option.splits)

lemma occupancy_on_part: "on_part files_ptr h (s, c) = ((s', c'), e) \<Longrightarrow> occupancy s' = occupancy s"
  by (auto simp: on_part_def split: prod.splits)

lemma balanced_router: "balanced on (ServeHTTP rt s q router)"
  by (rule balancedI)
    (auto simp: ServeHTTP_def wrapRequestHandler_def run_no_route_def Let_def
      split: serve_action.splits requestHandler.splits option.splits if_splits
      dest!: occupancy_run_handlers occupancy_on_part)

lemma balanced_root:
  assumes "\<And>f h. balanced on h \<Longrightarrow> balanced on (rt_middleware rt f h)"
    and "Builtin ''concurrency_limit'' \<in> set chain \<longrightarrow> on"
  shows "balanced on (root_handler rt s q chain router)"
  using assms(2)
proof (induction chain)
  case Nil
  then show ?case by (simp add: root_handler_def balanced_router)
next
  case (Cons x chain)
  then have h: "balanced on (root_handler rt s q chain router)" by simp
  have "balanced on (middleware_of rt s q x h)" if "balanced on h" for h
  proof (cases x)
    case (Builtin key)
    with Cons.prems have "key = ''concurrency_limit'' \<longrightarrow> on" by auto
    with Builtin balanced_builtin [OF that] show ?thesis by simp
  qed (use that assms(1) balanced_rate [OF that] in auto)
  with h show ?case by (simp add: root_handler_def)
qed

text \<open>Requests give back what they take: after any sequence of requests, through any chain of
  middlewares, with handlers that return, abort or panic, the concurrency limiter has as many
  active requests and the gauge of requests in flight has the value it had before. The user's
  own middlewares must keep the balance of the handler behind them, and a limiter in the chain
  must have a bound.\<close>

theorem requests_leave_no_trace:
  assumes "\<And>f h. balanced True h \<Longrightarrow> balanced True (rt_middleware rt f h)"
    and "max_active (sh_limiter sh) > 0"
  shows "active (sh_limiter (handle_all rt s chain router reqs pooled sh)) = active (sh_limiter sh)
    \<and> InFlight_of (sh_metrics (handle_all rt s chain router reqs pooled sh)) = InFlight_of (sh_metrics sh)"
proof -
  have "occupancy (handle_all rt s chain router reqs pooled sh) = occupancy sh"
    using assms(2)
  proof (induction reqs arbitrary: pooled sh)
    case (Cons x reqs)
    obtain q w r where x: "x = (q, w, r)" by (cases x)
    obtain sh1 c e where run: "handle_request rt s q chain router pooled w r sh = ((sh1, c), e)" by (metis surj_pair)
    have "balanced True (root_handler rt s q chain router)" using balanced_root [OF assms(1)] by blast
    from balancedD [OF this run [unfolded handle_request_def]] Cons.prems have "occupancy sh1 = occupancy sh" by simp
    with Cons x run show ?case by (simp add: occupancy_def)
  qed simp
  then show ?thesis by (simp add: occupancy_def InFlight_of_def)
qed

text \<open>A request that panics in its handler, behind a limiter of two requests.\<close>

definition demo_runtime :: "(nat, unit, nat) runtime" where
  "demo_runtime =
     \<lparr>rt_middleware = (\<lambda>_ h. h), rt_files = (\<lambda>_ _ d. (Inl NotExist, d)), rt_key = (\<lambda>_ _. []), rt_generate = (\<lambda>_. ''id''),
      rt_bucket = \<lparr>mk_bucket = (\<lambda>_. Some 0), take_token = (\<lambda>_ b. (True, b)), retry_after = (\<lambda>_ _. 0)\<rparr>,
      rt_http = http_demo, rt_marshal = (\<lambda>_. None), rt_compress = (\<lambda>_ _ _. []), rt_error_text = (\<lambda>t. t),
      rt_parse_ip = (\<lambda>_. None)\<rparr>"

definition demo_request_env :: request_env where
  "demo_request_env =
     \<lparr>re_now = 17000000, re_random = Some ''r1'', re_elapsed = 5, re_deadline = 9,
      re_panic = \<lparr>panic_text = ''boom'', panic_stack = ''trace''\<rparr>,
      re_log = \<lparr>env_elapsed = 5, env_duration = ''5ns'', env_sample = 0, env_parse_ip = (\<lambda>_. None)\<rparr>\<rparr>"

definition demo_chain_values :: "nat middleware_value list" where
  "demo_chain_values = [Builtin ''recovery'', Builtin ''concurrency_limit'', Builtin ''metrics'', Builtin ''access_log'']"

definition demo_limited :: "(nat, nat) Server" where
  "demo_limited = SetMaxConcurrentRequests 2 demo_server"

definition demo_shared :: "(unit, nat) shared" where
  "demo_shared = initial_shared () (NewRateLimiter (\<lambda>_. None) (\<lambda>_. None) 1 60 []) demo_limited"

definition demo_panicking :: "(handler, nat) Router" where
  "demo_panicking = NewRouter Panic Panic"

lemma demo_limit: "max_active (sh_limiter demo_shared) = 2" "active (sh_limiter demo_shared) = 0"
  "InFlight_of (sh_metrics demo_shared) = 0"
proof -
  have "maxConcurrent demo_limited = 2"
    by (simp add: demo_limited_def demo_server_def setter_defs SetMaxConcurrentRequests_def unless_started_def NewServer_def)
  then show "max_active (sh_limiter demo_shared) = 2" "active (sh_limiter demo_shared) = 0"
    "InFlight_of (sh_metrics demo_shared) = 0"
    by (simp_all add: demo_shared_def initial_shared_def new_limiter_def SetMetricsSink_def SetRejectMessage_def
        NewConcurrencyLimiter_def NewMetrics_def InFlight_of_def)
qed

theorem requests_leave_no_trace_witness:
  "let r = (demo_request_env, new_writer, nil_request\<lparr>req_method := ''GET'', req_path := ''/x''\<rparr>);
       sh = handle_all demo_runtime demo_limited demo_chain_values demo_panicking [r, r] (NewContext new_writer nil_request) demo_shared
   in active (sh_limiter sh) = 0 \<and> InFlight_of (sh_metrics sh) = 0"
proof -
  let ?r = "(demo_request_env, new_writer, nil_request\<lparr>req_method := ''GET'', req_path := ''/x''\<rparr>)"
  let ?sh = "handle_all demo_runtime demo_limited demo_chain_values demo_panicking [?r, ?r] (NewContext new_writer nil_request) demo_shared"
  have "active (sh_limiter ?sh) = active (sh_limiter demo_shared) \<and> InFlight_of (sh_metrics ?sh) = InFlight_of (sh_metrics demo_shared)"
  proof (rule requests_leave_no_trace)
    show "balanced True h \<Longrightarrow> balanced True (rt_middleware demo_runtime f h)" for f h by (simp add: demo_runtime_def)
    show "max_active (sh_limiter demo_shared) > 0" by (simp add: demo_limit)
  qed
  then show ?thesis unfolding Let_def demo_limit .
qed

subsection \<open>Panics are contained\<close>

lemma order_builtin_switch: "order (builtin_switch key on m) = order m"
  by (simp add: builtin_switch_def Let_def manager_defs)

lemma order_builtin: "order (registerBuiltinMiddleware s) = order (mwManager s)"
  by (simp add: registerBuiltinMiddleware_def Let_def order_builtin_switch)

lemma Start_chain:
  assumes "Start env s = (s', Inr (router, chain))" "mwOrder s = []"
  shows "chain = Build (registerBuiltinMiddleware (s\<lparr>config := config s'\<rparr>))"
proof -
  have other: "registerBuiltinMiddleware (t\<lparr>rateLimiter := x\<rparr>) = registerBuiltinMiddleware t"
    "registerBuiltinMiddleware (t\<lparr>started := b, config := cfg\<rparr>) = registerBuiltinMiddleware (t\<lparr>config := cfg\<rparr>)" for x b cfg and t :: "('f, 't) Server"
    by (simp_all add: registerBuiltinMiddleware_def)
  from assms show ?thesis
    by (auto simp: Start_def Let_def other split: if_splits option.splits prod.splits)
qed

text \<open>C10. A panic never reaches \<open>net/http\<close>: when \<open>Start\<close> succeeds with recovery switched on, not
  disabled or overridden, and the default order of the middlewares, every request returns, with
  whatever handlers, middlewares of the user, static files and fallbacks.\<close>

theorem panics_are_contained:
  assumes "Start env s = (s', Inr (router, chain))" and "MiddlewareRecovery (config s')"
    and "mwOrder s = []" and "order (mwManager s) = order (NewManager :: 'f middleware_value Manager)"
    and "''recovery'' \<notin> set (disabled (mwManager s))" and "map_of (overrides (mwManager s)) ''recovery'' = None"
  shows "snd (handle_request rt srv q chain router pooled w r sh) = Returned"
proof -
  define s2 where "s2 = s\<lparr>config := config s'\<rparr>"
  have s2: "chain = Build (registerBuiltinMiddleware s2)" "config s2 = config s'" "mwManager s2 = mwManager s"
    using Start_chain [OF assms(1,3)] by (simp_all add: s2_def)
  have "effective (registerBuiltinMiddleware s2) ''recovery'' = Some (Builtin ''recovery'')"
    using assms(2,5,6) s2 by (simp add: registerBuiltinMiddleware_def builtin_switch_simps Let_def)
  then obtain rest where "chain = Builtin ''recovery'' # rest"
    using s2 assms(4) by (simp add: Build_effective order_builtin NewManager_def map_filter_simps)
  then show ?thesis
    by (simp add: handle_request_def root_handler_def builtin_middleware_def Let_def RecoveryWithOptions_def
        split: prod.split ending.split)
qed

definition demo_recovering :: "(nat, nat) Server" where
  "demo_recovering = UseHttp1or2Listen '':80'' False (NewServer (zero_config\<lparr>MiddlewareRecovery := True\<rparr>) True)"

definition recovering_start :: "(nat, nat) Server \<times> (start_error + (handler, nat) Router \<times> nat middleware_value list)" where
  "recovering_start = Start (demo_env\<lparr>env_fallbacks := (\<lambda>_. (Panic, Panic))\<rparr>) demo_recovering"

theorem panics_are_contained_witness:
  "\<exists>s' router chain. recovering_start = (s', Inr (router, chain))
    \<and> snd (handle_request demo_runtime s' demo_request_env chain router (NewContext new_writer nil_request) new_writer
        (nil_request\<lparr>req_method := ''GET'', req_path := ''/x''\<rparr>) demo_shared) = Returned"
proof -
  have "case recovering_start of (s', Inl _) \<Rightarrow> False | (s', Inr _) \<Rightarrow> MiddlewareRecovery (config s')" by code_simp
  then obtain s' router chain where st: "recovering_start = (s', Inr (router, chain))" "MiddlewareRecovery (config s')"
    by (auto split: prod.splits sum.splits)
  have "mwOrder demo_recovering = []" "mwManager demo_recovering = NewManager"
    by (simp_all add: demo_recovering_def UseHttp1or2Listen_def unless_started_def NewServer_def)
  then have "snd (handle_request demo_runtime s' demo_request_env chain router (NewContext new_writer nil_request) new_writer
        (nil_request\<lparr>req_method := ''GET'', req_path := ''/x''\<rparr>) demo_shared) = Returned"
    by (intro panics_are_contained [OF st(1) [unfolded recovering_start_def] st(2)]) (simp_all add: NewManager_def)
  with st(1) show ?thesis by blast
qed

end
