(* ===== verification/ServerMetrics.thy ===== *)
theory ServerMetrics
  imports Pipeline
begin

text \<open>
  \<open>metrics.go\<close>: the snapshot a server gives of its counters, and the count of its open
  connections, which \<open>net/http\<close> drives with the states of each connection.
\<close>

subsection \<open>Snapshots\<close>

record MetricsSnapshot =
  ms_Requests :: "64 word"
  ms_Errors5xx :: "64 word"
  ms_Status1xx :: "64 word"
  ms_Status2xx :: "64 word"
  ms_Status3xx :: "64 word"
  ms_Status4xx :: "64 word"
  ms_Status5xx :: "64 word"
  ms_RateLimited :: "64 word"
  ms_Panics :: "64 word"
  ms_ConcurrencyRejected :: "64 word"
  ms_AvgRequestDurationMs :: "64 word"
  ms_HTTP1Requests :: "64 word"
  ms_HTTP2Requests :: "64 word"
  ms_HTTP3Requests :: "64 word"
  ms_AvgHTTP1RequestDurationMs :: "64 word"
  ms_AvgHTTP2RequestDurationMs :: "64 word"
  ms_AvgHTTP3RequestDurationMs :: "64 word"
  ms_ActiveConnections :: int
  ms_RequestsInFlight :: int

definition zero_snapshot :: MetricsSnapshot where
  "zero_snapshot =
     \<lparr>ms_Requests = 0, ms_Errors5xx = 0, ms_Status1xx = 0, ms_Status2xx = 0, ms_Status3xx = 0, ms_Status4xx = 0,
      ms_Status5xx = 0, ms_RateLimited = 0, ms_Panics = 0, ms_ConcurrencyRejected = 0, ms_AvgRequestDurationMs = 0,
      ms_HTTP1Requests = 0, ms_HTTP2Requests = 0, ms_HTTP3Requests = 0, ms_AvgHTTP1RequestDurationMs = 0,
      ms_AvgHTTP2RequestDurationMs = 0, ms_AvgHTTP3RequestDurationMs = 0, ms_ActiveConnections = 0,
      ms_RequestsInFlight = 0\<rparr>"

definition copy_metrics :: "Metrics \<Rightarrow> MetricsSnapshot \<Rightarrow> MetricsSnapshot" where
  "copy_metrics mt m =
     (let m = (case Snapshot mt of (r, e) \<Rightarrow> m\<lparr>ms_Requests := r, ms_Errors5xx := e\<rparr>);
          m = m\<lparr>ms_Panics := Panics_of mt\<rparr>;
          m = (case Durations mt of (totalNs, samples) \<Rightarrow>
                 if samples > 0 then m\<lparr>ms_AvgRequestDurationMs := totalNs div samples div 1000000\<rparr> else m);
          m = (case StatusCodes mt of (s1, s2, s3, s4, s5) \<Rightarrow>
                 m\<lparr>ms_Status1xx := s1, ms_Status2xx := s2, ms_Status3xx := s3, ms_Status4xx := s4, ms_Status5xx := s5\<rparr>);
          ps = ProtocolStats_of mt
      in m\<lparr>ms_HTTP1Requests := HTTP1Requests ps, ms_HTTP2Requests := HTTP2Requests ps, ms_HTTP3Requests := HTTP3Requests ps,
           ms_AvgHTTP1RequestDurationMs := HTTP1AvgMs ps, ms_AvgHTTP2RequestDurationMs := HTTP2AvgMs ps,
           ms_AvgHTTP3RequestDurationMs := HTTP3AvgMs ps, ms_RequestsInFlight := InFlight_of mt\<rparr>)"

text \<open>\<open>Metrics\<close>: the counters, the rate limiter and the limiter are nil before they are created.\<close>

definition Metrics_snapshot ::
    "Metrics option \<Rightarrow> 't RateLimiter option \<Rightarrow> ConcurrencyLimiter option \<Rightarrow> int \<Rightarrow> MetricsSnapshot" where
  "Metrics_snapshot mt rl cl conns =
     (let m = zero_snapshot;
          m = (case mt of None \<Rightarrow> m | Some x \<Rightarrow> copy_metrics x m);
          m = (case rl of None \<Rightarrow> m | Some x \<Rightarrow> m\<lparr>ms_RateLimited := rl_Rejected x\<rparr>);
          m = (case cl of None \<Rightarrow> m | Some x \<Rightarrow> m\<lparr>ms_ConcurrencyRejected := Rejected x\<rparr>)
      in m\<lparr>ms_ActiveConnections := conns\<rparr>)"

definition server_RouteStats :: "Metrics option \<Rightarrow> RouteStat list" where
  "server_RouteStats mt = (case mt of None \<Rightarrow> [] | Some x \<Rightarrow> RouteStats x)"

definition server_GroupStats :: "Metrics option \<Rightarrow> RouteStat list" where
  "server_GroupStats mt = (case mt of None \<Rightarrow> [] | Some x \<Rightarrow> GroupStats x)"

text \<open>\<open>applyServerHooks\<close>: the hooks of an \<open>http.Server\<close>, in order.\<close>

definition applyServerHooks :: "('f, 't) Server \<Rightarrow> 'f list \<Rightarrow> 'f list" where
  "applyServerHooks s hooks = fold (\<lambda>f hs. hs @ [f]) (onShutdown s) hooks"

lemma load_mixed:
  assumes "mset ops = mset (concat (map request_ops qs)) + mset (concat (replicate n recordPanic))"
  shows "load k (run_ops ops (NewMetrics has_sink)) =
    sum_list (map (\<lambda>q. total k (request_ops q)) qs) + (if k = Panics then of_nat n else 0)"
proof -
  have mix: "mset ops = mset (concat (map request_ops qs) @ concat (replicate n recordPanic))" using assms by simp
  show ?thesis
    unfolding load_run load_new total_mset [OF mix] total_simps(3) total_panic by (simp add: total_concat comp_def)
qed

lemma sum_one: "sum_list (map (\<lambda>q. 1) qs) = (of_nat (length qs) :: 64 word)"
  by (induction qs) simp_all

lemma sum_elapsed: "sum_list (map (\<lambda>q. if P q then ob_elapsed q else 0) qs) = sum_list (map ob_elapsed (filter P qs))"
  by (simp add: sum_list_map_filter')

lemma count_all: "count_of (\<lambda>q. True) qs = of_nat (length qs)"
  by (simp add: count_of_def)

lemma mean_positive:
  "(if count_of P qs > 0 then sum_list (map ob_elapsed (filter P qs)) div count_of P qs div 1000000 else 0) = mean_ms P qs"
  by (simp add: mean_ms_def word_gt_0)

text \<open>What a snapshot shows, given the readings of the counters.\<close>

lemma snapshot_fields:
  assumes "Snapshot mt = (r, e)" "Panics_of mt = p" "Durations mt = (t, n)" "StatusCodes mt = (s1, s2, s3, s4, s5)"
    "ProtocolStats_of mt = ps" "InFlight_of mt = fl"
  shows "Metrics_snapshot (Some mt) rl cl conns =
    \<lparr>ms_Requests = r, ms_Errors5xx = e, ms_Status1xx = s1, ms_Status2xx = s2, ms_Status3xx = s3, ms_Status4xx = s4,
     ms_Status5xx = s5, ms_RateLimited = (case rl of None \<Rightarrow> 0 | Some x \<Rightarrow> rl_Rejected x), ms_Panics = p,
     ms_ConcurrencyRejected = (case cl of None \<Rightarrow> 0 | Some x \<Rightarrow> Rejected x),
     ms_AvgRequestDurationMs = (if n > 0 then t div n div 1000000 else 0),
     ms_HTTP1Requests = HTTP1Requests ps, ms_HTTP2Requests = HTTP2Requests ps, ms_HTTP3Requests = HTTP3Requests ps,
     ms_AvgHTTP1RequestDurationMs = HTTP1AvgMs ps, ms_AvgHTTP2RequestDurationMs = HTTP2AvgMs ps,
     ms_AvgHTTP3RequestDurationMs = HTTP3AvgMs ps, ms_ActiveConnections = conns, ms_RequestsInFlight = fl\<rparr>"
  using assms by (cases rl; cases cl) (simp_all add: Metrics_snapshot_def copy_metrics_def zero_snapshot_def Let_def)

text \<open>C20. A snapshot agrees with what happened, in every field: however the counter operations of the
  finished requests and of \<open>n\<close> recovered panics interleaved, the server reports as many requests as
  there were, and for each of the five classes exactly the requests with such a status, where one
  that panicked is a 500; the 5xx counter is that of the fifth class; as many panics as were
  recovered; for each protocol the requests answered over it without a panic; the averages
  are the mean durations of all requests and of those of each protocol, 0 when there are none;
  nothing is in flight; the refusals are those of the rate limiter and of the limiter, where
  there is one; and the connections are the open ones. The counters are modulo \<open>2 ^ 64\<close>.\<close>

theorem snapshot_adds_up:
  fixes qs :: "'h observed list"
  assumes "mset ops = mset (concat (map request_ops qs)) + mset (concat (replicate n recordPanic))"
  shows "Metrics_snapshot (Some (run_ops ops (NewMetrics has_sink))) rl cl conns =
    \<lparr>ms_Requests = of_nat (length qs),
     ms_Errors5xx = count_of (\<lambda>q. 500 \<le> ob_status q) qs,
     ms_Status1xx = count_of (\<lambda>q. ob_status q < 200) qs,
     ms_Status2xx = count_of (\<lambda>q. 200 \<le> ob_status q \<and> ob_status q < 300) qs,
     ms_Status3xx = count_of (\<lambda>q. 300 \<le> ob_status q \<and> ob_status q < 400) qs,
     ms_Status4xx = count_of (\<lambda>q. 400 \<le> ob_status q \<and> ob_status q < 500) qs,
     ms_Status5xx = count_of (\<lambda>q. 500 \<le> ob_status q) qs,
     ms_RateLimited = (case rl of None \<Rightarrow> 0 | Some x \<Rightarrow> rl_Rejected x),
     ms_Panics = of_nat n,
     ms_ConcurrencyRejected = (case cl of None \<Rightarrow> 0 | Some x \<Rightarrow> Rejected x),
     ms_AvgRequestDurationMs = mean_ms (\<lambda>q. True) qs,
     ms_HTTP1Requests = count_of (answered_over [''HTTP/1.0'', ''HTTP/1.1'']) qs,
     ms_HTTP2Requests = count_of (answered_over [''HTTP/2.0'']) qs,
     ms_HTTP3Requests = count_of (answered_over [''HTTP/3.0'']) qs,
     ms_AvgHTTP1RequestDurationMs = mean_ms (answered_over [''HTTP/1.0'', ''HTTP/1.1'']) qs,
     ms_AvgHTTP2RequestDurationMs = mean_ms (answered_over [''HTTP/2.0'']) qs,
     ms_AvgHTTP3RequestDurationMs = mean_ms (answered_over [''HTTP/3.0'']) qs,
     ms_ActiveConnections = conns,
     ms_RequestsInFlight = 0\<rparr>"
proof -
  let ?m = "run_ops ops (NewMetrics has_sink)"
  note loads = load_mixed [OF assms] total_request total_request_protocol sum_count sum_elapsed sum_one
  have counts: "Snapshot ?m = (of_nat (length qs), count_of (\<lambda>q. 500 \<le> ob_status q) qs)" "Panics_of ?m = of_nat n"
    "InFlight_of ?m = 0"
    by (simp_all add: Snapshot_def Panics_of_def InFlight_of_def loads del: load.simps)
  have times: "Durations ?m = (sum_list (map ob_elapsed (filter (\<lambda>q. True) qs)), count_of (\<lambda>q. True) qs)"
    by (simp add: Durations_def loads count_all del: load.simps)
  have classes: "StatusCodes ?m = (count_of (\<lambda>q. ob_status q < 200) qs,
        count_of (\<lambda>q. 200 \<le> ob_status q \<and> ob_status q < 300) qs, count_of (\<lambda>q. 300 \<le> ob_status q \<and> ob_status q < 400) qs,
        count_of (\<lambda>q. 400 \<le> ob_status q \<and> ob_status q < 500) qs, count_of (\<lambda>q. 500 \<le> ob_status q) qs)"
    by (simp add: StatusCodes_def loads del: load.simps)
  have protocols: "ProtocolStats_of ?m =
    \<lparr>HTTP1Requests = count_of (answered_over [''HTTP/1.0'', ''HTTP/1.1'']) qs,
     HTTP2Requests = count_of (answered_over [''HTTP/2.0'']) qs, HTTP3Requests = count_of (answered_over [''HTTP/3.0'']) qs,
     HTTP1AvgMs = mean_ms (answered_over [''HTTP/1.0'', ''HTTP/1.1'']) qs,
     HTTP2AvgMs = mean_ms (answered_over [''HTTP/2.0'']) qs, HTTP3AvgMs = mean_ms (answered_over [''HTTP/3.0'']) qs\<rparr>"
    by (simp add: ProtocolStats_of_def loads mean_positive Let_def del: load.simps)
  show ?thesis
    unfolding snapshot_fields [OF counts(1,2) times classes protocols counts(3)] mean_positive by simp
qed

theorem snapshot_adds_up_witness:
  "let m = Metrics_snapshot (Some (run_ops (rev (concat (map request_ops demo_observed) @ recordPanic)) (NewMetrics True)))
      (None :: nat RateLimiter option) None 3
   in ms_Requests m = 2 \<and> ms_Status2xx m = 1 \<and> ms_Errors5xx m = 1 \<and> ms_Panics m = 1 \<and> ms_ActiveConnections m = 3"
proof -
  have counts: "count_of (\<lambda>q. 500 \<le> ob_status q) demo_observed = 1" "length demo_observed = 2"
    "count_of (\<lambda>q. 200 \<le> ob_status q \<and> ob_status q < 300) demo_observed = 1"
    by code_simp+
  have "mset (rev (concat (map request_ops demo_observed) @ recordPanic)) =
    mset (concat (map request_ops demo_observed)) + mset (concat (replicate 1 recordPanic))" by simp
  from snapshot_adds_up [OF this, of True "None :: nat RateLimiter option" None 3] counts show ?thesis by (simp add: Let_def)
qed

subsection \<open>Connections\<close>

text \<open>\<open>http.ConnState\<close>, and what \<open>net/http\<close> promises of the order of the states of a connection;
  the last two are terminal.\<close>

datatype ConnState = StateNew | StateActive | StateIdle | StateHijacked | StateClosed

text \<open>The atomic counter, a 64-bit integer, and the changes sent to the sink of the user.\<close>

record conn_counter =
  activeConns :: int
  conn_sink :: bool
  conn_gauge :: "int list"

definition emitConnGauge :: "int \<Rightarrow> conn_counter \<Rightarrow> conn_counter" where
  "emitConnGauge delta k = (if conn_sink k then k\<lparr>conn_gauge := conn_gauge k @ [delta]\<rparr> else k)"

fun connState :: "ConnState \<Rightarrow> conn_counter \<Rightarrow> conn_counter" where
  "connState StateNew k = emitConnGauge 1 (k\<lparr>activeConns := wrap64 (activeConns k + 1)\<rparr>)"
| "connState StateClosed k = emitConnGauge (-1) (k\<lparr>activeConns := wrap64 (activeConns k - 1)\<rparr>)"
| "connState StateHijacked k = emitConnGauge (-1) (k\<lparr>activeConns := wrap64 (activeConns k - 1)\<rparr>)"
| "connState _ k = k"

fun conn_open :: "ConnState option \<Rightarrow> bool" where
  "conn_open None = False"
| "conn_open (Some st) = (st \<noteq> StateHijacked \<and> st \<noteq> StateClosed)"

fun conn_next :: "ConnState option \<Rightarrow> ConnState \<Rightarrow> bool" where
  "conn_next None st = (st = StateNew)"
| "conn_next (Some old) st = (conn_open (Some old) \<and> st \<noteq> StateNew)"

text \<open>Connections by number, each \<open>None\<close> before it is accepted.\<close>

inductive conn_run :: "ConnState option list \<Rightarrow> conn_counter \<Rightarrow> bool" where
  start: "conn_run (replicate n None) \<lparr>activeConns = 0, conn_sink = b, conn_gauge = []\<rparr>"
| change: "conn_run cs k \<Longrightarrow> i < length cs \<Longrightarrow> conn_next (cs ! i) st \<Longrightarrow> conn_run (cs[i := Some st]) (connState st k)"

lemma count_open_update:
  "i < length cs \<Longrightarrow> int (length (filter conn_open (cs[i := x]))) =
     int (length (filter conn_open cs)) - (if conn_open (cs ! i) then 1 else 0) + (if conn_open x then 1 else 0)"
proof (induction cs arbitrary: i)
  case (Cons c cs)
  show ?case
  proof (cases i)
    case (Suc j)
    with Cons.prems Cons.IH [of j] show ?thesis by (auto split: if_splits)
  qed simp
qed simp

text \<open>C28. The server knows its open connections: whatever connections are opened, used, hijacked and
  closed, in any interleaving, the counter is the number of those that are open, and what the
  sink of the user received adds up to it, as long as there are fewer than \<open>2 ^ 63\<close>.\<close>

theorem connections_counted:
  assumes "conn_run cs k" "length cs < 2 ^ 63"
  shows "activeConns k = int (length (filter conn_open cs))
    \<and> (conn_sink k \<longrightarrow> sum_list (conn_gauge k) = activeConns k)"
  using assms
proof (induction rule: conn_run.induct)
  case (start n b)
  then show ?case by simp
next
  case (change cs k i st)
  have le: "length (filter conn_open cs) \<le> length cs" by simp
  have open_lt: "conn_open (cs ! i) \<Longrightarrow> length (filter conn_open cs) > 0"
    using change.hyps(2) by (metis filter_empty_conv length_greater_0_conv nth_mem)
  have new: "\<not> conn_open (cs ! i) \<Longrightarrow> length (filter conn_open cs) < length cs"
    using change.hyps(2) by (metis length_filter_less nth_mem)
  from change.IH change.prems have IH: "activeConns k = int (length (filter conn_open cs))"
    "conn_sink k \<longrightarrow> sum_list (conn_gauge k) = activeConns k" by simp_all
  have up: "wrap64 (activeConns k + 1) = activeConns k + 1" if "\<not> conn_open (cs ! i)"
    using IH(1) new [OF that] change.prems by (intro wrap64_id) simp_all
  have down: "wrap64 (activeConns k - 1) = activeConns k - 1" if "conn_open (cs ! i)"
  proof (rule wrap64_id)
    have "length (filter conn_open cs) < 2 ^ 63" by (rule le_less_trans [OF length_filter_le]) (use change.prems in simp)
    then have "int (length (filter conn_open cs)) < int (2 ^ 63)" by (simp only: of_nat_less_iff)
    moreover have "int (length (filter conn_open cs)) > 0" using open_lt [OF that] by simp
    ultimately have "int (length (filter conn_open cs)) > 0" "int (length (filter conn_open cs)) < 2 ^ 63" by simp_all
    then show "- (2 ^ 63) \<le> activeConns k - 1" "activeConns k - 1 < 2 ^ 63" using IH(1) by simp_all
  qed
  show ?case
  proof (cases "cs ! i")
    case None
    with change.hyps(3) up IH change.hyps(2) show ?thesis by (simp add: count_open_update emitConnGauge_def)
  next
    case (Some old)
    with change.hyps(3) have "conn_open (cs ! i)" by simp
    with Some change.hyps(2,3) down IH show ?thesis
      by (cases st) (auto simp: count_open_update emitConnGauge_def)
  qed
qed

theorem connections_counted_witness:
  "conn_run [Some StateHijacked, Some StateActive, None]
      (connState StateHijacked (connState StateActive (connState StateNew (connState StateNew
        \<lparr>activeConns = 0, conn_sink = True, conn_gauge = []\<rparr>))))
   \<and> activeConns (connState StateHijacked (connState StateActive (connState StateNew (connState StateNew
        \<lparr>activeConns = 0, conn_sink = True, conn_gauge = []\<rparr>)))) = 1"
proof -
  let ?k = "\<lparr>activeConns = 0, conn_sink = True, conn_gauge = []\<rparr>"
  have "conn_run [None, None, None] ?k" using conn_run.start [of 3 True] by (simp add: numeral_3_eq_3)
  from conn_run.change [OF this, of 0 StateNew] have "conn_run [Some StateNew, None, None] (connState StateNew ?k)" by simp
  from conn_run.change [OF this, of 1 StateNew]
  have "conn_run [Some StateNew, Some StateNew, None] (connState StateNew (connState StateNew ?k))" by simp
  from conn_run.change [OF this, of 1 StateActive]
  have "conn_run [Some StateNew, Some StateActive, None] (connState StateActive (connState StateNew (connState StateNew ?k)))" by simp
  from conn_run.change [OF this, of 0 StateHijacked]
  have run: "conn_run [Some StateHijacked, Some StateActive, None]
      (connState StateHijacked (connState StateActive (connState StateNew (connState StateNew ?k))))" by simp
  have "length [Some StateHijacked, Some StateActive, None] < 2 ^ 63" by simp
  from connections_counted [OF run this] run show ?thesis by (simp del: connState.simps)
qed

end
