(* ===== verification/Serving.thy ===== *)
theory Serving
  imports Lifecycle ServerMetrics
begin

text \<open>
  \<open>Start\<close> down to its sockets: the three listeners of \<open>listener.go\<close> with their TLS settings,
  the undoing of a start that fails half-way, the \<open>http.Server\<close> values, and the loop that
  accepts QUIC connections. \<open>Lifecycle\<close> takes the results of opening the listeners as given;
  here they are opened, on a state \<open>'o\<close> of the operating system.
\<close>

subsection \<open>Listeners and their settings\<close>

record ('f, 'c) tls_config =
  GetCertificate :: "('f, 'c) cert_source"
  MinVersion :: int
  NextProtos :: "string list"

definition buildTLSConfig :: "('f, 'c) cert_source \<Rightarrow> int \<Rightarrow> string list \<Rightarrow> ('f, 'c) tls_config" where
  "buildTLSConfig getCert minVersion nextProtos =
     \<lparr>GetCertificate = getCert, MinVersion = minVersion, NextProtos = nextProtos\<rparr>"

text \<open>\<open>net.Listen\<close>, \<open>tls.Listen\<close>, \<open>quic.ListenAddr\<close> with its limits, and what an action of
  \<open>Lifecycle\<close> does to the operating system.\<close>

record ('o, 'f, 'c) net_calls =
  net_unix :: "'o os_calls"
  net_tcp :: "string \<Rightarrow> 'o \<Rightarrow> nat option \<times> 'o"
  net_tls :: "string \<Rightarrow> ('f, 'c) tls_config \<Rightarrow> 'o \<Rightarrow> nat option \<times> 'o"
  net_quic :: "string \<Rightarrow> ('f, 'c) tls_config \<Rightarrow> int \<Rightarrow> int \<Rightarrow> 'o \<Rightarrow> nat option \<times> 'o"
  net_act :: "action \<Rightarrow> 'o \<Rightarrow> 'o"

definition listened :: "nat option \<times> 'o \<Rightarrow> (listen_error + nat) \<times> 'o" where
  "listened r = (case r of (None, st) \<Rightarrow> (Inl ListenFailed, st) | (Some n, st) \<Rightarrow> (Inr n, st))"

definition createTLSListener ::
    "('o, 'f, 'c) net_calls \<Rightarrow> string \<Rightarrow> ('f, 'c) cert_source \<Rightarrow> int \<Rightarrow> 'o \<Rightarrow> (listen_error + nat) \<times> 'o" where
  "createTLSListener net addr getCert minVersion st =
     listened (net_tls net addr (buildTLSConfig getCert minVersion [''h2'', ''http/1.1'']) st)"

definition createPlainListener :: "('o, 'f, 'c) net_calls \<Rightarrow> string \<Rightarrow> 'o \<Rightarrow> (listen_error + nat) \<times> 'o" where
  "createPlainListener net addr st = listened (net_tcp net addr st)"

definition createQUICListener ::
    "('o, 'f, 'c) net_calls \<Rightarrow> string \<Rightarrow> ('f, 'c) cert_source \<Rightarrow> int \<Rightarrow> int \<Rightarrow> int \<Rightarrow> 'o \<Rightarrow> (listen_error + nat) \<times> 'o" where
  "createQUICListener net addr getCert minVersion maxIdle maxStreams st =
     listened (net_quic net addr (buildTLSConfig getCert minVersion [''h3'']) maxIdle maxStreams st)"

text \<open>One channel of \<open>Start\<close>: nothing when it is switched off, else its listener and what is
  registered for it.\<close>

definition open_channel ::
    "bool \<Rightarrow> ('o \<Rightarrow> (listen_error + nat) \<times> 'o) \<Rightarrow> (nat \<Rightarrow> boot_op list) \<Rightarrow> 'o
      \<Rightarrow> (boot_op list \<times> listen_error option) \<times> 'o" where
  "open_channel on create added st =
     (if \<not> on then (([], None), st)
      else (case create st of
              (Inl e, st') \<Rightarrow> (([], Some e), st')
            | (Inr n, st') \<Rightarrow> ((added n, None), st')))"

definition http_channel :: "('o, 'f, 'c) net_calls \<Rightarrow> ('f, 't) Server \<Rightarrow> 'o \<Rightarrow> (boot_op list \<times> listen_error option) \<times> 'o" where
  "http_channel net s = open_channel (httpEnabled s)
     (if httpTLS s then createTLSListener net (httpAddr s) (buildGetCertificate s) (MinTLSVersion (config s))
      else createPlainListener net (httpAddr s))
     (\<lambda>ln. [AddListener ln, AddHTTPServer 0 ln])"

definition http3_channel :: "('o, 'f, 'c) net_calls \<Rightarrow> ('f, 't) Server \<Rightarrow> 'o \<Rightarrow> (boot_op list \<times> listen_error option) \<times> 'o" where
  "http3_channel net s = open_channel (http3Enabled s)
     (createQUICListener net (http3Addr s) (buildGetCertificate s) (MinTLSVersion (config s))
        (QUICMaxIdleTimeout (config s)) (QUICMaxIncomingStreams (config s)))
     (\<lambda>qln. [AddQUICListener qln, AddHTTP3Server 0 qln])"

definition unix_channel ::
    "('o, 'f, 'c) net_calls \<Rightarrow> platform \<Rightarrow> ('f, 't) Server \<Rightarrow> 'o \<Rightarrow> (boot_op list \<times> listen_error option) \<times> 'o" where
  "unix_channel net pf s = open_channel (unixEnabled s)
     (createUnixListener (net_unix net) pf (unixSocketPath s) (unixSocketPerm s))
     (\<lambda>ln. [AddListener ln, AddHTTPServer 1 ln])"

text \<open>The three channels in their order; an error closes what was opened and runs the cleanup
  functions.\<close>

definition undo_start ::
    "('o, 'f, 'c) net_calls \<Rightarrow> nat option list \<Rightarrow> boot_op list \<Rightarrow> listen_error \<Rightarrow> 'o
      \<Rightarrow> (boot_op list \<times> (action list \<times> listen_error) option) \<times> 'o" where
  "undo_start net fs ops e st =
     (let acts = closeListeners (fold register ops no_registry) @ cancelCleanup fs
      in ((ops, Some (acts, e)), fold (net_act net) acts st))"

definition open_channels ::
    "('o, 'f, 'c) net_calls \<Rightarrow> platform \<Rightarrow> nat option list \<Rightarrow> ('f, 't) Server \<Rightarrow> 'o
      \<Rightarrow> (boot_op list \<times> (action list \<times> listen_error) option) \<times> 'o" where
  "open_channels net pf fs s st =
     (case http_channel net s st of
        ((o1, Some e), st1) \<Rightarrow> undo_start net fs o1 e st1
      | ((o1, None), st1) \<Rightarrow>
          (case http3_channel net s st1 of
             ((o2, Some e), st2) \<Rightarrow> undo_start net fs (o1 @ o2) e st2
           | ((o2, None), st2) \<Rightarrow>
               (case unix_channel net pf s st2 of
                  ((o3, Some e), st3) \<Rightarrow> undo_start net fs (o1 @ o2 @ o3) e st3
                | ((o3, None), st3) \<Rightarrow> ((o1 @ o2 @ o3 @ [SpawnWaiter], None), st3))))"

text \<open>\<open>Start\<close> as a whole. The deferred cleanup is registered after the check of the logger, so
  the first two errors do not run it.\<close>

datatype serve_error = NotStarted start_error | NotListening listen_error

definition start_server ::
    "start_env \<Rightarrow> ('o, 'f, 'c) net_calls \<Rightarrow> platform \<Rightarrow> nat option list \<Rightarrow> ('f, 't) Server \<Rightarrow> 'o
      \<Rightarrow> ('f, 't) Server \<times> (serve_error + boot_op list) \<times> 'o" where
  "start_server env net pf fs s st =
     (case Start env s of
        (s', Inl e) \<Rightarrow>
          (s', Inl (NotStarted e),
           if e = AlreadyStarted \<or> e = NoLogger then st else fold (net_act net) (cancelCleanup fs) st)
      | (s', Inr _) \<Rightarrow>
          (case open_channels net pf fs s' st of
             ((ops, Some (acts, e)), st') \<Rightarrow> (s', Inl (NotListening e), st')
           | ((ops, None), st') \<Rightarrow> (s', Inr (MakeSignalCtx # ops), st')))"

subsection \<open>What is open\<close>

datatype endpoint = Stream nat | Quic nat

datatype ('f, 'c) setting =
    PlainTCP string
  | TlsTCP string "('f, 'c) tls_config"
  | QuicUDP string "('f, 'c) tls_config" int int
  | UnixSocket string

text \<open>What is relied on: listening opens one new endpoint with the given settings or none, closing
  closes it, and nothing else opens or closes any. \<open>Shutdown\<close> and \<open>Close\<close> of an \<open>http.Server\<close> may
  close the listeners it serves.\<close>

type_synonym ('o, 'f, 'c) open_map = "'o \<Rightarrow> endpoint \<Rightarrow> ('f, 'c) setting option"

definition opens :: "('o, 'f, 'c) open_map \<Rightarrow> (nat \<Rightarrow> endpoint) \<Rightarrow> ('f, 'c) setting \<Rightarrow> 'o \<Rightarrow> nat option \<times> 'o \<Rightarrow> bool" where
  "opens opn mk how st r \<longleftrightarrow>
     (case r of
        (None, st') \<Rightarrow> opn st' = opn st
      | (Some n, st') \<Rightarrow> opn st (mk n) = None \<and> opn st' = (opn st)(mk n \<mapsto> how))"

fun closes :: "action \<Rightarrow> endpoint set" where
  "closes (CloseListener n) = {Stream n}"
| "closes (CloseQUIC n) = {Quic n}"
| "closes _ = {}"

fun shuts :: "action \<Rightarrow> nat option" where
  "shuts (ShutdownServer i) = Some i"
| "shuts (ForceClose i) = Some i"
| "shuts _ = None"

definition net_lawful :: "('o, 'f, 'c) open_map \<Rightarrow> ('o, 'f, 'c) net_calls \<Rightarrow> bool" where
  "net_lawful opn net \<longleftrightarrow>
     (\<forall>a st. opens opn Stream (PlainTCP a) st (net_tcp net a st))
   \<and> (\<forall>a cfg st. opens opn Stream (TlsTCP a cfg) st (net_tls net a cfg st))
   \<and> (\<forall>a cfg i m st. opens opn Quic (QuicUDP a cfg i m) st (net_quic net a cfg i m st))
   \<and> (\<forall>p st. opens opn Stream (UnixSocket p) st (os_listen (net_unix net) p st))
   \<and> (\<forall>p st. opn (snd (os_remove (net_unix net) p st)) = opn st)
   \<and> (\<forall>p perm st. opn (snd (os_chmod (net_unix net) p perm st)) = opn st)
   \<and> (\<forall>n st. opn (os_close (net_unix net) n st) = (opn st)(Stream n := None))
   \<and> (\<forall>a st. shuts a = None \<longrightarrow> opn (net_act net a st) = opn st |` (- closes a))"

definition serves_from :: "boot_op list \<Rightarrow> nat \<Rightarrow> endpoint set" where
  "serves_from ops i = {Stream l |l. AddHTTPServer i l \<in> set ops}"

definition servers_lawful :: "('o, 'f, 'c) open_map \<Rightarrow> ('o, 'f, 'c) net_calls \<Rightarrow> boot_op list \<Rightarrow> bool" where
  "servers_lawful opn net ops \<longleftrightarrow>
     (\<forall>a i st. shuts a = Some i \<longrightarrow> (\<exists>R \<subseteq> serves_from ops i. opn (net_act net a st) = opn st |` (- R)))"

text \<open>The endpoints a start registers, and the settings its configuration asks for, in order.\<close>

fun endpoints_of :: "boot_op \<Rightarrow> endpoint list" where
  "endpoints_of (AddListener n) = [Stream n]"
| "endpoints_of (AddQUICListener n) = [Quic n]"
| "endpoints_of _ = []"

definition endpoints :: "boot_op list \<Rightarrow> endpoint list" where
  "endpoints ops = concat (map endpoints_of ops)"

definition http_wanted :: "('f, 't) Server \<Rightarrow> ('f, 'c) setting list" where
  "http_wanted s =
     (if httpEnabled s then [if httpTLS s
        then TlsTCP (httpAddr s) (buildTLSConfig (buildGetCertificate s) (MinTLSVersion (config s)) [''h2'', ''http/1.1''])
        else PlainTCP (httpAddr s)] else [])"

definition http3_wanted :: "('f, 't) Server \<Rightarrow> ('f, 'c) setting list" where
  "http3_wanted s =
     (if http3Enabled s then [QuicUDP (http3Addr s)
        (buildTLSConfig (buildGetCertificate s) (MinTLSVersion (config s)) [''h3''])
        (QUICMaxIdleTimeout (config s)) (QUICMaxIncomingStreams (config s))] else [])"

definition unix_wanted :: "('f, 't) Server \<Rightarrow> ('f, 'c) setting list" where
  "unix_wanted s = (if unixEnabled s then [UnixSocket (unixSocketPath s)] else [])"

definition wanted :: "('f, 't) Server \<Rightarrow> ('f, 'c) setting list" where
  "wanted s = http_wanted s @ http3_wanted s @ unix_wanted s"

text \<open>Endpoints added one by one, each of them new.\<close>

fun adds :: "(endpoint \<times> 'h) list \<Rightarrow> (endpoint \<Rightarrow> 'h option) \<Rightarrow> (endpoint \<Rightarrow> 'h option) \<Rightarrow> bool" where
  "adds [] m m' = (m' = m)"
| "adds ((e, h) # es) m m' = (m e = None \<and> adds es (m(e \<mapsto> h)) m')"

lemma adds_append: "adds (es @ fs) m m' \<longleftrightarrow> (\<exists>m1. adds es m m1 \<and> adds fs m1 m')"
proof (induction es arbitrary: m)
  case (Cons eh es)
  obtain e h where "eh = (e, h)" by fastforce
  then show ?case unfolding append_Cons by (simp only: adds.simps Cons.IH) blast
qed simp

lemma adds_undone: "adds es m m' \<Longrightarrow> m' |` (- (fst ` set es)) = m"
proof (induction es arbitrary: m)
  case (Cons eh es)
  obtain e h where eh: "eh = (e, h)" by fastforce
  with Cons.prems have m: "m e = None" and "adds es (m(e \<mapsto> h)) m'" by simp_all
  from Cons.IH [OF this(2)] have u: "m' |` (- (fst ` set es)) = m(e \<mapsto> h)" .
  have "m' |` (- (fst ` set (eh # es))) = m' |` (- (fst ` set es)) |` (- {e})"
    using eh by (auto simp: restrict_map_def)
  also have "\<dots> = m" unfolding u using m by (auto simp: restrict_map_def)
  finally show ?case .
qed (simp add: restrict_map_def)

definition opened_by :: "('o, 'f, 'c) open_map \<Rightarrow> 'o \<Rightarrow> boot_op list \<Rightarrow> ('f, 'c) setting list \<Rightarrow> 'o \<Rightarrow> bool" where
  "opened_by opn st ops hows st' \<longleftrightarrow>
     (\<exists>es. adds es (opn st) (opn st') \<and> map fst es = endpoints ops \<and> map snd es = hows)"

lemma opened_by_append:
  "opened_by opn st o1 h1 st1 \<Longrightarrow> opened_by opn st1 o2 h2 st2 \<Longrightarrow> opened_by opn st (o1 @ o2) (h1 @ h2) st2"
proof -
  assume "opened_by opn st o1 h1 st1" "opened_by opn st1 o2 h2 st2"
  then obtain e1 e2 where "adds e1 (opn st) (opn st1)" "map fst e1 = endpoints o1" "map snd e1 = h1"
      "adds e2 (opn st1) (opn st2)" "map fst e2 = endpoints o2" "map snd e2 = h2"
    unfolding opened_by_def by blast
  then show ?thesis unfolding opened_by_def
    by (intro exI [of _ "e1 @ e2"]) (auto simp: adds_append endpoints_def)
qed

lemma opened_by_undone: "opened_by opn st ops hows st' \<Longrightarrow> opn st' |` (- set (endpoints ops)) = opn st"
  unfolding opened_by_def by (auto dest: adds_undone simp flip: list.set_map)

subsection \<open>Closing\<close>

definition closable :: "('o, 'f, 'c) open_map \<Rightarrow> ('o, 'f, 'c) net_calls \<Rightarrow> endpoint set \<Rightarrow> action \<Rightarrow> bool" where
  "closable opn net E a \<longleftrightarrow> (\<forall>st. \<exists>R. closes a \<subseteq> R \<and> R \<subseteq> E \<and> opn (net_act net a st) = opn st |` (- R))"

lemma closable_quiet:
  assumes "net_lawful opn net" "shuts a = None" "closes a \<subseteq> E"
  shows "closable opn net E a"
proof -
  have "opn (net_act net a st) = opn st |` (- closes a)" for st using assms(1,2) by (simp add: net_lawful_def)
  with assms(3) show ?thesis unfolding closable_def by blast
qed

lemma closable_server:
  assumes "servers_lawful opn net ops" "shuts a = Some i" "serves_from ops i \<subseteq> E"
  shows "closable opn net E a"
proof -
  have "closes a = {}" using assms(2) by (cases a) simp_all
  moreover have "\<exists>R. R \<subseteq> serves_from ops i \<and> opn (net_act net a st) = opn st |` (- R)" for st
    using assms(1,2) unfolding servers_lawful_def by blast
  ultimately show ?thesis using assms(3) unfolding closable_def by (metis empty_subsetI subset_trans)
qed

lemma actions_close:
  "\<forall>a \<in> set acts. closable opn net E a \<Longrightarrow>
     \<exists>U. (\<Union>a \<in> set acts. closes a) \<subseteq> U \<and> U \<subseteq> E \<and> opn (fold (net_act net) acts st) = opn st |` (- U)"
proof (induction acts arbitrary: st)
  case (Cons a acts)
  obtain R where R: "closes a \<subseteq> R" "R \<subseteq> E" "opn (net_act net a st) = opn st |` (- R)"
    using Cons.prems unfolding closable_def by (metis list.set_intros(1))
  obtain U where U: "(\<Union>a \<in> set acts. closes a) \<subseteq> U" "U \<subseteq> E"
      "opn (fold (net_act net) acts (net_act net a st)) = opn (net_act net a st) |` (- U)"
    using Cons.IH [of "net_act net a st"] Cons.prems by auto
  have "(\<Union>a \<in> set (a # acts). closes a) \<subseteq> R \<union> U" "R \<union> U \<subseteq> E" using R(1,2) U(1,2) by auto
  moreover have "opn (fold (net_act net) (a # acts) st) = opn st |` (- (R \<union> U))" using R(3) U(3) by simp
  ultimately show ?case by blast
next
  case Nil
  have "opn st |` UNIV = opn st" by (simp add: restrict_map_def)
  then show ?case by (intro exI [of _ "{}"]) simp
qed

lemma actions_close_all:
  assumes "\<forall>a \<in> set acts. closable opn net E a" "(\<Union>a \<in> set acts. closes a) = E"
  shows "opn (fold (net_act net) acts st) = opn st |` (- E)"
proof -
  obtain U where "(\<Union>a \<in> set acts. closes a) \<subseteq> U" "U \<subseteq> E" "opn (fold (net_act net) acts st) = opn st |` (- U)"
    using actions_close [OF assms(1), where st = st] by auto
  moreover from this(1,2) have "U = E" unfolding assms(2) by (rule subset_antisym [rotated])
  ultimately show ?thesis by simp
qed

lemma registry_of:
  "set (listeners (fold register ops r)) = set (listeners r) \<union> {n. AddListener n \<in> set ops}"
  "set (quicListeners (fold register ops r)) = set (quicListeners r) \<union> {n. AddQUICListener n \<in> set ops}"
proof (induction ops arbitrary: r)
  case (Cons b ops)
  case 1
  from Cons show ?case by (cases b) auto
  case 2
  from Cons show ?case by (cases b) auto
qed simp_all

lemma set_endpoints:
  "set (endpoints ops) = Stream ` {n. AddListener n \<in> set ops} \<union> Quic ` {n. AddQUICListener n \<in> set ops}"
proof -
  have "e \<in> set (endpoints_of b) \<longleftrightarrow> (\<exists>n. (b = AddListener n \<and> e = Stream n) \<or> (b = AddQUICListener n \<and> e = Quic n))" for e b
    by (cases b) auto
  then show ?thesis unfolding endpoints_def by auto
qed

lemma cleanup_quiet: "a \<in> set (cleanup_part fs) \<Longrightarrow> closes a = {} \<and> shuts a = None"
  by (induction fs rule: cleanup_part.induct) auto

lemma undo_closes:
  assumes "net_lawful opn net" "opened_by opn st ops hows st'"
  shows "opn (snd (undo_start net fs ops e st')) = opn st"
proof -
  define acts where "acts = closeListeners (fold register ops no_registry) @ cancelCleanup fs"
  have all: "(\<Union>a \<in> set acts. closes a) = set (endpoints ops)"
    by (auto simp: acts_def closeListeners_def cancelCleanup_def cleanup_quiet registry_of no_registry_def set_endpoints)
  have "shuts a = None" if "a \<in> set acts" for a
    using that by (auto simp: acts_def closeListeners_def cancelCleanup_def cleanup_quiet)
  then have "\<forall>a \<in> set acts. closable opn net (set (endpoints ops)) a"
    using all by (auto intro!: closable_quiet [OF assms(1)])
  from actions_close_all [OF this all] opened_by_undone [OF assms(2)] show ?thesis
    by (simp add: undo_start_def Let_def acts_def [symmetric] del: fold_append)
qed

subsection \<open>A start opens what is configured\<close>

lemma opened_by_nothing: "endpoints ops = [] \<Longrightarrow> opn st' = opn st \<Longrightarrow> opened_by opn st ops [] st'"
  by (simp add: opened_by_def)

text \<open>One channel: it opens its endpoint, or fails and leaves everything as it was.\<close>

definition channel_ok ::
    "('o, 'f, 'c) open_map \<Rightarrow> 'o \<Rightarrow> ('f, 'c) setting list \<Rightarrow> (boot_op list \<times> listen_error option) \<times> 'o \<Rightarrow> bool" where
  "channel_ok opn st hows r \<longleftrightarrow>
     (case r of
        ((ops, Some e), st') \<Rightarrow> ops = [] \<and> opn st' = opn st
      | ((ops, None), st') \<Rightarrow> opened_by opn st ops hows st')"

lemma channel_okI:
  assumes "on \<Longrightarrow> opens opn mk how st (case create st of (Inl e, st') \<Rightarrow> (None, st') | (Inr n, st') \<Rightarrow> (Some n, st'))"
    and "\<And>n. endpoints (added n) = [mk n]"
  shows "channel_ok opn st (if on then [how] else []) (open_channel on create added st)"
proof (cases on)
  case True
  show ?thesis
  proof (cases "create st")
    case (Pair r st')
    with True assms show ?thesis
      by (cases r) (auto simp: channel_ok_def open_channel_def opens_def opened_by_def intro!: exI [of _ "[(mk _, how)]"])
  qed
qed (simp add: channel_ok_def open_channel_def opened_by_def endpoints_def)

lemma listened_opens:
  "opens opn mk how st (case listened r of (Inl e, st') \<Rightarrow> (None, st') | (Inr n, st') \<Rightarrow> (Some n, st')) = opens opn mk how st r"
  by (cases r; cases "fst r") (simp_all add: listened_def)

lemma endpoints_simps [simp]:
  "endpoints [] = []" "endpoints (b # bs) = endpoints_of b @ endpoints bs"
  by (simp_all add: endpoints_def)

lemma unix_opens:
  assumes "net_lawful opn net"
  shows "opens opn Stream (UnixSocket path) st
     (case createUnixListener (net_unix net) pf path perm st of (Inl e, st') \<Rightarrow> (None, st') | (Inr n, st') \<Rightarrow> (Some n, st'))"
proof -
  note law = assms [unfolded net_lawful_def]
  have rm: "opn (snd (os_remove (net_unix net) p st)) = opn st" for p st using law by blast
  have ch: "opn (snd (os_chmod (net_unix net) p perm st)) = opn st" for p st using law by blast
  have cl: "opn (os_close (net_unix net) n st) = (opn st)(Stream n := None)" for n st using law by blast
  have ls: "opens opn Stream (UnixSocket p) st (os_listen (net_unix net) p st)" for p st using law by blast
  obtain rr st1 where r: "os_remove (net_unix net) path st = (rr, st1)" by fastforce
  obtain lr st2 where l: "os_listen (net_unix net) path st1 = (lr, st2)" by fastforce
  obtain cr st3 where c: "os_chmod (net_unix net) path perm st2 = (cr, st3)" by fastforce
  have st1: "opn st1 = opn st" and st3: "opn st3 = opn st2" using rm [of path st] ch [of path st2] r c by simp_all
  have "opens opn Stream (UnixSocket path) st1 (lr, st2)" using ls [of path st1] l by simp
  then show ?thesis
    by (auto simp: createUnixListener_def r l c opens_def st1 st3 cl fun_upd_idem_iff split: option.splits removal.splits bool.splits)
qed

lemma channels_ok:
  assumes "net_lawful opn net"
  shows "channel_ok opn st (http_wanted s) (http_channel net s st)"
    and "channel_ok opn st (http3_wanted s) (http3_channel net s st)"
    and "channel_ok opn st (unix_wanted s) (unix_channel net pf s st)"
proof -
  show "channel_ok opn st (http_wanted s) (http_channel net s st)"
    unfolding http_channel_def http_wanted_def using assms
    by (intro channel_okI [where mk = Stream])
      (simp_all add: createTLSListener_def createPlainListener_def listened_opens net_lawful_def)
  show "channel_ok opn st (http3_wanted s) (http3_channel net s st)"
    unfolding http3_channel_def http3_wanted_def using assms
    by (intro channel_okI [where mk = Quic]) (simp_all add: createQUICListener_def listened_opens net_lawful_def)
  show "channel_ok opn st (unix_wanted s) (unix_channel net pf s st)"
    unfolding unix_channel_def unix_wanted_def by (intro channel_okI [where mk = Stream] unix_opens assms) simp
qed

lemma channel_failed: "channel_ok opn st hows ((ops, Some e), st') \<Longrightarrow> ops = [] \<and> opn st' = opn st"
  and channel_opened: "channel_ok opn st hows ((ops, None), st') \<Longrightarrow> opened_by opn st ops hows st'"
  by (simp_all add: channel_ok_def)

lemma opened_by_same: "opened_by opn st ops hows st1 \<Longrightarrow> opn st2 = opn st1 \<Longrightarrow> opened_by opn st (ops @ []) hows st2"
  by (simp add: opened_by_def)

lemma open_channels_ok:
  assumes "net_lawful opn net"
  shows "case open_channels net pf fs s st of
      ((ops, Some r), st') \<Rightarrow> opn st' = opn st
    | ((ops, None), st') \<Rightarrow> opened_by opn st ops (wanted s) st'"
proof -
  note undo = undo_closes [OF assms]
  obtain o1 x1 st1 where c1: "http_channel net s st = ((o1, x1), st1)" by (metis surj_pair)
  obtain o2 x2 st2 where c2: "http3_channel net s st1 = ((o2, x2), st2)" by (metis surj_pair)
  obtain o3 x3 st3 where c3: "unix_channel net pf s st2 = ((o3, x3), st3)" by (metis surj_pair)
  note k = channels_ok [OF assms]
  note k1 = k(1) [of st s, unfolded c1] and k2 = k(2) [of st1 s, unfolded c2] and k3 = k(3) [of st2 s pf, unfolded c3]
  have undone: "\<exists>u st2. undo_start net fs ops e st' = ((ops, Some u), st2) \<and> opn st2 = opn st"
    if "opened_by opn st ops hows st'" for ops hows e st'
    using undo [OF that, of fs e] by (simp add: undo_start_def Let_def)
  show ?thesis
  proof (cases x1)
    case (Some e)
    from channel_failed [OF k1 [unfolded Some]] have f: "o1 = []" "opn st1 = opn st" by simp_all
    then have "opened_by opn st [] [] st1" by (intro opened_by_nothing) simp_all
    then obtain u st2 where "undo_start net fs [] e st1 = (([], Some u), st2)" "opn st2 = opn st" using undone by blast
    with c1 Some f(1) show ?thesis by (simp add: open_channels_def)
  next
    case None
    note g1 = channel_opened [OF k1 [unfolded None]]
    note x1 = None
    show ?thesis
    proof (cases x2)
      case (Some e)
      from channel_failed [OF k2 [unfolded Some]] have f: "o2 = []" "opn st2 = opn st1" by simp_all
      obtain u st4 where "undo_start net fs (o1 @ []) e st2 = ((o1 @ [], Some u), st4)" "opn st4 = opn st"
        using undone [OF opened_by_same [OF g1 f(2)]] by blast
      with c1 c2 x1 Some f(1) show ?thesis by (simp add: open_channels_def)
    next
      case None
      note g2 = opened_by_append [OF g1 channel_opened [OF k2 [unfolded None]]]
      note x2 = None
      show ?thesis
      proof (cases x3)
        case (Some e)
        from channel_failed [OF k3 [unfolded Some]] have f: "o3 = []" "opn st3 = opn st2" by simp_all
        obtain u st4 where "undo_start net fs ((o1 @ o2) @ []) e st3 = (((o1 @ o2) @ [], Some u), st4)" "opn st4 = opn st"
          using undone [OF opened_by_same [OF g2 f(2)]] by blast
        with c1 c2 c3 x1 x2 Some f(1) show ?thesis by (simp add: open_channels_def)
      next
        case None
        have "opened_by opn st ((o1 @ o2) @ o3) (wanted s) st3"
          using opened_by_append [OF g2 channel_opened [OF k3 [unfolded None]]] unfolding wanted_def append_assoc .
        then have "opened_by opn st (o1 @ o2 @ o3 @ [SpawnWaiter]) (wanted s) st3"
          by (simp add: opened_by_def endpoints_def)
        with c1 c2 c3 x1 x2 None show ?thesis by (simp add: open_channels_def)
      qed
    qed
  qed
qed


text \<open>The configuration of a server that has started is in range.\<close>

lemma Start_valid:
  assumes "Start env s = (s', Inr r)"
  shows "valid_config (config s')"
proof -
  have "valid_config cfg" if "Validate (env_cidr env) (env_ip env) c = (cfg, None)" for c cfg
    using defaults_valid that by (metis Validate_run fst_conv snd_conv option.distinct(1))
  with assms show ?thesis
    by (auto simp: Start_def Let_def split: if_splits option.splits prod.splits)
qed

text \<open>What a client of an endpoint can rely on.\<close>

fun secure :: "('f, 't) Server \<Rightarrow> ('f, 'c) setting \<Rightarrow> bool" where
  "secure s (PlainTCP a) \<longleftrightarrow> \<not> httpTLS s"
| "secure s (TlsTCP a cfg) \<longleftrightarrow> MinVersion cfg \<in> tls_versions \<and> GetCertificate cfg = buildGetCertificate s
     \<and> NextProtos cfg = [''h2'', ''http/1.1'']"
| "secure s (QuicUDP a cfg i m) \<longleftrightarrow> MinVersion cfg \<in> tls_versions \<and> GetCertificate cfg = buildGetCertificate s
     \<and> NextProtos cfg = [''h3''] \<and> 0 < i \<and> 0 < m"
| "secure s (UnixSocket p) \<longleftrightarrow> True"

lemma wanted_secure: "valid_config (config s) \<Longrightarrow> h \<in> set (wanted s) \<Longrightarrow> secure s h"
  by (auto simp: wanted_def http_wanted_def http3_wanted_def unix_wanted_def buildTLSConfig_def valid_config_def split: if_splits)

text \<open>C8. A start opens what is configured: when \<open>Start\<close> gets to its listeners, the endpoints that are
  new are exactly those of the channels switched on, each opened with the settings of the validated
  configuration, TLS with version 1.2 at least, and each of them is registered to be closed; when it
  fails, at any of its checks or at any listener, everything it had opened is closed again.\<close>

theorem start_opens_as_configured:
  assumes "net_lawful opn net" and "start_server env net pf fs s st = (s', res, st')"
  shows "case res of
      Inl e \<Rightarrow> opn st' = opn st
    | Inr ops \<Rightarrow> \<exists>es. adds es (opn st) (opn st') \<and> map fst es = endpoints ops \<and> map snd es = wanted s'
        \<and> (\<forall>h \<in> snd ` set es. secure s' h)"
proof (cases "snd (Start env s)")
  case (Inl e)
  have "\<forall>a \<in> set (cancelCleanup fs). closable opn net {} a"
    by (auto simp: cancelCleanup_def cleanup_quiet intro!: closable_quiet [OF assms(1)])
  from actions_close_all [OF this] have "opn (fold (net_act net) (cancelCleanup fs) st) = opn st"
    by (simp add: cancelCleanup_def cleanup_quiet restrict_map_def)
  with assms(2) Inl show ?thesis by (cases "Start env s") (auto simp: start_server_def split: if_splits)
next
  case (Inr r)
  then obtain s1 where s1: "Start env s = (s1, Inr r)" by (metis prod.collapse)
  obtain ops x st1 where op: "open_channels net pf fs s1 st = ((ops, x), st1)" by (metis surj_pair)
  show ?thesis
  proof (cases x)
    case (Some u)
    with open_channels_ok [OF assms(1), where pf = pf and fs = fs and s = s1 and st = st] op s1 assms(2) show ?thesis
      by (auto simp: start_server_def split: prod.splits)
  next
    case None
    with open_channels_ok [OF assms(1), where pf = pf and fs = fs and s = s1 and st = st] op have g: "opened_by opn st ops (wanted s1) st1" by simp
    have "s' = s1" "res = Inr (MakeSignalCtx # ops)" "st' = st1" using assms(2) s1 op None by (simp_all add: start_server_def)
    moreover obtain es where es: "adds es (opn st) (opn st1)" "map fst es = endpoints ops" "map snd es = wanted s1"
      using g unfolding opened_by_def by blast
    moreover have "secure s1 h" if "h \<in> snd ` set es" for h
      using that wanted_secure [OF Start_valid [OF s1]] by (simp flip: list.set_map add: es(3))
    ultimately show ?thesis by auto
  qed
qed

text \<open>The listener part of \<open>Lifecycle\<close> is this one with the results of the calls put in.\<close>

theorem channels_refine_start_listening:
  "\<exists>le. fst (open_channels net pf fs s st) = start_listening le fs s"
proof -
  obtain o1 x1 st1 where c1: "http_channel net s st = ((o1, x1), st1)" by (metis surj_pair)
  obtain o2 x2 st2 where c2: "http3_channel net s st1 = ((o2, x2), st2)" by (metis surj_pair)
  define tcp where "tcp = fst (if httpTLS s
      then createTLSListener net (httpAddr s) (buildGetCertificate s) (MinTLSVersion (config s)) st
      else createPlainListener net (httpAddr s) st)"
  define quic where "quic = fst (createQUICListener net (http3Addr s) (buildGetCertificate s) (MinTLSVersion (config s))
      (QUICMaxIdleTimeout (config s)) (QUICMaxIncomingStreams (config s)) st1)"
  define unix where "unix = fst (createUnixListener (net_unix net) pf (unixSocketPath s) (unixSocketPerm s) st2)"
  let ?le = "\<lparr>tcp_result = tcp, quic_result = quic, unix_result = unix\<rparr>"
  have h: "open_http ?le s = fst (http_channel net s st)"
    by (auto simp: open_http_def http_channel_def open_channel_def tcp_def split: sum.splits prod.splits)
  have h3: "open_http3 ?le s = fst (http3_channel net s st1)"
    by (auto simp: open_http3_def http3_channel_def open_channel_def quic_def split: sum.splits prod.splits)
  have u: "open_unix ?le s = fst (unix_channel net pf s st2)"
    by (auto simp: open_unix_def unix_channel_def open_channel_def unix_def split: sum.splits prod.splits)
  show ?thesis
    using c1 c2 by (intro exI [of _ ?le])
      (simp add: start_listening_def open_channels_def h h3 u undo_start_def Let_def split: option.split prod.split)
qed

subsection \<open>Stop closes what Start opened\<close>

lemma listeners_loop_calls: "a \<in> set (fst (listeners_loop env ls)) \<longleftrightarrow> (\<exists>l. a = CloseListener l \<and> Some l \<in> set ls)"
  by (induction env ls rule: listeners_loop.induct) (auto split: prod.split)

lemma servers_loop_calls: "a \<in> set (fst (servers_loop env ss)) \<Longrightarrow> \<exists>i. shuts a = Some i \<and> closes a = {}"
  by (induction env ss rule: servers_loop.induct) (auto split: prod.splits if_splits)

lemma calls_of_set:
  "a \<in> set (Lifecycle.calls_of cf r) \<Longrightarrow>
     (\<exists>i. shuts a = Some i \<and> closes a = {}) \<or> (\<exists>l \<in> set (listeners r). a = CloseListener l)
     \<or> (\<exists>q \<in> set (quicListeners r). a = CloseQUIC q) \<or> (shuts a = None \<and> closes a = {})"
  by (auto simp: calls_of_parts listeners_loop_calls socket_part_def cleanup_quiet dest: servers_loop_calls split: if_splits)

lemma calls_of_close:
  "(\<Union>a \<in> set (Lifecycle.calls_of cf r). closes a) = Stream ` set (listeners r) \<union> Quic ` set (quicListeners r)"
proof
  show "(\<Union>a \<in> set (Lifecycle.calls_of cf r). closes a) \<subseteq> Stream ` set (listeners r) \<union> Quic ` set (quicListeners r)"
    by (auto dest!: calls_of_set)
  have "CloseListener l \<in> set (Lifecycle.calls_of cf r)" if "l \<in> set (listeners r)" for l
    using that by (simp add: calls_of_parts listeners_loop_calls)
  moreover have "CloseQUIC q \<in> set (Lifecycle.calls_of cf r)" if "q \<in> set (quicListeners r)" for q
    using that by (simp add: calls_of_parts)
  ultimately show "Stream ` set (listeners r) \<union> Quic ` set (quicListeners r) \<subseteq> (\<Union>a \<in> set (Lifecycle.calls_of cf r). closes a)"
    by force
qed

text \<open>Every server of a start serves from a listener that is registered.\<close>

lemma start_listening_serves:
  "start_listening le fs s = (ops, x) \<Longrightarrow> AddHTTPServer i l \<in> set ops \<Longrightarrow> AddListener l \<in> set ops"
  by (auto simp: start_listening_def open_http_def open_http3_def open_unix_def Let_def split: if_splits sum.splits)

text \<open>C9. What \<open>Start\<close> opens \<open>Stop\<close> closes: after the calls of a shutdown, with any settings, and however
  many listeners \<open>Shutdown\<close> or a forced \<open>Close\<close> of the servers has closed before, exactly those
  endpoints are open that were open before the server started.\<close>

theorem stop_closes_what_start_opened:
  assumes "net_lawful opn net" and "servers_lawful opn net ops" and "start_server env net pf fs s st = (s', Inr ops, st')"
  shows "opn (fold (net_act net) (Lifecycle.calls_of cf (fold register ops no_registry)) st') = opn st"
proof -
  obtain r where s': "Start env s = (s', Inr r)"
    using assms(3) by (auto simp: start_server_def split: prod.splits sum.splits option.splits)
  obtain ops' where op: "open_channels net pf fs s' st = ((ops', None), st')" "ops = MakeSignalCtx # ops'"
    using assms(3) s' by (auto simp: start_server_def split: prod.splits sum.splits option.splits)
  obtain le where "start_listening le fs s' = (ops', None)"
    using channels_refine_start_listening [of net pf fs s' st] op(1) by auto
  then have serves: "serves_from ops i \<subseteq> set (endpoints ops)" for i
    using op(2) by (auto simp: serves_from_def set_endpoints dest: start_listening_serves)
  have close: "(\<Union>a \<in> set (Lifecycle.calls_of cf (fold register ops no_registry)). closes a) = set (endpoints ops)"
    by (simp add: calls_of_close registry_of no_registry_def set_endpoints)
  have closable: "closable opn net (set (endpoints ops)) a" if "a \<in> set (Lifecycle.calls_of cf (fold register ops no_registry))" for a
  proof (cases "shuts a")
    case None
    then show ?thesis using that close by (intro closable_quiet [OF assms(1)]) auto
  qed (use closable_server [OF assms(2)] serves in blast)
  have "opened_by opn st ops (wanted s') st'"
    using open_channels_ok [OF assms(1), where pf = pf and fs = fs and s = s' and st = st] op by (simp add: opened_by_def)
  from opened_by_undone [OF this] show ?thesis
    using actions_close_all [OF ballI [OF closable] close, of st'] by simp
qed


text \<open>A network with one port of each kind; the second listener on a port is refused.\<close>

definition demo_open :: "endpoint \<Rightarrow> nat \<Rightarrow> ('f, 'c) setting \<Rightarrow> (endpoint \<Rightarrow> ('f, 'c) setting option)
    \<Rightarrow> nat option \<times> (endpoint \<Rightarrow> ('f, 'c) setting option)" where
  "demo_open e n how m = (case m e of None \<Rightarrow> (Some n, m(e \<mapsto> how)) | Some _ \<Rightarrow> (None, m))"

definition demo_net :: "(endpoint \<Rightarrow> (nat, nat) setting option, nat, nat) net_calls" where
  "demo_net =
     \<lparr>net_unix = \<lparr>os_isdir = (\<lambda>_ _. False), os_remove = (\<lambda>_ st. (NotThere, st)),
        os_listen = (\<lambda>p. demo_open (Stream 1) 1 (UnixSocket p)), os_chmod = (\<lambda>_ _ st. (True, st)),
        os_close = (\<lambda>n st. st(Stream n := None))\<rparr>,
      net_tcp = (\<lambda>a. demo_open (Stream 443) 443 (PlainTCP a)), net_tls = (\<lambda>a cfg. demo_open (Stream 443) 443 (TlsTCP a cfg)),
      net_quic = (\<lambda>a cfg i m. demo_open (Quic 443) 443 (QuicUDP a cfg i m)),
      net_act = (\<lambda>a st. st |` (- closes a))\<rparr>"

lemma demo_net_lawful: "net_lawful (\<lambda>st. st) demo_net"
  by (simp add: net_lawful_def demo_net_def demo_open_def opens_def split: option.split)

definition tls_env :: start_env where
  "tls_env = demo_env\<lparr>env_stat := (\<lambda>_. Regular), env_pair := (\<lambda>_ _. True)\<rparr>"

definition tls_server :: "(nat, nat) Server" where
  "tls_server = UseHttp3Listen '':443'' (UseHttp1or2Listen '':443'' True
     (NewServer (zero_config\<lparr>TLSCertFile := ''c.pem'', TLSKeyFile := ''c.key''\<rparr>) True))"

definition tls_start :: "(nat, nat) Server \<times> (serve_error + boot_op list) \<times> (endpoint \<Rightarrow> (nat, nat) setting option)" where
  "tls_start = start_server tls_env demo_net (OtherPlatform ''/tmp'') [] tls_server Map.empty"

lemma tls_starts: "\<exists>s' st'. tls_start = (s', Inr [MakeSignalCtx, AddListener 443, AddHTTPServer 0 443, AddQUICListener 443,
    AddHTTP3Server 0 443, SpawnWaiter], st')"
proof -
  have "(case fst (snd tls_start) of Inl _ \<Rightarrow> False | Inr ops \<Rightarrow> ops = [MakeSignalCtx, AddListener 443, AddHTTPServer 0 443,
      AddQUICListener 443, AddHTTP3Server 0 443, SpawnWaiter])" by code_simp
  then have "fst (snd tls_start) = Inr [MakeSignalCtx, AddListener 443, AddHTTPServer 0 443, AddQUICListener 443,
      AddHTTP3Server 0 443, SpawnWaiter]" by (cases "fst (snd tls_start)") simp_all
  then show ?thesis by (metis prod.collapse)
qed

theorem start_opens_as_configured_witness:
  "\<exists>s' ops st'. tls_start = (s', Inr ops, st') \<and> endpoints ops = [Stream 443, Quic 443]
    \<and> (\<exists>es. adds es Map.empty st' \<and> map fst es = endpoints ops \<and> map snd es = wanted s' \<and> (\<forall>h \<in> snd ` set es. secure s' h))"
proof -
  obtain s' st' where st: "tls_start = (s', Inr [MakeSignalCtx, AddListener 443, AddHTTPServer 0 443, AddQUICListener 443,
      AddHTTP3Server 0 443, SpawnWaiter], st')" using tls_starts by blast
  from start_opens_as_configured [OF demo_net_lawful st [unfolded tls_start_def], unfolded sum.case] show ?thesis
    using st by (intro exI [of _ s'] exI [of _ st'] exI [of _ "[MakeSignalCtx, AddListener 443, AddHTTPServer 0 443,
      AddQUICListener 443, AddHTTP3Server 0 443, SpawnWaiter]"] conjI) simp_all
qed

theorem stop_closes_what_start_opened_witness:
  "\<exists>s' ops st'. tls_start = (s', Inr ops, st') \<and> endpoints ops = [Stream 443, Quic 443]
    \<and> fold (net_act demo_net) (Lifecycle.calls_of (demo_conf [Some 7]) (fold register ops no_registry)) st' = Map.empty"
proof -
  obtain s' st' where st: "tls_start = (s', Inr [MakeSignalCtx, AddListener 443, AddHTTPServer 0 443, AddQUICListener 443,
      AddHTTP3Server 0 443, SpawnWaiter], st')" using tls_starts by blast
  have "closes a = {}" if "shuts a = Some i" for a i using that by (cases a) simp_all
  then have "servers_lawful (\<lambda>st. st) demo_net ops" for ops
    by (auto simp: servers_lawful_def demo_net_def intro!: exI [of _ "{}"])
  from stop_closes_what_start_opened [OF demo_net_lawful this st [unfolded tls_start_def]] st show ?thesis
    by (intro exI conjI) (assumption | simp)+
qed

text \<open>A server without a logger returns before the cleanup is deferred: the goroutine of its rate
  limiter is never stopped.\<close>

theorem nil_logger_skips_cleanup:
  assumes "\<not> started s" "\<not> logger s"
  shows "start_server env net pf fs s st = (s\<lparr>started := True\<rparr>, Inl (NotStarted NoLogger), st)"
  using assms by (simp add: start_server_def Start_def Let_def)

theorem nil_logger_skips_cleanup_witness:
  "snd (start_server demo_env demo_net (OtherPlatform ''/tmp'') [Some 3] (NewServer zero_config False) Map.empty) =
     (Inl (NotStarted NoLogger), Map.empty)"
  by (subst nil_logger_skips_cleanup) (simp_all add: NewServer_def)

subsection \<open>Servers\<close>

text \<open>The fields of an \<open>http.Server\<close>, the same for the TCP and the Unix listener; the hooks are those
  registered by \<open>applyServerHooks\<close>.\<close>

record 'f http_server =
  hs_ReadTimeout :: int
  hs_WriteTimeout :: int
  hs_ReadHeaderTimeout :: int
  hs_IdleTimeout :: int
  hs_MaxHeaderBytes :: int
  hs_ConnContext :: "'f option"
  hs_onShutdown :: "'f list"

definition new_http_server :: "('f, 't) Server \<Rightarrow> 'f http_server" where
  "new_http_server s =
     (let c = config s;
          srv = \<lparr>hs_ReadTimeout = ReadTimeout c, hs_WriteTimeout = WriteTimeout c, hs_ReadHeaderTimeout = ReadHeaderTimeout c,
                 hs_IdleTimeout = IdleTimeout c, hs_MaxHeaderBytes = MaxHeaderBytes c, hs_ConnContext = connCtx s,
                 hs_onShutdown = []\<rparr>
      in srv\<lparr>hs_onShutdown := applyServerHooks s (hs_onShutdown srv)\<rparr>)"

text \<open>The address of the first listener, a QUIC listener when there is no other.\<close>

definition ListenerAddr :: "(endpoint \<Rightarrow> string) \<Rightarrow> registry \<Rightarrow> string" where
  "ListenerAddr addr r =
     (case listeners r of
        l # _ \<Rightarrow> addr (Stream l)
      | [] \<Rightarrow> (case quicListeners r of q # _ \<Rightarrow> addr (Quic q) | [] \<Rightarrow> []))"

text \<open>Slow clients are cut off: a started server has a bound on the time for headers and on idle
  connections.\<close>

theorem started_servers_have_timeouts:
  assumes "Start env s = (s', Inr r)"
  shows "0 < hs_ReadHeaderTimeout (new_http_server s') \<and> 0 < hs_IdleTimeout (new_http_server s')"
  using Start_valid [OF assms] by (simp add: new_http_server_def Let_def valid_config_def)

subsection \<open>Accepting\<close>

text \<open>\<open>serveHTTP3\<close>: the results of \<open>Accept\<close> one after the other, from the \<open>i\<close>-th; the second component
  is the list of the connections handed to goroutines. \<open>None\<close> is a loop that never ends.\<close>

partial_function (option) serveHTTP3 :: "(nat \<Rightarrow> 'e + 'k) \<Rightarrow> nat \<Rightarrow> 'k list \<Rightarrow> ('e \<times> 'k list) option" where
  "serveHTTP3 accept i served =
     (case accept i of
        Inl e \<Rightarrow> Some (e, served)
      | Inr conn \<Rightarrow> serveHTTP3 accept (Suc i) (served @ [conn]))"

lemma serveHTTP3_returns:
  "accept (i + n) = Inl e \<Longrightarrow> \<forall>j < n. accept (i + j) = Inr (c j) \<Longrightarrow>
    serveHTTP3 accept i served = Some (e, served @ map c [0..<n])"
proof (induction n arbitrary: i served c)
  case 0
  then show ?case by (simp add: serveHTTP3.simps)
next
  case (Suc n)
  have "serveHTTP3 accept (Suc i) (served @ [c 0]) = Some (e, (served @ [c 0]) @ map (\<lambda>j. c (Suc j)) [0..<n])"
    using Suc.prems by (intro Suc.IH) auto
  moreover have "accept i = Inr (c 0)" using Suc.prems(2) by (metis add.right_neutral zero_less_Suc)
  moreover have "map c [0..<Suc n] = c 0 # map (\<lambda>j. c (Suc j)) [0..<n]"
    unfolding map_upt_Suc by simp
  ultimately show ?case by (subst serveHTTP3.simps) simp
qed

text \<open>C18. The loop of \<open>serveHTTP3\<close> returns if and only if some call of \<open>Accept\<close> fails, then with the
  error of the first one that does, and every connection accepted before has been handed to a
  goroutine, in order and once.\<close>

theorem serveHTTP3_ends:
  "serveHTTP3 accept 0 [] =
     (if \<exists>n e. accept n = Inl e
      then (let n = LEAST n. \<exists>e. accept n = Inl e in Some (projl (accept n), map (\<lambda>j. projr (accept j)) [0..<n]))
      else None)"
proof (cases "\<exists>n e. accept n = Inl e")
  case True
  let ?n = "LEAST n. \<exists>e. accept n = Inl e"
  obtain e where e: "accept ?n = Inl e" using LeastI_ex [OF True] by blast
  have before: "accept j = Inr (projr (accept j))" if "j < ?n" for j
    using not_less_Least [OF that] by (cases "accept j") auto
  have "serveHTTP3 accept 0 [] = Some (e, [] @ map (\<lambda>j. projr (accept j)) [0..<?n])"
    using e before by (intro serveHTTP3_returns) simp_all
  with True e show ?thesis by (simp add: Let_def)
next
  case False
  have "serveHTTP3 accept i served = Some r \<Longrightarrow> \<exists>n e. accept n = Inl e" for i served r
    by (rule serveHTTP3.raw_induct [of "\<lambda>a i sv r. \<exists>n e. a n = Inl e", rotated], assumption) (auto split: sum.splits)
  with False show ?thesis by (cases "serveHTTP3 accept 0 []") auto
qed

text \<open>What is logged when a serving goroutine ends.\<close>

datatype 'e exit_log = ClosedInfo | AbnormalError 'e

definition logHTTP3Exit :: "('e \<Rightarrow> bool) \<Rightarrow> 'e \<Rightarrow> 'e exit_log" where
  "logHTTP3Exit is_closed err = (if is_closed err then ClosedInfo else AbnormalError err)"

end
