(* ===== verification/HeaderKeys.thy ===== *)
theory HeaderKeys
  imports Delivery
begin

text \<open>
  The header keys the middlewares compute once, in canonical form, and use to index header
  maps directly; and what happens to \<open>Vary\<close>, which two of them write.
\<close>

subsection \<open>Canonical keys\<close>

definition CanonicalHeaderKey :: "string \<Rightarrow> string" where
  "CanonicalHeaderKey key = canonical_key key"

definition context_keys :: "string list" where
  "context_keys = map CanonicalHeaderKey [''X-Forwarded-For'', ''X-Real-IP'']"

definition middleware_keys :: "string list" where
  "middleware_keys = map CanonicalHeaderKey
     [''Accept-Encoding'', ''Content-Encoding'', ''Content-Type'', ''Vary'', ''Retry-After'', ''User-Agent'']"

definition cors_keys :: "string list" where
  "cors_keys = map CanonicalHeaderKey
     [''Origin'', ''Access-Control-Allow-Origin'', ''Access-Control-Allow-Methods'', ''Access-Control-Allow-Headers'',
      ''Access-Control-Expose-Headers'', ''Access-Control-Allow-Credentials'', ''Access-Control-Allow-Private-Network'',
      ''Access-Control-Max-Age'']"

definition security_keys :: "string list" where
  "security_keys = map CanonicalHeaderKey
     [''X-Content-Type-Options'', ''X-Frame-Options'', ''Referrer-Policy'', ''Strict-Transport-Security'',
      ''Permissions-Policy'', ''Cross-Origin-Opener-Policy'', ''Cross-Origin-Resource-Policy'',
      ''Cross-Origin-Embedder-Policy'', ''Content-Security-Policy'', ''Content-Security-Policy-Report-Only'',
      ''Origin-Agent-Cluster'']"

text \<open>Making a key canonical twice is making it canonical once.\<close>

lemma upper_cases:
  obtains "upper_char c = c" "\<not> (CHR ''a'' \<le> c \<and> c \<le> CHR ''z'')"
  | n :: nat where "97 \<le> n" "n \<le> 122" "c = char_of n" "upper_char c = char_of (n - 32)"
proof (cases "CHR ''a'' \<le> c \<and> c \<le> CHR ''z''")
  case True
  then have "97 \<le> (of_char c :: nat)" "(of_char c :: nat) \<le> 122" by (simp_all add: less_eq_char_def)
  with True that(2) [of "of_char c"] show ?thesis by (simp add: upper_char_def)
qed (use that(1) in \<open>simp add: upper_char_def\<close>)

lemma lower_cases:
  obtains "lower_char c = c" "\<not> (CHR ''A'' \<le> c \<and> c \<le> CHR ''Z'')"
  | n :: nat where "65 \<le> n" "n \<le> 90" "c = char_of n" "lower_char c = char_of (n + 32)"
proof (cases "CHR ''A'' \<le> c \<and> c \<le> CHR ''Z''")
  case True
  then have "65 \<le> (of_char c :: nat)" "(of_char c :: nat) \<le> 90" by (simp_all add: less_eq_char_def)
  with True that(2) [of "of_char c"] show ?thesis by (simp add: lower_char_def)
qed (use that(1) in \<open>simp add: lower_char_def\<close>)

lemma char_of_range:
  "n < 256 \<Longrightarrow> CHR ''a'' \<le> char_of n \<longleftrightarrow> 97 \<le> n" "n < 256 \<Longrightarrow> char_of n \<le> CHR ''z'' \<longleftrightarrow> n \<le> 122"
  "n < 256 \<Longrightarrow> CHR ''A'' \<le> char_of n \<longleftrightarrow> 65 \<le> n" "n < 256 \<Longrightarrow> char_of n \<le> CHR ''Z'' \<longleftrightarrow> n \<le> 90"
  "n < 256 \<Longrightarrow> char_of n = CHR ''-'' \<longleftrightarrow> n = 45" for n :: nat
  by (simp_all add: less_eq_char_def flip: of_char_eq_iff [where 'a = nat])

lemma case_idem:
  "upper_char (upper_char c) = upper_char c" "lower_char (lower_char c) = lower_char c"
  "upper_char c = CHR ''-'' \<longleftrightarrow> c = CHR ''-''" "lower_char c = CHR ''-'' \<longleftrightarrow> c = CHR ''-''"
  "token_char c \<Longrightarrow> token_char (upper_char c)" "token_char c \<Longrightarrow> token_char (lower_char c)"
proof -
  show "upper_char (upper_char c) = upper_char c"
    by (rule upper_cases [of c]; simp add: upper_char_def [of "char_of _"] char_of_range; linarith?)
  show "lower_char (lower_char c) = lower_char c"
    by (rule lower_cases [of c]; simp add: lower_char_def [of "char_of _"] char_of_range)
  show "upper_char c = CHR ''-'' \<longleftrightarrow> c = CHR ''-''" by (rule upper_cases [of c]) (simp_all add: char_of_range)
  show "lower_char c = CHR ''-'' \<longleftrightarrow> c = CHR ''-''" by (rule lower_cases [of c]) (simp_all add: char_of_range)
  show "token_char c \<Longrightarrow> token_char (upper_char c)"
  proof (rule upper_cases [of c])
    fix n :: nat
    assume "97 \<le> n" "n \<le> 122" and u: "upper_char c = char_of (n - 32)"
    then have "65 \<le> n - 32" "n - 32 \<le> 90" by arith+
    then show "token_char (upper_char c)" unfolding u token_char_def by (simp add: char_of_range)
  qed simp
  show "token_char c \<Longrightarrow> token_char (lower_char c)"
  proof (rule lower_cases [of c])
    fix n :: nat
    assume "65 \<le> n" "n \<le> 90" and l: "lower_char c = char_of (n + 32)"
    then show "token_char (lower_char c)" unfolding l token_char_def by (simp add: char_of_range)
  qed simp
qed

lemma canonical_from_idem: "canonical_from b (canonical_from b k) = canonical_from b k"
  by (induction b k rule: canonical_from.induct) (simp_all add: case_idem)

lemma canonical_from_tokens: "list_all token_char k \<Longrightarrow> list_all token_char (canonical_from b k)"
  by (induction b k rule: canonical_from.induct) (simp_all add: case_idem)

lemma canonical_idem [simp]: "canonical_key (canonical_key k) = canonical_key k"
  by (simp add: canonical_key_def canonical_from_idem canonical_from_tokens)

text \<open>A key computed in advance is as good as the key itself: setting, adding and deleting with it
  is setting, adding and deleting with the key, and indexing the map with it is what \<open>Get\<close> finds,
  also after a header was written under any spelling of the key.\<close>

theorem precomputed_keys:
  "header_set (CanonicalHeaderKey k) v h = header_set k v h"
  "header_add (CanonicalHeaderKey k) v h = header_add k v h"
  "header_del (CanonicalHeaderKey k) h = header_del k h"
  "first_value (hindex h (CanonicalHeaderKey k)) = header_get h k"
  "canonical_key k' = canonical_key k \<Longrightarrow> hindex (header_set k' v h) (CanonicalHeaderKey k) = [v]"
  by (simp_all add: CanonicalHeaderKey_def header_set_def header_add_def header_del_def header_get_def)

text \<open>The keys are written in canonical form in the source, except one.\<close>

theorem keys_as_written:
  "list_all (\<lambda>k. canonical_key k = k) (context_keys @ middleware_keys @ cors_keys @ security_keys)
   \<and> CanonicalHeaderKey ''X-Real-IP'' = ''X-Real-Ip''
   \<and> middleware_keys = [''Accept-Encoding'', ''Content-Encoding'', ''Content-Type'', ''Vary'', ''Retry-After'', ''User-Agent'']"
  by code_simp

subsection \<open>Vary\<close>

text \<open>A cross-origin response that is compressed is no longer marked as depending on the origin:
  \<open>CORS\<close> writes \<open>Vary: Origin\<close>, and \<open>setHeader\<close> of the gzip writer replaces the value instead of
  adding to it. A cache may hand the response, with the origin of one site in
  \<open>Access-Control-Allow-Origin\<close>, to another site.\<close>

definition cors_request :: "nat Context" where
  "cors_request = NewContext new_writer (nil_request\<lparr>req_header := [(''Accept-Encoding'', [''gzip'']), (''Origin'', [''o'' ])]\<rparr>)"

definition one_origin :: CORSConfig where
  "one_origin =
     \<lparr>AllowedOrigins = [''o''], AllowedMethods = [], AllowedHeaders = [], ExposeHeaders = [], CORS_MaxAge = 0,
      AllowCredentials = False, AllowPrivateNetwork = False\<rparr>"

theorem gzip_replaces_vary:
  "(case CORS one_origin (GzipWithOptions demo_emit \<lparr>MinSize = 0, Level = 5\<rparr> (responder [SetHdr (header_set ''Content-Type'' ''text/plain''), Call (CWriteHeader 200), Call (CWrite ''h'')])) ((), cors_request) of
      ((_, c), _) \<Rightarrow> hindex (w_header (writer c)) ''Access-Control-Allow-Origin'' = [''o'']
        \<and> hindex (w_header (writer c)) ''Vary'' = [''Accept-Encoding''])"
  by code_simp

end
