(* ===== verification/Health.thy ===== *)
theory Health
  imports Response Messages
begin

text \<open>
  The health endpoints of \<open>health.go\<close>. A check is a name and a function of the request that
  returns the text of its error, if any; the uptime is in nanoseconds and the start time is
  already formatted.
\<close>

subsection \<open>Uptime\<close>

text \<open>The integer parts of \<open>Seconds\<close>, \<open>Minutes\<close> and \<open>Hours\<close>, rounded towards zero. The source
  takes them of a \<open>float64\<close>, which is exact up to months of uptime; beyond that, the last
  nanoseconds of a minute may round up.\<close>

definition formatUptime :: "int \<Rightarrow> string" where
  "formatUptime d =
     (let secs = (if d < 0 then - (- d div 1000000000) else d div 1000000000); mins = d div 60000000000; hours = d div 3600000000000
      in if d < 60000000000 then itoa secs @ unit_seconds
         else if d < 3600000000000 then
           (if secs mod 60 > 0 then itoa mins @ unit_minutes @ itoa (secs mod 60) @ unit_seconds
            else itoa mins @ unit_minutes)
         else if mins mod 60 > 0 then itoa hours @ unit_hours @ itoa (mins mod 60) @ unit_minutes
         else itoa hours @ unit_hours)"

text \<open>Reading an uptime back, in seconds.\<close>

fun read_units :: "nat \<Rightarrow> string \<Rightarrow> int option" where
  "read_units 0 t = None"
| "read_units (Suc n) t =
     (if t = [] then Some 0
      else (case read_int t of
              None \<Rightarrow> None
            | Some (k, rest) \<Rightarrow>
                (let unit = (if has_prefix rest unit_seconds then Some (1, unit_seconds)
                             else if has_prefix rest unit_minutes then Some (60, unit_minutes)
                             else if has_prefix rest unit_hours then Some (3600, unit_hours) else None)
                 in case unit of None \<Rightarrow> None
                    | Some (f, u) \<Rightarrow> map_option ((+) (f * k)) (read_units n (drop (length u) rest)))))"

lemma units_head [simp]:
  "unit_seconds \<noteq> []" "unit_minutes \<noteq> []" "unit_hours \<noteq> []"
  "\<not> is_digit (hd unit_seconds)" "\<not> is_digit (hd unit_minutes)" "\<not> is_digit (hd unit_hours)"
  by (simp_all add: unit_seconds_def unit_minutes_def unit_hours_def is_digit_def less_eq_char_def)

lemma units_apart [simp]:
  "\<not> has_prefix (unit_minutes @ t) unit_seconds" "\<not> has_prefix (unit_hours @ t) unit_seconds"
  "\<not> has_prefix (unit_hours @ t) unit_minutes"
  by (simp_all add: unit_seconds_def unit_minutes_def unit_hours_def)

lemma itoa_not_Nil [simp]: "itoa i \<noteq> []"
  using itoa_head [of i] by auto

lemma read_amount [simp]:
  "read_int (itoa k @ unit_seconds @ t) = Some (k, unit_seconds @ t)"
  "read_int (itoa k @ unit_minutes @ t) = Some (k, unit_minutes @ t)"
  "read_int (itoa k @ unit_hours @ t) = Some (k, unit_hours @ t)"
  using read_itoa [of "unit_seconds @ t" k] read_itoa [of "unit_minutes @ t" k] read_itoa [of "unit_hours @ t" k]
  by simp_all

lemma read_unit [simp]:
  "read_units (Suc n) (itoa k @ unit_seconds @ t) = map_option ((+) k) (read_units n t)"
  "read_units (Suc n) (itoa k @ unit_minutes @ t) = map_option ((+) (60 * k)) (read_units n t)"
  "read_units (Suc n) (itoa k @ unit_hours @ t) = map_option ((+) (3600 * k)) (read_units n t)"
  by simp_all

declare read_units.simps(2) [simp del]

lemma read_unit_end [simp]:
  "read_units (Suc (Suc n)) (itoa k @ unit_seconds) = Some k"
  "read_units (Suc (Suc n)) (itoa k @ unit_minutes) = Some (60 * k)"
  "read_units (Suc (Suc n)) (itoa k @ unit_hours) = Some (3600 * k)"
  using read_unit [of "Suc n" k "[]"] by (simp_all add: read_units.simps(2))

text \<open>The uptime shown can be read back: to the second below an hour, to the minute from then on.\<close>

theorem uptime_reads_back:
  assumes "d \<ge> 0"
  shows "read_units 3 (formatUptime d) =
    Some (if d < 3600000000000 then d div 1000000000 else 60 * (d div 60000000000))"
proof -
  have three: "3 = Suc (Suc (Suc 0))" by simp
  have m: "d div 60000000000 = d div 1000000000 div 60" "d div 3600000000000 = d div 60000000000 div 60"
    by (simp_all flip: div_mult2_eq add: zdiv_zmult2_eq)
  have split: "60 * (n div 60) + n mod 60 = (n :: int)" for n by simp
  have hours: "3600 * (d div 3600000000000) = 60 * (60 * (d div 60000000000 div 60))" by (simp add: m(2))
  consider (s) "d < 60000000000" | (m) "\<not> d < 60000000000" "d < 3600000000000" | (h) "\<not> d < 3600000000000" by linarith
  then show ?thesis
  proof cases
    case s
    then show ?thesis using assms unfolding three by (simp add: formatUptime_def Let_def)
  next
    case m
    let ?s = "d div 1000000000"
    have "?s mod 60 > 0 \<or> ?s mod 60 = 0" using pos_mod_sign [of 60 ?s] by linarith
    then show ?thesis using assms m split [of ?s] \<open>d div 60000000000 = ?s div 60\<close> unfolding three
      by (auto simp: formatUptime_def Let_def)
  next
    case h
    let ?m = "d div 60000000000"
    have "?m mod 60 > 0 \<or> ?m mod 60 = 0" using pos_mod_sign [of 60 ?m] by linarith
    moreover have "60 * (60 * (?m div 60)) + 60 * (?m mod 60) = 60 * ?m"
      using split [of ?m] by (metis distrib_left)
    ultimately show ?thesis using assms h hours unfolding three
      by (auto simp: formatUptime_def Let_def)
  qed
qed

theorem uptime_reads_back_witness:
  "formatUptime 3725000000000 = ''1'' @ unit_hours @ ''2'' @ unit_minutes \<and> read_units 3 (formatUptime 3725000000000) = Some 3720"
proof
  show "formatUptime 3725000000000 = ''1'' @ unit_hours @ ''2'' @ unit_minutes" by code_simp
  show "read_units 3 (formatUptime 3725000000000) = Some 3720" using uptime_reads_back [of 3725000000000] by simp
qed

subsection \<open>The handler\<close>

record healthData =
  hd_status :: string
  hd_uptime :: string
  hd_started :: string
  hd_checks :: "(string, string) gomap"

definition health_value :: "healthData \<Rightarrow> goval" where
  "health_value d =
     GStruct [GString (hd_status d), GString (hd_uptime d), GString (hd_started d),
       GMap (map (\<lambda>(k, v). (k, GString v)) (hd_checks d))]"

type_synonym healthCheck = "string \<times> (Request \<Rightarrow> string option)"

fun check_loop :: "Request \<Rightarrow> healthCheck list \<Rightarrow> bool \<times> (string, string) gomap \<Rightarrow> bool \<times> (string, string) gomap" where
  "check_loop r [] acc = acc"
| "check_loop r ((name, fn) # cs) (allOK, out) =
     (case fn r of
        Some err \<Rightarrow> check_loop r cs (False, AList.update name err out)
      | None \<Rightarrow> check_loop r cs (allOK, AList.update name ''ok'' out))"

definition healthHandler ::
    "(goval \<Rightarrow> string option) \<Rightarrow> int \<Rightarrow> int \<Rightarrow> string \<Rightarrow> healthCheck list \<Rightarrow> bool option \<Rightarrow> 'h Context \<Rightarrow> 'h Context" where
  "healthHandler marshal now uptime started_at checks shuttingDown c =
     (let d = \<lparr>hd_status = msg_running, hd_uptime = formatUptime uptime, hd_started = started_at, hd_checks = []\<rparr>
      in if shuttingDown = Some True then
           JSONResponse marshal now 503 msg_server_closing (Some (health_value (d\<lparr>hd_status := msg_closing\<rparr>))) c
         else (let (allOK, results) = check_loop (request c) checks (True, []);
                   d = d\<lparr>hd_checks := results\<rparr>
               in if \<not> allOK then
                    JSONResponse marshal now 503 msg_check_failed (Some (health_value (d\<lparr>hd_status := msg_unhealthy\<rparr>))) c
                  else Success marshal now ''ok'' (Some (health_value d)) c))"

lemma check_loop_ok: "fst (check_loop r cs (b, out)) = (b \<and> list_all (\<lambda>(name, fn). fn r = None) cs)"
  by (induction cs arbitrary: b out) (auto split: option.split prod.split)

text \<open>A probe says 200 exactly when the server is healthy: the answer is 503 when it is shutting
  down (for the readiness probe) and when any check fails, even if a later check has the same
  name and succeeds; otherwise it is 200.\<close>

theorem probe_status:
  assumes "\<not> wrote c" "w_stack (writer c) = []" "w_log (writer c) = []"
  shows "sent_status (w_log (writer (healthHandler marshal now uptime started_at checks shuttingDown c))) =
     (if shuttingDown = Some True \<or> list_ex (\<lambda>(name, fn). fn (request c) \<noteq> None) checks then 503 else 200)"
proof -
  have "list_all (\<lambda>(name, fn). fn (request c) = None) checks = (\<not> list_ex (\<lambda>(name, fn). fn (request c) \<noteq> None) checks)"
    by (induction checks) auto
  then show ?thesis
    using assms check_loop_ok [of "request c" checks True "[]"]
    by (auto simp: healthHandler_def JSONResponse_def Success_def writeStandardized_def Let_def write_bytes_def
        writeHeader_def setContentType_def StatusCode_def split: prod.split)
qed

theorem probe_status_witness:
  "sent_status (w_log (writer (healthHandler (\<lambda>_. None) 17 5 ''2024'' [(''db'', \<lambda>r. Some ''down''), (''db'', \<lambda>r. None)] (Some False)
     (NewContext new_writer nil_request :: nat Context)))) = 503"
  using probe_status [of "NewContext new_writer nil_request :: nat Context" "\<lambda>_. None" 17 5 "''2024''"
      "[(''db'', \<lambda>r. Some ''down''), (''db'', \<lambda>r. None)]" "Some False"]
  by (simp add: NewContext_def new_writer_def)

end
