(* ===== verification/Probes.thy ===== *)
theory Probes
  imports Health ServerStart
begin

text \<open>
  The three probes of a server, from their handlers to their answers: \<open>healthHandler\<close> as a
  program of the chain, the table \<open>probeEndpoints\<close> of \<open>Start\<close>, its mounting, and the request.
\<close>

subsection \<open>The handlers as programs\<close>

definition probe_op ::
    "(goval \<Rightarrow> string option) \<Rightarrow> int \<Rightarrow> int \<Rightarrow> string \<Rightarrow> healthCheck list \<Rightarrow> bool option \<Rightarrow> Request \<Rightarrow> ctx_op" where
  "probe_op marshal now uptime started_at checks shuttingDown r =
     (let d = \<lparr>hd_status = msg_running, hd_uptime = formatUptime uptime, hd_started = started_at, hd_checks = []\<rparr>;
          answer = (\<lambda>st msg code d. OpStandardized now st msg (Some (health_value d)) (marshal (health_value d)) code)
      in if shuttingDown = Some True then answer 503 msg_server_closing 503 (d\<lparr>hd_status := msg_closing\<rparr>)
         else (let (allOK, results) = check_loop r checks (True, []);
                   d = d\<lparr>hd_checks := results\<rparr>
               in if \<not> allOK then answer 503 msg_check_failed 503 (d\<lparr>hd_status := msg_unhealthy\<rparr>)
                  else answer 200 ''ok'' 0 d))"

definition probe_handler ::
    "(goval \<Rightarrow> string option) \<Rightarrow> int \<Rightarrow> int \<Rightarrow> string \<Rightarrow> healthCheck list \<Rightarrow> bool option \<Rightarrow> handler" where
  "probe_handler marshal now uptime started_at checks shuttingDown =
     Do (OpWith (\<lambda>v. probe_op marshal now uptime started_at checks shuttingDown (request v))) Return"

lemma standardized_marshalled:
  "writeStandardized (\<lambda>_. marshal v) now st msg (Some v) code c = writeStandardized marshal now st msg (Some v) code c"
  by (simp add: writeStandardized_def envelope_def)

lemma probe_runs_healthHandler:
  "exec n (probe_handler marshal now uptime started_at checks shuttingDown) c =
     Some (healthHandler marshal now uptime started_at checks shuttingDown c, Returned)"
  by (simp add: probe_handler_def probe_op_def view_def healthHandler_def JSONResponse_def Success_def
      standardized_marshalled Let_def split: prod.split)

lemma healthHandler_frame [simp]:
  "index (healthHandler marshal now uptime started_at checks sd c) = index c"
  "handlers_of (healthHandler marshal now uptime started_at checks sd c) = handlers_of c"
  by (simp_all add: healthHandler_def JSONResponse_def Success_def writeStandardized_def write_bytes_def
      writeHeader_def Let_def split: prod.split)

subsection \<open>The table of Start\<close>

text \<open>The clock, the encoder, the check functions and the flag \<open>shuttingDown\<close> at the time of a request.\<close>

record 'f probe_env =
  pr_marshal :: "goval \<Rightarrow> string option"
  pr_now :: int
  pr_uptime :: int
  pr_started :: string
  pr_check :: "'f \<Rightarrow> Request \<Rightarrow> string option"
  pr_shutting :: bool

definition probeEndpoints :: "'f probe_env \<Rightarrow> ('f, 't) Server \<Rightarrow> (string \<times> (string \<times> 'f) list \<times> bool option) list" where
  "probeEndpoints pe s =
     [(HealthPath (config s), healthChecks s, None), (LivenessPath (config s), livenessChecks s, None),
      (ReadinessPath (config s), readinessChecks s, Some (pr_shutting pe))]"

definition endpoint_handler :: "'f probe_env \<Rightarrow> (string \<times> 'f) list \<times> bool option \<Rightarrow> handler" where
  "endpoint_handler pe e =
     probe_handler (pr_marshal pe) (pr_now pe) (pr_uptime pe) (pr_started pe)
       (map (\<lambda>(name, fn). (name, pr_check pe fn)) (fst e)) (snd e)"

definition start_probes :: "'f probe_env \<Rightarrow> ('f, 't) Server \<Rightarrow> handler \<times> handler \<times> handler" where
  "start_probes pe s =
     (endpoint_handler pe (healthChecks s, None), endpoint_handler pe (livenessChecks s, None),
      endpoint_handler pe (readinessChecks s, Some (pr_shutting pe)))"

subsection \<open>Probes are mounted and answer\<close>

definition probe_stored :: "string \<Rightarrow> handler \<Rightarrow> (handler, 'f) Router \<Rightarrow> bool" where
  "probe_stored path h rt \<longleftrightarrow> (\<forall>ls. list_all clean_literal ls \<and> path = path_of ls \<longrightarrow>
     stored rt (map Lit ls) ''GET'' (ChainHandler [h] []) False)"

lemma probe_stored_Handle: "probe_stored path h rt \<Longrightarrow> probe_stored path h (fst (Handle m p chain rt))"
  using Handle_stored unfolding probe_stored_def by blast

lemma probe_stored_mount: "mount_probes s ps rt = (rt', None) \<Longrightarrow> probe_stored path h rt \<Longrightarrow> probe_stored path h rt'"
proof (induction s ps rt rule: mount_probes.induct)
  case (2 s p k ps rt)
  then show ?case
    using probe_stored_Handle [of path h rt "''GET''" p "[k]"] by (auto split: option.splits bool.splits prod.splits)
qed simp

lemma mount_probes_stored:
  "mount_probes s ps rt = (rt', None) \<Longrightarrow> wf_root (root rt) \<Longrightarrow> (path, h) \<in> set ps \<Longrightarrow> hasRoute path s = Some False \<Longrightarrow>
     probe_stored path h rt'"
proof (induction s ps rt rule: mount_probes.induct)
  case (2 s p k ps rt)
  show ?case
  proof (cases "hasRoute p s")
    case (Some b)
    show ?thesis
    proof (cases b)
      case True
      with Some 2(3,5,6) have "mount_probes s ps rt = (rt', None)" "(path, h) \<in> set ps" by auto
      with Some True 2(1) [OF _ _ _ 2(4) _ 2(6)] show ?thesis by simp
    next
      case False
      with Some 2(3) obtain rt1 where h: "Handle ''GET'' p [k] rt = (rt1, None)" and m: "mount_probes s ps rt1 = (rt', None)"
        by (auto split: prod.splits option.splits)
      show ?thesis
      proof (cases "(path, h) = (p, k)")
        case True
        then have "probe_stored path h rt1"
          using Handle_literal_stored [OF 2(4)] h unfolding probe_stored_def by auto
        with m show ?thesis by (rule probe_stored_mount)
      next
        case other: False
        have "wf_root (root rt1)" using Handle_wf [OF 2(4)] h by (metis fst_conv)
        with other 2(2) [OF Some _ h [symmetric]] False m 2(5,6) show ?thesis by auto
      qed
    qed
  qed (use 2 in simp)
qed simp

lemma Start_probes:
  assumes "Start env s = (s', Inr (rt, chain))" and "env_probes env = start_probes pe s"
  obtains rt3 where "wf_root (root rt3)"
    and "mount_probes s' (map (\<lambda>(p, e). (p, endpoint_handler pe e)) (probeEndpoints pe s')) rt3 = (rt, None)"
proof -
  from Start_mounts [OF assms(1)] obtain rt0 where m: "mount_all (env_probes env) s' rt0 = (rt, None)" "root rt0 = None" by metis
  have same: "healthChecks s' = healthChecks s" "livenessChecks s' = livenessChecks s" "readinessChecks s' = readinessChecks s"
    using assms(1) by (auto simp: Start_def Let_def split: if_splits option.splits prod.splits)
  from m(1) obtain rt1 rt2 rt3 where
    m1: "mount_static (staticEntries s') rt0 = (rt1, None)"
    and m2: "mount_routes (trustedNets (config s')) (routes s') rt1 = (rt2, None)"
    and m3: "mount_groups (trustedNets (config s')) (routeGroups s') rt2 = (rt3, None)"
    and m4: "mount_probes s' (map (\<lambda>(p, e). (p, endpoint_handler pe e)) (probeEndpoints pe s')) rt3 = (rt, None)"
    by (auto simp: mount_all_def assms(2) start_probes_def probeEndpoints_def same split: prod.splits option.splits)
  have "wf_root (root rt1)" by (rule mount_static_wf [OF m1]) (simp add: m(2) wf_root_def)
  from mount_groups_mounted [OF m3] mount_routes_mounted [OF m2 this] have "wf_root (root rt3)" by blast
  with m4 that show ?thesis by blast
qed

text \<open>C21. The probes of a started server answer: a probe whose path has no route of the user is dispatched
  to its handler and nothing else, and the answer is 503 when one of its checks fails, and for
  readiness also as soon as the server is shutting down, else 200.\<close>

theorem probes_answer:
  assumes "Start env s = (s', Inr (rt, chain))" and "env_probes env = start_probes pe s"
    and "(path_of ls, checks, sd) \<in> set (probeEndpoints pe s')" and "hasRoute (path_of ls) s' = Some False"
    and "ls \<noteq> []" and "list_all path_value ls" and "list_all clean_literal ls"
    and "\<not> aborted c" and "\<not> wrote c" and "w_stack (writer c) = []" and "w_log (writer c) = []"
  shows "\<exists>h c'. serve rt ''GET'' (path_of ls) = Dispatch (ChainHandler [h] []) []
    \<and> Run 2 (SetHandlers [h] c) = Some (c', Returned)
    \<and> sent_status (w_log (writer c')) =
        (if sd = Some True \<or> list_ex (\<lambda>(name, fn). pr_check pe fn (request c) \<noteq> None) checks then 503 else 200)"
proof -
  let ?h = "endpoint_handler pe (checks, sd)"
  obtain rt3 where "wf_root (root rt3)"
      and "mount_probes s' (map (\<lambda>(p, e). (p, endpoint_handler pe e)) (probeEndpoints pe s')) rt3 = (rt, None)"
    using Start_probes [OF assms(1,2)] by blast
  moreover have "(path_of ls, ?h) \<in> set (map (\<lambda>(p, e). (p, endpoint_handler pe e)) (probeEndpoints pe s'))"
    using assms(3) by force
  ultimately have "probe_stored (path_of ls) ?h rt" using mount_probes_stored assms(4) by blast
  then have "serve rt ''GET'' (path_of ls) = Dispatch (ChainHandler [?h] []) []"
    using stored_literal_serve assms(5-7) unfolding probe_stored_def by blast
  moreover define c1 where "c1 = healthHandler (pr_marshal pe) (pr_now pe) (pr_uptime pe) (pr_started pe)
     (map (\<lambda>(name, fn). (name, pr_check pe fn)) checks) sd (c\<lparr>handlers_of := [?h], index := 0\<rparr>)"
  have "exec 1 ?h (c\<lparr>handlers_of := [?h], index := 0\<rparr>) = Some (c1, Returned)"
    by (simp add: c1_def endpoint_handler_def probe_runs_healthHandler)
  then have "Run 2 (SetHandlers [?h] c) = Some (c1\<lparr>index := 1\<rparr>, Returned)"
    using assms(8) by (simp add: Run_def Next_def SetHandlers_def numeral_2_eq_2) (simp add: c1_def)
  moreover have "sent_status (w_log (writer (c1\<lparr>index := 1\<rparr>))) =
     (if sd = Some True \<or> list_ex (\<lambda>(name, fn). pr_check pe fn (request c) \<noteq> None) checks then 503 else 200)"
    using probe_status [of "c\<lparr>handlers_of := [?h], index := 0\<rparr>"] assms(9-11) by (simp add: c1_def list_ex_iff case_prod_beta)
  ultimately show ?thesis by blast
qed

text \<open>A server that is shutting down: its readiness probe.\<close>

definition closing_probes :: "nat probe_env" where
  "closing_probes = \<lparr>pr_marshal = (\<lambda>_. None), pr_now = 17, pr_uptime = 5, pr_started = ''2024'',
     pr_check = (\<lambda>_ _. None), pr_shutting = True\<rparr>"

definition closing_start :: "(nat, nat) Server \<times> (start_error + (handler, nat) Router \<times> nat middleware_value list)" where
  "closing_start = Start (demo_env\<lparr>env_probes := start_probes closing_probes demo_server\<rparr>) demo_server"

theorem probes_answer_witness:
  "\<exists>s' rt chain h c'. closing_start = (s', Inr (rt, chain))
    \<and> serve rt ''GET'' ''/readyz'' = Dispatch (ChainHandler [h] []) []
    \<and> Run 2 (SetHandlers [h] (NewContext new_writer nil_request)) = Some (c', Returned)
    \<and> sent_status (w_log (writer c')) = 503"
proof -
  have ok: "(case closing_start of (s', Inr r) \<Rightarrow> ReadinessPath (config s') = ''/readyz'' \<and> readinessChecks s' = []
      \<and> hasRoute ''/readyz'' s' = Some False | (s', Inl e) \<Rightarrow> False)" by code_simp
  then obtain s' rt chain where st: "closing_start = (s', Inr (rt, chain))"
      and facts: "ReadinessPath (config s') = ''/readyz''" "readinessChecks s' = []" "hasRoute ''/readyz'' s' = Some False"
    by (auto split: prod.splits sum.splits)
  have ls: "path_of [''readyz''] = ''/readyz''" "list_all path_value [''readyz'']" "list_all clean_literal [''readyz'']" by code_simp+
  have "(path_of [''readyz''], [], Some True) \<in> set (probeEndpoints closing_probes s')"
    by (simp add: probeEndpoints_def facts ls closing_probes_def)
  from probes_answer [OF st [unfolded closing_start_def] _ this, of "NewContext new_writer nil_request"] facts(3) ls st
  show ?thesis by (simp add: NewContext_def new_writer_def) blast
qed

end
