(* ===== verification/Brackets.thy ===== *)
theory Brackets
  imports Pipeline
begin

text \<open>
  Every built-in middleware of the server cut in two at its call of \<open>next.ServeHTTP\<close>: what it does before the
  call (\<open>enter\<close>), which either answers the request or passes it on, and what it does after
  the handler behind it has returned or panicked (the deferred and the following code), a
  closure over what the first part knows. \<open>bracket\<close> puts the two together again and
  gives the middleware back, so that a request can be stopped between any two middlewares.
\<close>

subsection \<open>Brackets\<close>

type_synonym ('s, 'h) leave = "'s \<times> 'h Context \<Rightarrow> ending \<Rightarrow> ('s \<times> 'h Context) \<times> ending"

datatype ('s, 'h) entered = Answered "'s \<times> 'h Context" | Passed "'s \<times> 'h Context" "('s, 'h) leave"

type_synonym ('s, 'h) enter = "'s \<times> 'h Context \<Rightarrow> ('s, 'h) entered"

definition bracket :: "('s, 'h) enter \<Rightarrow> ('s, 'h) http_handler \<Rightarrow> ('s, 'h) http_handler" where
  "bracket enter h sc =
     (case enter sc of
        Answered sc1 \<Rightarrow> (sc1, Returned)
      | Passed sc1 leave \<Rightarrow> (case h sc1 of (sc2, e) \<Rightarrow> leave sc2 e))"

definition keep :: "('s, 'h) leave" where
  "keep sc e = (sc, e)"

subsection \<open>The built-in middlewares\<close>

definition enter_recovery ::
    "('s, log_entry list) ptr option \<Rightarrow> ('s, Metrics) ptr option \<Rightarrow> bool \<Rightarrow> panic_env \<Rightarrow> (goval \<Rightarrow> string option) \<Rightarrow> int
      \<Rightarrow> ('s, 'h) enter" where
  "enter_recovery logs m debugMode pe marshal now sc =
     Passed sc (\<lambda>sc1 e. (case e of Returned \<Rightarrow> sc1 | Panicked \<Rightarrow> recovered logs m debugMode pe marshal now sc1, Returned))"

definition enter_request_id :: "string \<Rightarrow> string \<Rightarrow> ('s, 'h) enter" where
  "enter_request_id opt_header generated sc =
     (case sc of (s, c) \<Rightarrow>
        (let canonical = canonical_key (if opt_header = [] then ''X-Request-ID'' else opt_header);
             given = GetHeaderCanonical canonical c;
             requestID = (if given = [] then generated else given);
             c1 = on_header (header_set canonical requestID) (Set_val ''requestId'' (StrVal requestID) c);
             r = request c1
         in Passed (s, SetRequest (r\<lparr>req_header := header_set canonical requestID (req_header r)\<rparr>) c1) keep))"

definition enter_body_limit :: "int \<Rightarrow> string \<Rightarrow> (goval \<Rightarrow> string option) \<Rightarrow> int \<Rightarrow> ('s, 'h) enter" where
  "enter_body_limit maxBytes message marshal now sc =
     (case sc of (s, c) \<Rightarrow>
        (let msg = (if message = [] then msg_body_too_large else message); r = request c
         in if maxBytes \<le> 0 then Passed (s, c) keep
            else if content_length r > maxBytes then Answered (s, AbortWithStatusJSON marshal now 413 msg None c)
            else Passed (s, SetRequest (r\<lparr>body_limits := maxBytes # body_limits r\<rparr>) c) keep))"

definition enter_concurrency ::
    "('s, ConcurrencyLimiter) ptr \<Rightarrow> (goval \<Rightarrow> string option) \<Rightarrow> int \<Rightarrow> ('s, 'h) enter" where
  "enter_concurrency p marshal now sc =
     (case sc of (s, c) \<Rightarrow>
        (case TryAcquire (deref p s) of
           (False, l1) \<Rightarrow>
             (let c1 = c\<lparr>writer := map_header (header_set ''Retry-After'' ''1'') (writer c)\<rparr>;
                  msg = (case rejectMsg l1 of None \<Rightarrow> msg_too_busy | Some p \<Rightarrow> if p \<noteq> [] then p else msg_too_busy)
              in Answered (assign p l1 s, AbortWithStatusJSON marshal now 503 msg None c1))
         | (True, l1) \<Rightarrow> Passed (assign p l1 s, c) (\<lambda>(s2, c2) e. ((modify p Release s2, c2), e))))"

definition enter_rate_limit ::
    "('s, 't RateLimiter) ptr \<Rightarrow> 't bucket_impl \<Rightarrow> (string \<Rightarrow> 8 word list option) \<Rightarrow> (goval \<Rightarrow> string option) \<Rightarrow> int
      \<Rightarrow> ('h Context \<Rightarrow> string) option \<Rightarrow> ('s, 'h) enter" where
  "enter_rate_limit p impl parse_ip marshal now key_fn sc =
     (case sc of (s, c) \<Rightarrow>
        (let key = (case key_fn of None \<Rightarrow> RemoteIP parse_ip c | Some f \<Rightarrow> f c)
         in case Allow impl parse_ip now key (deref p s) of
              (False, rl1) \<Rightarrow>
                (let retry = RetryAfter impl now key rl1;
                     c1 = (if retry > 0 then
                             c\<lparr>writer := map_header (header_set ''Retry-After'' (itoa (retry div 1000000000))) (writer c)\<rparr>
                           else c);
                     msg = (if rl_rejectMsg rl1 = [] then msg_rate_limited else rl_rejectMsg rl1)
                 in Answered (assign p rl1 s, AbortWithStatusJSON marshal (now div 1000000) 429 msg None c1))
            | (True, rl1) \<Rightarrow> Passed (assign p rl1 s, c) keep))"

definition leave_timeout :: "nat \<Rightarrow> string \<Rightarrow> (goval \<Rightarrow> string option) \<Rightarrow> int \<Rightarrow> ('s, 'h) leave" where
  "leave_timeout n msg marshal now sc e =
     (case sc of (s1, c1) \<Rightarrow>
        (case e of
           Panicked \<Rightarrow> ((s1, SetWriter (cancel_timeout n (writer c1)) c1), Panicked)
         | Returned \<Rightarrow>
             (let c2 = SetWriter (restore_writer n (writer c1)) c1
              in case w_stack (writer c1) ! base_index n (writer c1) of
                   TimeoutW t \<Rightarrow>
                     (if timedOut t \<and> \<not> wroteHeader t
                      then ((s1, AbortWithStatusJSON marshal now 503 msg None (ResetWriteState c2)), Returned)
                      else ((s1, c2), Returned))
                 | _ \<Rightarrow> ((s1, c2), Returned))))"

definition enter_timeout :: "int \<Rightarrow> string \<Rightarrow> nat \<Rightarrow> (goval \<Rightarrow> string option) \<Rightarrow> int \<Rightarrow> ('s, 'h) enter" where
  "enter_timeout timeout message calls_before marshal now sc =
     (case sc of (s, c) \<Rightarrow>
        (if timeout \<le> 0 then Passed (s, c) keep
         else
           (let tw = TimeoutW \<lparr>tw_before = calls_before, tw_cancelled = False, timedOut = False, wroteHeader = False\<rparr>
            in Passed (s, SetWriter (push_wrapper tw (writer c)) c)
                 (leave_timeout (length (w_stack (writer c))) (if message = [] then msg_timeout else message) marshal now))))"

definition enter_cors :: "CORSConfig \<Rightarrow> ('s, 'h) enter" where
  "enter_cors cfg sc =
     (case sc of (s, c) \<Rightarrow>
        (let c1 = on_header (cors_headers cfg (header_get (req_header (request c)) ''Origin'')) c
         in if req_method (request c) = ''OPTIONS'' then Answered (s, call_writer [CWriteHeader 204] c1)
            else Passed (s, c1) keep))"

definition enter_validation :: "(string \<Rightarrow> string) \<Rightarrow> (goval \<Rightarrow> string option) \<Rightarrow> int \<Rightarrow> ('s, 'h) enter" where
  "enter_validation error_text marshal now sc =
     (case sc of (s, c) \<Rightarrow>
        (case http_request_rule (req_method (request c)) (header_get (req_header (request c)) ''Content-Type'')
                (content_length (request c)) of
           Some msg \<Rightarrow> Answered (s, AbortWithStatusJSON marshal now 400 (error_text msg) None c)
         | None \<Rightarrow> Passed (s, c) keep))"

definition enter_security :: "SecurityHeadersOptions \<Rightarrow> ('s, 'h) enter" where
  "enter_security opts sc = (case sc of (s, c) \<Rightarrow> Passed (s, on_header (security_headers opts) c) keep)"

definition leave_gzip :: "nat \<Rightarrow> ('s, 'h) leave" where
  "leave_gzip n sc e =
     (case sc of (s1, c1) \<Rightarrow>
        (case e of
           Panicked \<Rightarrow> ((s1, c1), Panicked)
         | Returned \<Rightarrow>
             (let w = restore_writer n (writer c1)
              in case w_stack (writer c1) ! base_index n (writer c1) of
                   GzipW g \<Rightarrow> ((s1, SetWriter (close_gzip g w) c1), Returned)
                 | _ \<Rightarrow> ((s1, SetWriter w c1), Returned))))"

definition enter_gzip :: "(int \<Rightarrow> gz_input list \<Rightarrow> gz_input \<Rightarrow> string list) \<Rightarrow> GzipOptions \<Rightarrow> ('s, 'h) enter" where
  "enter_gzip compressor opts sc =
     (case sc of (s, c) \<Rightarrow>
        (if \<not> acceptsGzip (header_get (req_header (request c)) ''Accept-Encoding'') then Passed (s, c) keep
         else Passed (s, SetWriter (push_wrapper (GzipW (new_gzipWriter (compressor (gzip_level opts)) (gzip_min_size opts))) (writer c)) c)
                (leave_gzip (length (w_stack (writer c))))))"

definition enter_metrics :: "('s, Metrics) ptr \<Rightarrow> 64 word \<Rightarrow> ('s, 'h) enter" where
  "enter_metrics m elapsed sc =
     (case sc of (s, c) \<Rightarrow>
        Passed (modify m (run_ops begin_ops) s, c)
          (\<lambda>(s1, c1) e. ((modify m (run_ops (finish_ops (e = Panicked) c1 elapsed)) s1, c1), e)))"

definition leave_access_log ::
    "('s, log_entry list) ptr \<Rightarrow> AccessLogOptions \<Rightarrow> log_env \<Rightarrow> nat \<Rightarrow> Request \<Rightarrow> ('s, 'h) leave" where
  "leave_access_log logs opts env n r sc e =
     (case sc of (s1, c1) \<Rightarrow>
        (case e of
           Panicked \<Rightarrow> ((s1, c1), Panicked)
         | Returned \<Rightarrow>
             (let sent = (case w_stack (writer c1) ! base_index n (writer c1) of CountW w \<Rightarrow> cw_n w | _ \<Rightarrow> 0);
                  c2 = SetWriter (restore_writer n (writer c1)) c1
              in ((modify logs (\<lambda>es. es @ log_entries opts env sent (logged_request r c2) c2) s1, c2), Returned))))"

definition enter_access_log :: "('s, log_entry list) ptr \<Rightarrow> AccessLogOptions \<Rightarrow> log_env \<Rightarrow> ('s, 'h) enter" where
  "enter_access_log logs opts env sc =
     (case sc of (s, c) \<Rightarrow>
        Passed (s, SetWriter (push_wrapper (CountW \<lparr>cw_n = 0\<rparr>) (writer c)) c)
          (leave_access_log logs opts env (length (w_stack (writer c))) (request c)))"

lemma bracket_recovery:
  "RecoveryWithOptions logs m d pe marshal now = bracket (enter_recovery logs m d pe marshal now)"
  by (intro ext) (auto simp: bracket_def enter_recovery_def RecoveryWithOptions_def split: prod.splits ending.splits)

lemmas bracket_simps = bracket_def keep_def Let_def

lemma bracket_request_id: "RequestIDWithOptions name g = bracket (enter_request_id name g)"
  by (intro ext) (simp add: bracket_simps enter_request_id_def RequestIDWithOptions_def split: prod.split)

lemma bracket_body_limit: "BodyLimitWithOptions n msg marshal now = bracket (enter_body_limit n msg marshal now)"
  by (intro ext) (simp add: bracket_simps enter_body_limit_def BodyLimitWithOptions_def split: prod.split)

lemma bracket_concurrency: "ConcurrencyLimit p marshal now = bracket (enter_concurrency p marshal now)"
  by (intro ext) (simp add: bracket_simps enter_concurrency_def ConcurrencyLimit_def split: prod.split bool.split)

lemma bracket_rate_limit:
  "RateLimit p impl parse_ip marshal now key = bracket (enter_rate_limit p impl parse_ip marshal now key)"
  by (intro ext) (simp add: bracket_simps enter_rate_limit_def RateLimit_def split: prod.split bool.split)

lemma bracket_timeout: "TimeoutWithOptions t msg k marshal now = bracket (enter_timeout t msg k marshal now)"
  by (intro ext) (auto simp: bracket_simps enter_timeout_def leave_timeout_def TimeoutWithOptions_def split: prod.split ending.split)

lemma bracket_cors: "CORS cfg = bracket (enter_cors cfg)"
  by (intro ext) (simp add: bracket_simps enter_cors_def CORS_def split: prod.split)

lemma bracket_validation: "Validation et marshal now = bracket (enter_validation et marshal now)"
  by (intro ext) (simp add: bracket_simps enter_validation_def Validation_def split: prod.split option.split)

lemma bracket_security: "SecurityHeaders opts = bracket (enter_security opts)"
  by (intro ext) (simp add: bracket_simps enter_security_def SecurityHeaders_def split: prod.split)

lemma bracket_gzip: "GzipWithOptions codec opts = bracket (enter_gzip codec opts)"
  by (intro ext) (auto simp: bracket_simps enter_gzip_def leave_gzip_def GzipWithOptions_def split: prod.split ending.split)

lemma bracket_metrics: "MetricsHandler m elapsed = bracket (enter_metrics m elapsed)"
  by (intro ext) (simp add: bracket_simps enter_metrics_def MetricsHandler_def split: prod.split)

lemma bracket_access_log: "AccessLog logs opts env = bracket (enter_access_log logs opts env)"
  by (intro ext) (auto simp: bracket_simps enter_access_log_def leave_access_log_def AccessLog_def split: prod.split ending.split)

lemmas bracket_builtin = bracket_recovery bracket_request_id bracket_body_limit bracket_concurrency bracket_timeout
  bracket_cors bracket_validation bracket_security bracket_gzip bracket_metrics bracket_access_log

subsection \<open>The chain of a server\<close>

text \<open>\<open>dp_enter\<close> cuts the middlewares of the user in the same way; one that calls the handler
  behind it several times, or in a goroutine of its own, has no such cut.\<close>

record ('f, 'd, 't) deployment =
  dp_runtime :: "('f, 'd, 't) runtime"
  dp_enter :: "'f \<Rightarrow> (('d, 't) shared, handler) enter"
  dp_server :: "('f, 't) Server"
  dp_chain :: "'f middleware_value list"
  dp_router :: "(handler, 'f) Router"

definition enter_builtin ::
    "('f, 'd, 't) runtime \<Rightarrow> ('f, 't) Server \<Rightarrow> request_env \<Rightarrow> string \<Rightarrow> (('d, 't) shared, handler) enter" where
  "enter_builtin rt s q key =
     (let c = config s; m = rt_marshal rt
      in if key = ''recovery'' then enter_recovery (Some log_ptr) (Some metrics_ptr) (Debug c) (re_panic q) m (millis q)
         else if key = ''request_id'' then
           enter_request_id (rid_Header (requestIDOpts s))
             (case rid_Generator (requestIDOpts s) of
                None \<Rightarrow> newRequestID (re_random q) (re_now q) | Some f \<Rightarrow> rt_generate rt f)
         else if key = ''body_limit'' then
           enter_body_limit (MaxBodyBytes c) (message_for s ''body_too_large'') m (millis q)
         else if key = ''concurrency_limit'' then enter_concurrency limiter_ptr m (millis q)
         else if key = ''timeout'' then
           enter_timeout (RequestTimeout c) (message_for s ''timeout'') (re_deadline q) m (millis q)
         else if key = ''cors'' then enter_cors (cors_config c)
         else if key = ''validation'' then enter_validation (rt_error_text rt) m (millis q)
         else if key = ''security'' then enter_security (security_options c)
         else if key = ''gzip'' then enter_gzip (rt_compress rt) (gzip_options c)
         else if key = ''metrics'' then enter_metrics metrics_ptr (re_elapsed q)
         else enter_access_log log_ptr (access_log_options c) (re_log q))"

fun enter_of ::
    "('f, 'd, 't) deployment \<Rightarrow> request_env \<Rightarrow> 'f middleware_value \<Rightarrow> (('d, 't) shared, handler) enter" where
  "enter_of D q (Builtin key) = enter_builtin (dp_runtime D) (dp_server D) q key"
| "enter_of D q RateLimitMiddleware =
     enter_rate_limit rate_ptr (rt_bucket (dp_runtime D)) (rt_parse_ip (dp_runtime D)) (rt_marshal (dp_runtime D)) (re_now q)
       (case rateLimiter (dp_server D) of Some (_, Some f) \<Rightarrow> Some (rt_key (dp_runtime D) f) | _ \<Rightarrow> None)"
| "enter_of D q (External f) = dp_enter D f"

definition bracketed :: "('f, 'd, 't) deployment \<Rightarrow> bool" where
  "bracketed D \<longleftrightarrow> rt_middleware (dp_runtime D) = (\<lambda>f. bracket (dp_enter D f))"

lemma builtin_bracket: "builtin_middleware rt s q key = bracket (enter_builtin rt s q key)"
  by (simp add: builtin_middleware_def enter_builtin_def Let_def bracket_builtin)

lemma middleware_bracket:
  "bracketed D \<Longrightarrow> middleware_of (dp_runtime D) (dp_server D) q m = bracket (enter_of D q m)"
  by (cases m) (simp_all add: bracketed_def builtin_bracket bracket_rate_limit split: option.split)

text \<open>What every built-in middleware has, the middleware of a key has.\<close>

lemma enter_builtin_cases [case_names recovery request_id body_limit concurrency_limit timeout cors validation
    security gzip metrics access_log]:
  assumes "\<And>d pe m now. key \<noteq> ''concurrency_limit'' \<Longrightarrow> key \<noteq> ''metrics'' \<Longrightarrow>
      P (enter_recovery (Some log_ptr) (Some metrics_ptr) d pe m now)"
    and "\<And>name g. key \<noteq> ''concurrency_limit'' \<Longrightarrow> key \<noteq> ''metrics'' \<Longrightarrow> P (enter_request_id name g)"
    and "\<And>k msg m now. key \<noteq> ''concurrency_limit'' \<Longrightarrow> key \<noteq> ''metrics'' \<Longrightarrow> P (enter_body_limit k msg m now)"
    and "\<And>m now. key = ''concurrency_limit'' \<Longrightarrow> P (enter_concurrency limiter_ptr m now)"
    and "\<And>t msg k m now. key \<noteq> ''concurrency_limit'' \<Longrightarrow> key \<noteq> ''metrics'' \<Longrightarrow> P (enter_timeout t msg k m now)"
    and "\<And>cfg. key \<noteq> ''concurrency_limit'' \<Longrightarrow> key \<noteq> ''metrics'' \<Longrightarrow> P (enter_cors cfg)"
    and "\<And>et m now. key \<noteq> ''concurrency_limit'' \<Longrightarrow> key \<noteq> ''metrics'' \<Longrightarrow> P (enter_validation et m now)"
    and "\<And>opts. key \<noteq> ''concurrency_limit'' \<Longrightarrow> key \<noteq> ''metrics'' \<Longrightarrow> P (enter_security opts)"
    and "\<And>codec opts. key \<noteq> ''concurrency_limit'' \<Longrightarrow> key \<noteq> ''metrics'' \<Longrightarrow> P (enter_gzip codec opts)"
    and "\<And>elapsed. key = ''metrics'' \<Longrightarrow> P (enter_metrics metrics_ptr elapsed)"
    and "\<And>opts env. key \<noteq> ''concurrency_limit'' \<Longrightarrow> key \<noteq> ''metrics'' \<Longrightarrow> P (enter_access_log log_ptr opts env)"
  shows "P (enter_builtin rt s q key)"
  using assms by (simp add: enter_builtin_def Let_def)

end
