(* ===== verification/Interleaving.thy ===== *)
theory Interleaving
  imports Brackets "HOL-Library.Multiset"
begin

text \<open>
  The server under load: many requests at once, each in its own goroutine, interleaved
  between any two middlewares. A request has a context from the pool, the middlewares it has
  still to enter, and a stack of what the middlewares it has entered will do when the handler
  behind them ends. All requests act on one \<open>shared\<close> state and on one pool of contexts.

  One step of a request is one side of one middleware, or the router with its handler chain,
  which touches the shared state at most through the file systems. That the steps of the
  limiter and of the counters may be taken as atomic is \<open>concurrency_interleaved\<close> and
  \<open>metrics_interleaving\<close>; the rate limiter holds a mutex.
\<close>

subsection \<open>One request\<close>

type_synonym ('f, 'd, 't) frame = "'f middleware_value \<times> (('d, 't) shared, handler) leave"

datatype ('f, 'd, 't) phase =
    Descend "'f middleware_value list" "('f, 'd, 't) frame list"
  | Unwind ending "('f, 'd, 't) frame list"

fun advance ::
    "('f, 'd, 't) deployment \<Rightarrow> request_env \<Rightarrow> (('d, 't) shared \<times> handler Context) \<times> ('f, 'd, 't) phase
      \<Rightarrow> (('d, 't) shared \<times> handler Context) \<times> ('f, 'd, 't) phase" where
  "advance D q (sc, Descend [] fs) =
     (case ServeHTTP (dp_runtime D) (dp_server D) q (dp_router D) sc of (sc', e) \<Rightarrow> (sc', Unwind e fs))"
| "advance D q (sc, Descend (m # ms) fs) =
     (case enter_of D q m sc of
        Answered sc' \<Rightarrow> (sc', Unwind Returned fs)
      | Passed sc' leave \<Rightarrow> (sc', Descend ms ((m, leave) # fs)))"
| "advance D q (sc, Unwind e ((m, leave) # fs)) = (case leave sc e of (sc', e') \<Rightarrow> (sc', Unwind e' fs))"
| "advance D q (sc, Unwind e []) = (sc, Unwind e [])"

fun steps_left :: "('f, 'd, 't) phase \<Rightarrow> nat" where
  "steps_left (Descend ms fs) = Suc (2 * length ms + length fs)"
| "steps_left (Unwind e fs) = length fs"

lemma advance_shrinks:
  "advance D q (sc, p) = (sc', p') \<Longrightarrow> steps_left p > 0 \<Longrightarrow> steps_left p' < steps_left p"
  by (cases "(D, q, sc, p)" rule: advance.cases) (auto split: prod.splits entered.splits)

lemma steps_left_0: "steps_left p = 0 \<longleftrightarrow> (\<exists>e. p = Unwind e [])"
  by (cases p) auto

text \<open>What a request has still to do, as one function: the machine computes the nested handlers.\<close>

fun unwind :: "('f, 'd, 't) frame list \<Rightarrow> (('d, 't) shared \<times> handler Context) \<times> ending
    \<Rightarrow> (('d, 't) shared \<times> handler Context) \<times> ending" where
  "unwind [] r = r"
| "unwind ((m, leave) # fs) r = (case r of (sc, e) \<Rightarrow> unwind fs (leave sc e))"

fun remaining ::
    "('f, 'd, 't) deployment \<Rightarrow> request_env \<Rightarrow> (('d, 't) shared \<times> handler Context) \<times> ('f, 'd, 't) phase
      \<Rightarrow> (('d, 't) shared \<times> handler Context) \<times> ending" where
  "remaining D q (sc, Descend ms fs) =
     unwind fs (root_handler (dp_runtime D) (dp_server D) q ms (dp_router D) sc)"
| "remaining D q (sc, Unwind e fs) = unwind fs (sc, e)"

lemma root_handler_simps:
  "root_handler rt s q [] router = ServeHTTP rt s q router"
  "root_handler rt s q (m # ms) router = middleware_of rt s q m (root_handler rt s q ms router)"
  by (simp_all add: root_handler_def)

lemma remaining_advance:
  assumes "bracketed D"
  shows "remaining D q (advance D q x) = remaining D q x"
  by (cases "(D, q, x)" rule: advance.cases)
    (auto simp: root_handler_simps middleware_bracket [OF assms] bracket_def split: prod.split entered.split)

text \<open>C12. The machine that runs one middleware at a time computes the nested handlers: alone on the
  server, a request that has taken \<open>2 * length chain + 1\<close> steps or more has left every middleware it
  entered, and the shared state, the context and the ending are those of the root handler.\<close>

theorem machine_runs_root:
  assumes "bracketed D" and "n > 2 * length (dp_chain D)"
  shows "(advance D q ^^ n) (sc, Descend (dp_chain D) []) =
    (case root_handler (dp_runtime D) (dp_server D) q (dp_chain D) (dp_router D) sc of (sc', e) \<Rightarrow> (sc', Unwind e []))"
proof -
  let ?x = "(sc, Descend (dp_chain D) [])"
  have left: "steps_left (snd ((advance D q ^^ k) x)) \<le> steps_left (snd x) - k" for k x
  proof (induction k)
    case (Suc k)
    obtain sc1 p1 sc2 p2 where a: "(advance D q ^^ k) x = (sc1, p1)" "advance D q (sc1, p1) = (sc2, p2)" by (metis surj_pair)
    show ?case
    proof (cases "steps_left p1 = 0")
      case True
      then obtain e where "p1 = Unwind e []" by (auto simp: steps_left_0)
      with a show ?thesis by auto
    qed (use a advance_shrinks [OF a(2)] Suc.IH in simp)
  qed simp
  obtain sc' p' where r: "(advance D q ^^ n) ?x = (sc', p')" by (metis surj_pair)
  with left [of n ?x] assms(2) obtain e where e: "p' = Unwind e []" by (auto simp: steps_left_0)
  have "remaining D q ((advance D q ^^ k) x) = remaining D q x" for k x
    by (induction k) (simp_all add: remaining_advance [OF assms(1)])
  from this [of n ?x] r e
  have "root_handler (dp_runtime D) (dp_server D) q (dp_chain D) (dp_router D) sc = (sc', e)" by simp
  with r e show ?thesis by simp
qed

text \<open>Two requests to a handler that panics, behind a limiter of two, with a middleware of the user that does
  nothing.\<close>

definition demo_deployment :: "(nat, unit, nat) deployment" where
  "demo_deployment =
     \<lparr>dp_runtime = demo_runtime, dp_enter = (\<lambda>f sc. Passed sc keep), dp_server = demo_limited,
      dp_chain = [Builtin ''recovery'', Builtin ''concurrency_limit'', External 0, Builtin ''metrics''], dp_router = demo_panicking\<rparr>"

lemma demo_bracketed: "bracketed demo_deployment"
  by (auto simp: bracketed_def demo_deployment_def demo_runtime_def bracket_def keep_def fun_eq_iff split: prod.split)

theorem machine_runs_root_witness:
  "\<exists>sc' e. (advance demo_deployment demo_request_env ^^ 9) ((demo_shared, NewContext new_writer nil_request), Descend (dp_chain demo_deployment) [])
     = (sc', Unwind e [])"
  using machine_runs_root [OF demo_bracketed, of 9] by (simp add: demo_deployment_def split: prod.split)

subsection \<open>All requests\<close>

text \<open>The contexts live in a heap and are named by their position; \<open>sy_pool\<close> holds the names of
  those put back. A request that is done keeps the context it ended with, as its client saw it.\<close>

datatype ('f, 'd, 't) progress =
    Waiting
  | Serving nat "('f, 'd, 't) phase"
  | Done "handler Context" ending

record ('f, 'd, 't) system =
  sy_shared :: "('d, 't) shared"
  sy_heap :: "handler Context list"
  sy_pool :: "nat list"
  sy_requests :: "('f, 'd, 't) progress list"

type_synonym job = "request_env \<times> Writer \<times> Request"

definition arrived :: "handler Context \<Rightarrow> job \<Rightarrow> handler Context" where
  "arrived pooled j = (case j of (q, w, r) \<Rightarrow> SetRequest r (Acquire pooled w r))"

text \<open>\<open>sync.Pool\<close> gives any context it holds, or a new one even when it holds some.\<close>

inductive serve_step ::
    "('f, 'd, 't) deployment \<Rightarrow> job list \<Rightarrow> ('f, 'd, 't) system \<Rightarrow> nat \<Rightarrow> ('f, 'd, 't) system \<Rightarrow> bool"
  for D jobs where
  take_pooled: "\<lbrakk>i < length (sy_requests y); sy_requests y ! i = Waiting; a \<in> set (sy_pool y)\<rbrakk> \<Longrightarrow>
    serve_step D jobs y i (y\<lparr>sy_pool := remove1 a (sy_pool y),
      sy_heap := (sy_heap y)[a := arrived (sy_heap y ! a) (jobs ! i)],
      sy_requests := (sy_requests y)[i := Serving a (Descend (dp_chain D) [])]\<rparr>)"
| take_new: "\<lbrakk>i < length (sy_requests y); sy_requests y ! i = Waiting\<rbrakk> \<Longrightarrow>
    serve_step D jobs y i (y\<lparr>sy_heap := sy_heap y @ [arrived (NewContext new_writer nil_request) (jobs ! i)],
      sy_requests := (sy_requests y)[i := Serving (length (sy_heap y)) (Descend (dp_chain D) [])]\<rparr>)"
| work: "\<lbrakk>i < length (sy_requests y); sy_requests y ! i = Serving a p; steps_left p > 0;
      advance D (fst (jobs ! i)) ((sy_shared y, sy_heap y ! a), p) = ((sh, c), p')\<rbrakk> \<Longrightarrow>
    serve_step D jobs y i (y\<lparr>sy_shared := sh, sy_heap := (sy_heap y)[a := c],
      sy_requests := (sy_requests y)[i := Serving a p']\<rparr>)"
| put_back: "\<lbrakk>i < length (sy_requests y); sy_requests y ! i = Serving a (Unwind e [])\<rbrakk> \<Longrightarrow>
    serve_step D jobs y i (y\<lparr>sy_pool := a # sy_pool y,
      sy_requests := (sy_requests y)[i := Done (sy_heap y ! a) e]\<rparr>)"

inductive_cases serve_stepE: "serve_step D jobs y i y'"

inductive serve_run ::
    "('f, 'd, 't) deployment \<Rightarrow> job list \<Rightarrow> ('f, 'd, 't) system \<Rightarrow> nat \<Rightarrow> ('f, 'd, 't) system \<Rightarrow> bool"
  for D jobs where
  run_refl: "serve_run D jobs y 0 y"
| run_step: "serve_run D jobs y n y' \<Longrightarrow> serve_step D jobs y' i y'' \<Longrightarrow> serve_run D jobs y (Suc n) y''"

definition opened :: "('d, 't) shared \<Rightarrow> nat \<Rightarrow> ('f, 'd, 't) system" where
  "opened sh k = \<lparr>sy_shared = sh, sy_heap = [], sy_pool = [], sy_requests = replicate k Waiting\<rparr>"

lemma invariant_run:
  assumes "serve_run D jobs y n y'" "P y"
    and "\<And>y i y'. P y \<Longrightarrow> serve_step D jobs y i y' \<Longrightarrow> P y'"
  shows "P y'"
  using assms by (induction rule: serve_run.induct) auto

subsection \<open>Counters count the requests inside\<close>

definition limiter_cost :: "'f middleware_value \<Rightarrow> int" where
  "limiter_cost m = (if m = Builtin ''concurrency_limit'' then 1 else 0)"

definition metrics_cost :: "'f middleware_value \<Rightarrow> int" where
  "metrics_cost m = (if m = Builtin ''metrics'' then 1 else 0)"

lemmas cost_defs = limiter_cost_def metrics_cost_def

definition occupy :: "int \<Rightarrow> int \<Rightarrow> int \<times> int \<times> 64 word \<Rightarrow> int \<times> int \<times> 64 word" where
  "occupy j k o' = (case o' of (n, a, g) \<Rightarrow> (n, a + j, g + of_int k))"

lemma occupy_simps [simp]:
  "occupy j k (occupy j' k' o') = occupy (j + j') (k + k') o'" "occupy 0 0 o' = o'"
  by (simp_all add: occupy_def split: prod.split)

definition frame_pays :: "('f, 'd, 't) frame \<Rightarrow> bool" where
  "frame_pays f \<longleftrightarrow> (case f of (m, leave) \<Rightarrow>
     (\<forall>s c e. occupancy (fst (fst (leave (s, c) e))) = occupy (- limiter_cost m) (- metrics_cost m) (occupancy s)))"

definition enter_pays :: "'f middleware_value \<Rightarrow> ('d, 't) shared \<Rightarrow> (('d, 't) shared, handler) entered \<Rightarrow> bool" where
  "enter_pays m s r \<longleftrightarrow>
     (case r of
        Answered sc1 \<Rightarrow> occupancy (fst sc1) = occupancy s
      | Passed sc1 leave \<Rightarrow> occupancy (fst sc1) = occupy (limiter_cost m) (metrics_cost m) (occupancy s)
          \<and> (m = Builtin ''concurrency_limit'' \<longrightarrow> active (sh_limiter s) < max_active (sh_limiter s))
          \<and> frame_pays (m, leave))"

text \<open>The user's middlewares do not take places in the limiter or in the gauge.\<close>

definition neutral :: "('f, 'd, 't) deployment \<Rightarrow> bool" where
  "neutral D \<longleftrightarrow> (\<forall>f s c. enter_pays (External f) s (dp_enter D f (s, c)))"

lemma pays_free:
  assumes "limiter_cost m = 0" "metrics_cost m = 0"
  shows "occupancy s1 = occupancy s \<Longrightarrow> enter_pays m s (Answered (s1, c1))"
    "occupancy s1 = occupancy s \<Longrightarrow> (\<And>s c e. occupancy (fst (fst (leave (s, c) e))) = occupancy s) \<Longrightarrow> enter_pays m s (Passed (s1, c1) leave)"
  using assms by (auto simp: enter_pays_def frame_pays_def limiter_cost_def split: if_splits)

lemmas enter_defs = enter_recovery_def enter_request_id_def enter_body_limit_def enter_timeout_def enter_cors_def
  enter_validation_def enter_security_def enter_gzip_def enter_access_log_def

lemma keep_neutral [simp]: "fst (fst (keep (s, c) e)) = s"
  by (simp add: keep_def)

lemma leave_occupancy [simp]:
  "fst (fst (leave_timeout n msg marshal now (s, c) e)) = s" "fst (fst (leave_gzip n (s, c) e)) = s"
  "occupancy (fst (fst (leave_access_log log_ptr opts env n r (s, c) e))) = occupancy s"
  by (simp_all add: leave_timeout_def leave_gzip_def leave_access_log_def Let_def split: ending.split wrapper.split)

lemma recovered_occupancy [simp]:
  "occupancy (fst (recovered (Some log_ptr) (Some metrics_ptr) d pe m now (s, c))) = occupancy s"
  by (simp add: recovered_def Let_def recordPanic_def occupancy_ops)

lemma concurrency_pays:
  assumes "max_active (sh_limiter s) > 0"
  shows "enter_pays (Builtin ''concurrency_limit'') s (enter_concurrency limiter_ptr m now (s, c))"
proof -
  have l: "deref limiter_ptr s = sh_limiter s" for s :: "('d, 't) shared" by (simp add: limiter_ptr_def)
  show ?thesis
  proof (cases "active (sh_limiter s) \<ge> max_active (sh_limiter s)")
    case True
    with assms show ?thesis
      by (simp add: enter_concurrency_def l TryAcquire_def emitRejected_def Let_def enter_pays_def) (simp add: occupancy_def)
  next
    case False
    with assms show ?thesis
      by (simp add: enter_concurrency_def l TryAcquire_def Let_def enter_pays_def frame_pays_def cost_defs occupy_def split: prod.split)
        (simp add: occupancy_def)
  qed
qed

lemma metrics_pays: "enter_pays (Builtin ''metrics'') s (enter_metrics metrics_ptr elapsed (s, c))"
proof -
  have before: "total InFlight begin_ops = 1" by (simp add: begin_ops_def gaugeDelta_def)
  have after: "total InFlight (finish_ops b c2 elapsed) = -1" for b and c2 :: "handler Context"
    using total_request(2) [of "\<lparr>ob_panicked = b, ob_context = c2, ob_elapsed = elapsed\<rparr>"] before
    by (simp add: request_ops_def eq_neg_iff_add_eq_0 add.commute)
  have occ: "occupancy (modify metrics_ptr (run_ops ops) s) = (case occupancy s of (n, k, g) \<Rightarrow> (n, k, g + total InFlight ops))"
    for ops and s :: "('d, 't) shared"
    by (simp add: occupancy_def modify_def metrics_ptr_def load_run del: load.simps)
  show ?thesis
    by (simp add: enter_metrics_def enter_pays_def frame_pays_def occ before after cost_defs occupy_def split: prod.split)
qed

lemma builtin_pays:
  assumes "max_active (sh_limiter s) > 0"
  shows "enter_pays (Builtin key) s (enter_builtin rt srv q key (s, c))"
proof (induction rule: enter_builtin_cases [where P = "\<lambda>en. enter_pays (Builtin key) s (en (s, c))"])
  case concurrency_limit
  then show ?case using concurrency_pays [OF assms] by simp
next
  case metrics
  then show ?case using metrics_pays by simp
qed (simp add: enter_defs Let_def, auto intro!: pays_free simp: cost_defs split: ending.split option.split)+

lemma rate_pays: "enter_pays RateLimitMiddleware s (enter_rate_limit rate_ptr impl ip m now key (s, c))"
proof -
  have free: "limiter_cost RateLimitMiddleware = 0" "metrics_cost RateLimitMiddleware = 0" by (simp_all add: cost_defs)
  show ?thesis
    by (auto simp: enter_rate_limit_def Let_def intro!: pays_free [OF free] split: prod.split bool.split)
qed

lemma enter_of_pays:
  assumes "neutral D" "max_active (sh_limiter s) > 0"
  shows "enter_pays m s (enter_of D q m (s, c))"
  using assms by (cases m) (auto simp: builtin_pays rate_pays neutral_def)

lemma router_occupancy:
  "ServeHTTP rt srv q router (s, c) = ((s', c'), e) \<Longrightarrow> occupancy s' = occupancy s"
  using balancedD [OF balanced_router [of False]] by blast

fun frames_of :: "('f, 'd, 't) phase \<Rightarrow> ('f, 'd, 't) frame list" where
  "frames_of (Descend ms fs) = fs"
| "frames_of (Unwind e fs) = fs"

text \<open>How many middlewares of a kind the requests are inside of.\<close>

definition inside :: "('f middleware_value \<Rightarrow> int) \<Rightarrow> ('f, 'd, 't) progress \<Rightarrow> int" where
  "inside cost r = (case r of Serving a p \<Rightarrow> (\<Sum>f\<leftarrow>frames_of p. cost (fst f)) | _ \<Rightarrow> 0)"

definition all_inside :: "('f middleware_value \<Rightarrow> int) \<Rightarrow> ('f, 'd, 't) progress list \<Rightarrow> int" where
  "all_inside cost rs = (\<Sum>r\<leftarrow>rs. inside cost r)"

lemma inside_simps [simp]:
  "inside cost Waiting = 0" "inside cost (Done c e) = 0"
  "inside cost (Serving a (Descend ms [])) = 0" "inside cost (Serving a (Unwind e [])) = 0"
  by (simp_all add: inside_def)

lemma all_inside_update:
  "i < length rs \<Longrightarrow> all_inside cost (rs[i := r]) = all_inside cost rs - inside cost (rs ! i) + inside cost r"
proof (induction rs arbitrary: i)
  case (Cons x rs)
  then show ?case by (cases i) (simp_all add: all_inside_def)
qed simp

lemma all_inside_waiting [simp]: "all_inside cost (replicate k Waiting) = 0"
  by (simp add: all_inside_def map_replicate sum_list_replicate)

lemma all_inside_idle: "(\<And>r. r \<in> set rs \<Longrightarrow> inside cost r = 0) \<Longrightarrow> all_inside cost rs = 0"
  unfolding all_inside_def by (induction rs) auto

definition step_pays :: "('d, 't) shared \<Rightarrow> ('f, 'd, 't) frame list \<Rightarrow> ('d, 't) shared \<Rightarrow> ('f, 'd, 't) frame list \<Rightarrow> bool" where
  "step_pays s fs s' fs' \<longleftrightarrow>
     (let j = (\<Sum>f\<leftarrow>fs'. limiter_cost (fst f)) - (\<Sum>f\<leftarrow>fs. limiter_cost (fst f));
          k = (\<Sum>f\<leftarrow>fs'. metrics_cost (fst f)) - (\<Sum>f\<leftarrow>fs. metrics_cost (fst f))
      in occupancy s' = occupy j k (occupancy s) \<and> list_all frame_pays fs'
         \<and> (j \<le> 0 \<or> j = 1 \<and> active (sh_limiter s) < max_active (sh_limiter s)))"

lemma advance_pays:
  assumes "neutral D" "max_active (sh_limiter s) > 0" "list_all frame_pays (frames_of p)"
    and "advance D q ((s, c), p) = ((s', c'), p')"
  shows "step_pays s (frames_of p) s' (frames_of p')"
proof (cases "(D, q, (s, c), p)" rule: advance.cases)
  case (1 D q sc fs)
  with assms(3,4) show ?thesis by (auto simp: step_pays_def dest!: router_occupancy split: prod.splits)
next
  case (2 D' q' sc m ms fs)
  have pays: "enter_pays m s (enter_of D q m (s, c))" by (rule enter_of_pays [OF assms(1,2)])
  show ?thesis
  proof (cases "enter_of D q m (s, c)")
    case (Answered sc1)
    with 2 pays assms(3,4) show ?thesis by (auto simp: step_pays_def enter_pays_def)
  next
    case (Passed sc1 leave)
    with 2 pays assms(3,4) show ?thesis by (auto simp: step_pays_def enter_pays_def limiter_cost_def)
  qed
next
  case (3 D' q' sc e m leave fs)
  with assms(3,4) have "s' = fst (fst (leave (s, c) e))" "frames_of p' = fs" "frames_of p = (m, leave) # fs"
    "frame_pays (m, leave)" "list_all frame_pays fs" by (auto split: prod.splits)
  then show ?thesis by (simp add: step_pays_def frame_pays_def limiter_cost_def)
next
  case (4 D' q' sc e)
  with assms(3,4) show ?thesis by (auto simp: step_pays_def)
qed

definition counted :: "('d, 't) shared \<Rightarrow> ('f, 'd, 't) system \<Rightarrow> bool" where
  "counted sh y \<longleftrightarrow>
     occupancy (sy_shared y) = occupy (all_inside limiter_cost (sy_requests y)) (all_inside metrics_cost (sy_requests y)) (occupancy sh)
     \<and> active (sh_limiter (sy_shared y)) \<le> max_active (sh_limiter sh)
     \<and> (\<forall>a p. Serving a p \<in> set (sy_requests y) \<longrightarrow> list_all frame_pays (frames_of p))"

lemma counted_max: "counted sh y \<Longrightarrow> max_active (sh_limiter (sy_shared y)) = max_active (sh_limiter sh)"
  by (auto simp: counted_def occupancy_def occupy_def)

lemma counted_step:
  assumes "neutral D" "max_active (sh_limiter sh) > 0" "counted sh y" "serve_step D jobs y i y'"
  shows "counted sh y'"
  using assms(4)
proof cases
  case (work a p s c p')
  from work(2,3) have p: "list_all frame_pays (frames_of p)"
    using assms(3) unfolding counted_def by (metis nth_mem)
  have max: "max_active (sh_limiter (sy_shared y)) > 0" using assms(2) counted_max [OF assms(3)] by simp
  have pays: "step_pays (sy_shared y) (frames_of p) s (frames_of p')" by (rule advance_pays [OF assms(1) max p work(5)])
  let ?rs = "(sy_requests y)[i := Serving a p']"
  have diff: "all_inside cost ?rs = all_inside cost (sy_requests y)
      + ((\<Sum>f\<leftarrow>frames_of p'. cost (fst f)) - (\<Sum>f\<leftarrow>frames_of p. cost (fst f)))" for cost
    using work(2,3) by (simp add: all_inside_update inside_def)
  have "occupancy s = occupy (all_inside limiter_cost ?rs) (all_inside metrics_cost ?rs) (occupancy sh)"
    using pays assms(3) by (simp add: diff step_pays_def counted_def Let_def algebra_simps)
  moreover have "active (sh_limiter s) \<le> max_active (sh_limiter sh)"
    using pays assms(3) counted_max [OF assms(3)]
    by (auto simp: counted_def step_pays_def Let_def occupancy_def occupy_def)
  ultimately show ?thesis
    using work(1) pays assms(3) by (auto simp: counted_def step_pays_def Let_def dest!: set_update_cases)
qed (use assms(3) in \<open>auto simp: counted_def all_inside_update dest!: set_update_cases\<close>)

lemma counted_run:
  assumes "serve_run D jobs (opened sh k) n y" "neutral D" "max_active (sh_limiter sh) > 0"
    and "active (sh_limiter sh) \<le> max_active (sh_limiter sh)"
  shows "counted sh y"
proof (rule invariant_run [OF assms(1)])
  show "counted sh (opened sh k)" using assms(4) by (auto simp: counted_def opened_def)
qed (rule counted_step [OF assms(2,3)])

text \<open>C7. The counters are exact at every moment: while any number of requests go through the chain,
  interleaved between any two middlewares, with handlers that return, abort or panic, the
  limiter has as many active requests as there are requests between \<open>TryAcquire\<close> and
  \<open>Release\<close>, never more than its bound, and the gauge of requests in flight counts the
  requests inside the metrics middleware.\<close>

theorem counters_exact:
  assumes "serve_run D jobs (opened sh k) n y" and "neutral D" and "max_active (sh_limiter sh) > 0"
    and "active (sh_limiter sh) \<le> max_active (sh_limiter sh)"
  shows "active (sh_limiter (sy_shared y)) = active (sh_limiter sh) + all_inside limiter_cost (sy_requests y)
    \<and> active (sh_limiter (sy_shared y)) \<le> max_active (sh_limiter sh)
    \<and> load InFlight (sh_metrics (sy_shared y)) = load InFlight (sh_metrics sh) + of_int (all_inside metrics_cost (sy_requests y))"
  using counted_run [OF assms] by (auto simp: counted_def occupancy_def occupy_def)

subsection \<open>Every schedule ends\<close>

fun work_left :: "nat \<Rightarrow> ('f, 'd, 't) progress \<Rightarrow> nat" where
  "work_left l Waiting = 2 * l + 3"
| "work_left l (Serving a p) = Suc (steps_left p)"
| "work_left l (Done c e) = 0"

definition is_done :: "('f, 'd, 't) progress \<Rightarrow> bool" where
  "is_done r \<longleftrightarrow> (case r of Done c e \<Rightarrow> True | _ \<Rightarrow> False)"

definition total_work :: "('f, 'd, 't) deployment \<Rightarrow> ('f, 'd, 't) system \<Rightarrow> nat" where
  "total_work D y = (\<Sum>r\<leftarrow>sy_requests y. work_left (length (dp_chain D)) r)"

lemma sum_list_decreases:
  fixes f :: "'a \<Rightarrow> nat"
  assumes "i < length xs" "f x < f (xs ! i)"
  shows "sum_list (map f (xs[i := x])) < sum_list (map f xs)"
  using assms
proof (induction xs arbitrary: i)
  case (Cons y ys)
  then show ?case by (cases i) auto
qed simp

lemma step_works:
  assumes "serve_step D jobs y i y'"
  shows "total_work D y' < total_work D y"
  using assms
proof cases
  case (work a p s c p')
  have "steps_left p' < steps_left p" by (rule advance_shrinks [OF work(5,4)])
  with work show ?thesis by (auto simp: total_work_def intro!: sum_list_decreases)
qed (auto simp: total_work_def intro!: sum_list_decreases)

lemma run_works: "serve_run D jobs y n y' \<Longrightarrow> n + total_work D y' \<le> total_work D y"
proof (induction rule: serve_run.induct)
  case (run_step y n y' i y'')
  then show ?case using step_works [of D jobs y' i y''] by linarith
qed simp

lemma step_possible:
  assumes "i < length (sy_requests y)" "\<not> is_done (sy_requests y ! i)"
  shows "\<exists>y'. serve_step D jobs y i y'"
proof (cases "sy_requests y ! i")
  case Waiting
  then show ?thesis using assms take_new by blast
next
  case (Serving a p)
  show ?thesis
  proof (cases "steps_left p = 0")
    case True
    with Serving assms put_back show ?thesis by (fastforce simp: steps_left_0)
  next
    case False
    obtain sh c p' where "advance D (fst (jobs ! i)) ((sy_shared y, sy_heap y ! a), p) = ((sh, c), p')" by (metis surj_pair)
    with False Serving assms work show ?thesis by blast
  qed
qed (use assms in \<open>simp add: is_done_def\<close>)

lemma run_length: "serve_run D jobs y n y' \<Longrightarrow> length (sy_requests y') = length (sy_requests y)"
  by (induction rule: serve_run.induct) (auto elim!: serve_stepE)

lemma idle_inside: "is_done r \<Longrightarrow> inside cost r = 0"
  by (cases r) (simp_all add: is_done_def)

text \<open>C5. Whatever the scheduler does, every request is answered: a request that is not done can take a
  step, so a run stops only when all are done, which is after at most
  \<open>2 * length chain + 3\<close> steps for each; and then the limiter and the gauge are what they were
  before the first request.\<close>

theorem load_drains:
  assumes "serve_run D jobs (opened sh k) n y" and "neutral D" and "max_active (sh_limiter sh) > 0"
    and "active (sh_limiter sh) \<le> max_active (sh_limiter sh)"
  shows "n \<le> k * (2 * length (dp_chain D) + 3)
    \<and> (\<forall>i < k. \<not> is_done (sy_requests y ! i) \<longrightarrow> (\<exists>y'. serve_step D jobs y i y'))
    \<and> ((\<forall>i < k. is_done (sy_requests y ! i)) \<longrightarrow>
         active (sh_limiter (sy_shared y)) = active (sh_limiter sh)
         \<and> InFlight_of (sh_metrics (sy_shared y)) = InFlight_of (sh_metrics sh))"
proof (intro conjI)
  have "total_work D (opened sh k) = k * (2 * length (dp_chain D) + 3)"
    by (simp add: total_work_def opened_def map_replicate sum_list_replicate)
  then show "n \<le> k * (2 * length (dp_chain D) + 3)" using run_works [OF assms(1)] by linarith
  have len: "length (sy_requests y) = k" using run_length [OF assms(1)] by (simp add: opened_def)
  then show "\<forall>i < k. \<not> is_done (sy_requests y ! i) \<longrightarrow> (\<exists>y'. serve_step D jobs y i y')"
    using step_possible by blast
  have c: "counted sh y" by (rule counted_run [OF assms])
  have idle: "all_inside cost (sy_requests y) = 0" if "\<forall>i < k. is_done (sy_requests y ! i)" for cost
    using that len by (intro all_inside_idle idle_inside) (auto simp: in_set_conv_nth)
  show "(\<forall>i < k. is_done (sy_requests y ! i)) \<longrightarrow>
         active (sh_limiter (sy_shared y)) = active (sh_limiter sh)
         \<and> InFlight_of (sh_metrics (sy_shared y)) = InFlight_of (sh_metrics sh)"
    using c idle by (auto simp: counted_def occupancy_def InFlight_of_def)
qed

text \<open>A run to the end.\<close>

lemma run_to_end: "\<exists>m y'. serve_run D jobs y0 m y' \<and> (\<forall>r \<in> set (sy_requests y'). is_done r)" if "serve_run D jobs y0 n y"
  using that
proof (induction "total_work D y" arbitrary: n y rule: less_induct)
  case less
  show ?case
  proof (cases "\<forall>r \<in> set (sy_requests y). is_done r")
    case False
    then obtain i where "i < length (sy_requests y)" "\<not> is_done (sy_requests y ! i)" by (auto simp: in_set_conv_nth)
    then obtain y' where "serve_step D jobs y i y'" using step_possible by blast
    with less step_works run_step show ?thesis by blast
  qed (use less.prems in blast)
qed

definition demo_jobs :: "job list" where
  "demo_jobs = replicate 2 (demo_request_env, new_writer, nil_request\<lparr>req_method := ''GET'', req_path := ''/x''\<rparr>)"

lemma demo_load:
  "\<exists>n y. serve_run demo_deployment demo_jobs (opened demo_shared 2) n y \<and> (\<forall>i < 2. is_done (sy_requests y ! i))"
proof -
  obtain n y where run: "serve_run demo_deployment demo_jobs (opened demo_shared 2) n y" "\<forall>r \<in> set (sy_requests y). is_done r"
    using run_to_end run_refl by blast
  moreover have "length (sy_requests y) = 2" using run_length [OF run(1)] by (simp add: opened_def)
  ultimately show ?thesis by (metis nth_mem)
qed

lemma demo_neutral: "neutral demo_deployment"
  by (simp add: neutral_def demo_deployment_def enter_pays_def frame_pays_def cost_defs)

theorem counters_exact_witness:
  "\<exists>n y. serve_run demo_deployment demo_jobs (opened demo_shared 2) n y
     \<and> active (sh_limiter (sy_shared y)) = all_inside limiter_cost (sy_requests y) \<and> active (sh_limiter (sy_shared y)) \<le> 2"
proof -
  obtain n y where run: "serve_run demo_deployment demo_jobs (opened demo_shared 2) n y"
    using demo_load by blast
  have "max_active (sh_limiter demo_shared) > 0" "active (sh_limiter demo_shared) \<le> max_active (sh_limiter demo_shared)"
    by (simp_all add: demo_limit)
  from counters_exact [OF run demo_neutral this] run demo_limit show ?thesis by auto
qed

theorem load_drains_witness:
  "\<exists>n y. serve_run demo_deployment demo_jobs (opened demo_shared 2) n y \<and> n \<le> 22
     \<and> active (sh_limiter (sy_shared y)) = 0 \<and> InFlight_of (sh_metrics (sy_shared y)) = 0"
proof -
  obtain n y where run: "serve_run demo_deployment demo_jobs (opened demo_shared 2) n y" "\<forall>i < 2. is_done (sy_requests y ! i)"
    using demo_load by blast
  have "max_active (sh_limiter demo_shared) > 0" "active (sh_limiter demo_shared) \<le> max_active (sh_limiter demo_shared)"
    by (simp_all add: demo_limit)
  from load_drains [OF run(1) demo_neutral this] run demo_limit show ?thesis by (auto simp: demo_deployment_def)
qed

subsection \<open>No two requests share a context\<close>

text \<open>A context is in the pool or belongs to one request.\<close>

definition owner :: "('f, 'd, 't) progress \<Rightarrow> nat list" where
  "owner r = (case r of Serving a p \<Rightarrow> [a] | _ \<Rightarrow> [])"

definition in_use :: "('f, 'd, 't) progress list \<Rightarrow> nat list" where
  "in_use rs = concat (map owner rs)"

definition owned :: "('f, 'd, 't) system \<Rightarrow> bool" where
  "owned y \<longleftrightarrow> distinct (sy_pool y @ in_use (sy_requests y))
     \<and> set (sy_pool y @ in_use (sy_requests y)) \<subseteq> {..<length (sy_heap y)}"

lemma owner_simps [simp]: "owner Waiting = []" "owner (Serving a p) = [a]" "owner (Done c e) = []"
  by (simp_all add: owner_def)

lemma in_use_update:
  "i < length rs \<Longrightarrow> mset (in_use (rs[i := r])) + mset (owner (rs ! i)) = mset (in_use rs) + mset (owner r)"
proof (induction rs arbitrary: i)
  case (Cons x rs)
  then show ?case by (cases i) (auto simp: in_use_def ac_simps)
qed simp

lemma in_useI: "i < length rs \<Longrightarrow> rs ! i = Serving a p \<Longrightarrow> a \<in> set (in_use rs)"
proof -
  assume "i < length rs" "rs ! i = Serving a p"
  then have "Serving a p \<in> set rs" by (metis nth_mem)
  then show ?thesis by (force simp: in_use_def)
qed

lemma in_use_inj:
  assumes "distinct (in_use rs)" "i < length rs" "j < length rs" "rs ! i = Serving a p" "rs ! j = Serving a p'"
  shows "i = j"
  using assms
proof (induction rs arbitrary: i j)
  case (Cons x rs)
  have d: "distinct (in_use rs)" "set (owner x) \<inter> set (in_use rs) = {}" using Cons.prems(1) by (auto simp: in_use_def)
  show ?case
  proof (cases "i = 0 \<or> j = 0")
    case True
    with Cons.prems d(2) show ?thesis by (cases i; cases j) (auto dest: in_useI)
  next
    case False
    with Cons.prems Cons.IH [OF d(1), of "i - 1" "j - 1"] show ?thesis by (cases i; cases j) auto
  qed
qed simp

lemma owned_perm:
  assumes "owned y" "mset (sy_pool y' @ in_use (sy_requests y')) = mset (sy_pool y @ in_use (sy_requests y))"
    and "length (sy_heap y) \<le> length (sy_heap y')"
  shows "owned y'"
  using assms mset_eq_imp_distinct_iff [OF assms(2)] mset_eq_setD [OF assms(2)] unfolding owned_def by fastforce

lemma owned_step:
  assumes "owned y" "serve_step D jobs y i y'"
  shows "owned y'"
  using assms(2)
proof cases
  case (take_pooled a)
  with in_use_update [of i "sy_requests y" "Serving a (Descend (dp_chain D) [])"]
  show ?thesis by (intro owned_perm [OF assms(1)]) simp_all
next
  case take_new
  let ?a = "length (sy_heap y)"
  have "mset (sy_pool y' @ in_use (sy_requests y')) = mset (?a # sy_pool y @ in_use (sy_requests y))"
    using take_new in_use_update [of i "sy_requests y" "Serving ?a (Descend (dp_chain D) [])"] by simp
  moreover have "distinct (?a # sy_pool y @ in_use (sy_requests y))" using assms(1) by (auto simp: owned_def)
  ultimately have d: "distinct (sy_pool y' @ in_use (sy_requests y'))" by (metis mset_eq_imp_distinct_iff)
  have "set (sy_pool y' @ in_use (sy_requests y')) = set (?a # sy_pool y @ in_use (sy_requests y))"
    by (rule mset_eq_setD) fact
  moreover have "set (?a # sy_pool y @ in_use (sy_requests y)) \<subseteq> {..<length (sy_heap y')}"
    using take_new assms(1) by (auto simp: owned_def)
  ultimately show ?thesis using d unfolding owned_def by blast
next
  case (work a p s c p')
  with in_use_update [of i "sy_requests y" "Serving a p'"]
  show ?thesis by (intro owned_perm [OF assms(1)]) simp_all
next
  case (put_back a e)
  with in_use_update [of i "sy_requests y" "Done (sy_heap y ! a) e"]
  show ?thesis by (intro owned_perm [OF assms(1)]) simp_all
qed

lemma owned_run: "serve_run D jobs (opened sh k) n y \<Longrightarrow> owned y"
  by (erule invariant_run, simp add: owned_def opened_def in_use_def) (rule owned_step)

end
