(* ===== verification/Isolation.thy ===== *)
theory Isolation
  imports Interleaving
begin

text \<open>
  What one request can notice of the others. Requests run at once on one shared state, but
  the response to each is one that the server gives to this request alone: the only parts of
  the shared state a middleware looks at are the limiter, when the request is admitted, and
  the rate limiter, when it asks for a token.
\<close>

subsection \<open>Static files look at the disk only\<close>

definition answer_of :: "('s \<times> 'h Context) \<times> ending \<Rightarrow> 'h Context \<times> ending" where
  "answer_of r = (case r of ((s, c), e) \<Rightarrow> (c, e))"

lemma answer_of_simps [simp]: "answer_of ((s, c), e) = (c, e)"
  by (simp add: answer_of_def)

lemma answer_eqE:
  assumes "answer_of r = answer_of r'"
  obtains s s' c e where "r = ((s, c), e)" "r' = ((s', c), e)"
proof -
  obtain s c e s' c' e' where "r = ((s, c), e)" "r' = ((s', c'), e')" by (metis surj_pair)
  with assms that show ?thesis by simp
qed

definition read_only :: "'d filesystem \<Rightarrow> bool" where
  "read_only fs \<longleftrightarrow> (\<forall>name d. snd (fs name d) = d)"

lemma open_read_only:
  assumes "read_only fs"
  shows "fs_open fs name st =
     (case fst (fs name (disk st)) of Inl e \<Rightarrow> (Inl e, st) | Inr f \<Rightarrow> (Inr f, st\<lparr>open_files := open_files st + 1\<rparr>))"
proof -
  obtain r where "fs name (disk st) = (r, disk st)" using assms unfolding read_only_def by (metis prod.collapse)
  moreover have "st\<lparr>disk := disk st\<rparr> = st" by (cases st) simp
  ultimately show ?thesis by (simp add: fs_open_def split: sum.split)
qed

lemma close_opened [simp]:
  "fs_close (st\<lparr>open_files := open_files st + 1\<rparr>) = st"
  "fs_close \<lparr>disk = d, open_files = 1\<rparr> = \<lparr>disk = d, open_files = 0\<rparr>"
  by (cases st) (simp_all add: fs_close_def)

text \<open>A handler on the disk: it gives the files back, and its response depends on the disk alone.\<close>

definition disk_local :: "('d fs_state, 'h) http_handler \<Rightarrow> bool" where
  "disk_local h \<longleftrightarrow> (\<exists>g. \<forall>st c. h (st, c) = ((st, fst (g (disk st) c)), snd (g (disk st) c)))"

lemma disk_localI: "(\<And>st c. h (st, c) = ((st, fst (g (disk st) c)), snd (g (disk st) c))) \<Longrightarrow> disk_local h"
  unfolding disk_local_def by blast

definition opened_answer ::
    "http_env \<Rightarrow> 'd filesystem \<Rightarrow> string \<Rightarrow> string \<Rightarrow> fs_file \<Rightarrow> 'd \<Rightarrow> 'h Context \<Rightarrow> 'h Context" where
  "opened_answer env fs url name f d c = snd (serve_opened env fs url name f (\<lparr>disk = d, open_files = 0\<rparr>, c))"

lemma serve_opened_disk:
  assumes "read_only fs"
  shows "serve_opened env fs url name f (st, c) = (st, opened_answer env fs url name f (disk st) c)"
proof (cases "f_stat f")
  case (Some i)
  then show ?thesis
    by (cases "fst (fs (trim_suffix name ''/'' @ ''/index.html'') (disk st))")
      (simp_all add: opened_answer_def serve_opened_def open_read_only [OF assms])
qed (simp add: opened_answer_def serve_opened_def)

lemma FileServer_disk:
  assumes "read_only fs"
  shows "disk_local (FileServer env fs)"
proof (rule disk_localI)
  fix st and c :: "'h Context"
  define url where "url = (if has_prefix (req_path (request c)) ''/'' then req_path (request c) else CHR ''/'' # req_path (request c))"
  show "FileServer env fs (st, c) = ((st, fst (answer_of (FileServer env fs (\<lparr>disk = disk st, open_files = 0\<rparr>, c)))),
      snd (answer_of (FileServer env fs (\<lparr>disk = disk st, open_files = 0\<rparr>, c))))"
    by (cases "fst (fs (path_clean url) (disk st))")
      (simp_all add: FileServer_def Let_def url_def [symmetric] open_read_only [OF assms] serve_opened_disk [OF assms])
qed

lemma StripPrefix_disk:
  assumes "disk_local h"
  shows "disk_local (StripPrefix pre h)"
proof -
  obtain g where g: "\<forall>st c. h (st, c) = ((st, fst (g (disk st) c)), snd (g (disk st) c))"
    using assms unfolding disk_local_def by blast
  show ?thesis
  proof (rule disk_localI)
    fix st c
    show "StripPrefix pre h (st, c) = ((st, fst (answer_of (StripPrefix pre h (\<lparr>disk = disk st, open_files = 0\<rparr>, c)))),
        snd (answer_of (StripPrefix pre h (\<lparr>disk = disk st, open_files = 0\<rparr>, c))))"
      by (simp add: StripPrefix_def g Let_def)
  qed
qed

definition listing_answer :: "StaticOptions \<Rightarrow> 'd filesystem \<Rightarrow> string \<Rightarrow> 'd \<Rightarrow> bool" where
  "listing_answer opts fs p d = fst (disabled_listing opts fs p \<lparr>disk = d, open_files = 0\<rparr>)"

lemma disabled_listing_disk:
  assumes "read_only fs"
  shows "disabled_listing opts fs p st = (listing_answer opts fs p (disk st), st)"
proof (cases "fst (fs p (disk st))")
  case (Inr f)
  then show ?thesis
    by (cases "fst (fs (path_join [p, ''index.html'']) (disk st))")
      (simp_all add: listing_answer_def disabled_listing_def open_read_only [OF assms])
qed (simp add: listing_answer_def disabled_listing_def open_read_only [OF assms])

definition tagged_answer :: "StaticOptions \<Rightarrow> 'd filesystem \<Rightarrow> string \<Rightarrow> 'd \<Rightarrow> (fs_file \<times> file_info) option" where
  "tagged_answer opts fs p d = fst (tagged_file opts fs p \<lparr>disk = d, open_files = 0\<rparr>)"

lemma tagged_file_disk:
  assumes "read_only fs"
  shows "tagged_file opts fs p st = (tagged_answer opts fs p (disk st),
      if tagged_answer opts fs p (disk st) = None then st else st\<lparr>open_files := open_files st + 1\<rparr>)"
proof (cases "fst (fs p (disk st))")
  case (Inr f)
  then show ?thesis
    by (cases "f_stat f") (simp_all add: tagged_answer_def tagged_file_def open_read_only [OF assms])
qed (simp add: tagged_answer_def tagged_file_def open_read_only [OF assms])

lemma static_server_disk:
  assumes "read_only fs"
  shows "disk_local (staticOptionsFileServer env fs opts :: ('a fs_state, 'h) http_handler)"
proof -
  obtain g where g: "\<forall>st (c :: 'h Context). FileServer env fs (st, c) = ((st, fst (g (disk st) c)), snd (g (disk st) c))"
    using FileServer_disk [OF assms] unfolding disk_local_def by blast
  show ?thesis
  proof (rule disk_localI)
    fix st :: "'a fs_state" and c :: "'h Context"
    let ?h = "staticOptionsFileServer env fs opts"
    show "?h (st, c) = ((st, fst (answer_of (?h (\<lparr>disk = disk st, open_files = 0\<rparr>, c)))),
        snd (answer_of (?h (\<lparr>disk = disk st, open_files = 0\<rparr>, c))))"
      by (cases "listing_answer opts fs (req_path (request c)) (disk st)"; cases "tagged_answer opts fs (req_path (request c)) (disk st)")
        (simp_all add: staticOptionsFileServer_def g Let_def disabled_listing_disk [OF assms] tagged_file_disk [OF assms] split: prod.split)
  qed
qed

lemma static_handler_disk: "read_only fs \<Longrightarrow> disk_local (static_handler env pre fs opts)"
  by (simp add: static_handler_def StripPrefix_disk static_server_disk)

definition spa_answer :: "http_env \<Rightarrow> 'd filesystem \<Rightarrow> string \<Rightarrow> 'd \<Rightarrow> 'h Context \<Rightarrow> 'h Context \<times> ending option" where
  "spa_answer env fs p d c = (case spa_file env fs p (\<lparr>disk = d, open_files = 0\<rparr>, c) of ((st, c'), e) \<Rightarrow> (c', e))"

lemma spa_file_disk:
  assumes "read_only fs"
  shows "spa_file env fs p (st, c) = ((st, fst (spa_answer env fs p (disk st) c)), snd (spa_answer env fs p (disk st) c))"
proof (cases "fst (fs p (disk st))")
  case (Inr f)
  then show ?thesis
    by (cases "f_stat f") (simp_all add: spa_answer_def spa_file_def open_read_only [OF assms])
qed (simp add: spa_answer_def spa_file_def open_read_only [OF assms])

lemma spa_disk:
  assumes "read_only fs"
  shows "disk_local (spaNoRoute marshal now env fs indexPath)"
proof (rule disk_localI)
  fix st :: "'a fs_state" and c :: "'b Context"
  let ?h = "spaNoRoute marshal now env fs indexPath"
  show "?h (st, c) = ((st, fst (answer_of (?h (\<lparr>disk = disk st, open_files = 0\<rparr>, c)))),
      snd (answer_of (?h (\<lparr>disk = disk st, open_files = 0\<rparr>, c))))"
  proof (cases "snd (spa_answer env fs (req_path (request c)) (disk st) c)")
    case None
    then show ?thesis
      by (simp add: spaNoRoute_def Let_def spa_file_disk [OF assms] open_read_only [OF assms] split: sum.split option.split)
  qed (simp add: spaNoRoute_def Let_def spa_file_disk [OF assms])
qed

subsection \<open>What a middleware looks at\<close>

definition seen :: "('s, 'h) entered \<Rightarrow> 'h Context \<times> ('s, 'h) leave option" where
  "seen r = (case r of Answered (s, c) \<Rightarrow> (c, None) | Passed (s, c) leave \<Rightarrow> (c, Some leave))"

definition after :: "('s, 'h) entered \<Rightarrow> 's" where
  "after r = (case r of Answered (s, c) \<Rightarrow> s | Passed (s, c) leave \<Rightarrow> s)"

lemma seen_simps [simp]:
  "seen (Answered (s, c)) = (c, None)" "seen (Passed (s, c) leave) = (c, Some leave)"
  "after (Answered (s, c)) = s" "after (Passed (s, c) leave) = s"
  by (simp_all add: seen_def after_def)

definition private_leave :: "(('d, 't) shared, handler) leave \<Rightarrow> bool" where
  "private_leave leave \<longleftrightarrow>
     (\<forall>s s' c e. answer_of (leave (s, c) e) = answer_of (leave (s', c) e))
     \<and> (\<forall>s c e. sh_files (fst (fst (leave (s, c) e))) = sh_files s)"

definition looks_same :: "'f middleware_value \<Rightarrow> ('d, 't) shared \<Rightarrow> ('d, 't) shared \<Rightarrow> bool" where
  "looks_same m s s' \<longleftrightarrow>
     (m = Builtin ''concurrency_limit'' \<longrightarrow> sh_limiter s = sh_limiter s') \<and> (m = RateLimitMiddleware \<longrightarrow> sh_rate s = sh_rate s')"

definition local_enter :: "'f middleware_value \<Rightarrow> (('d, 't) shared, handler) enter \<Rightarrow> bool" where
  "local_enter m en \<longleftrightarrow>
     (\<forall>s s' c. looks_same m s s' \<longrightarrow> seen (en (s, c)) = seen (en (s', c)))
     \<and> (\<forall>s c. sh_files (after (en (s, c))) = sh_files s
          \<and> (m \<noteq> Builtin ''concurrency_limit'' \<longrightarrow> sh_limiter (after (en (s, c))) = sh_limiter s)
          \<and> (m \<noteq> RateLimitMiddleware \<longrightarrow> sh_rate (after (en (s, c))) = sh_rate s)
          \<and> (case snd (seen (en (s, c))) of None \<Rightarrow> True | Some leave \<Rightarrow> private_leave leave))"

text \<open>The user's middlewares and file systems: no use of the server's limiters, read-only disks.\<close>

definition isolated :: "('f, 'd, 't) deployment \<Rightarrow> bool" where
  "isolated D \<longleftrightarrow> (\<forall>f. local_enter (External f) (dp_enter D f)) \<and> (\<forall>f. read_only (rt_files (dp_runtime D) f))"

lemma private_leaves [simp]:
  "private_leave keep" "private_leave (leave_timeout n msg marshal now)" "private_leave (leave_gzip n)"
  "private_leave (leave_access_log log_ptr opts env n r)"
  by (simp_all add: private_leave_def keep_def leave_timeout_def leave_gzip_def leave_access_log_def Let_def
      modify_def log_ptr_def split: ending.split wrapper.split)

lemma recovered_parts:
  "recovered (Some log_ptr) (Some metrics_ptr) d pe m now (s, c) =
     (s\<lparr>sh_metrics := run_ops recordPanic (sh_metrics s), sh_log := sh_log s @ [panic_log pe (RequestID c)]\<rparr>,
      snd (recovered (None :: (unit, log_entry list) ptr option) None d pe m now ((), c)))"
  by (simp add: recovered_def Let_def modify_def log_ptr_def metrics_ptr_def)

lemma local_recovery: "m \<noteq> Builtin ''concurrency_limit'' \<Longrightarrow> local_enter m (enter_recovery (Some log_ptr) (Some metrics_ptr) d pe ma now)"
  by (simp add: local_enter_def enter_recovery_def private_leave_def recovered_parts split: ending.split)

lemma local_concurrency: "local_enter (Builtin ''concurrency_limit'') (enter_concurrency limiter_ptr m now)"
  by (auto simp: local_enter_def looks_same_def enter_concurrency_def limiter_ptr_def private_leave_def modify_def Let_def
      split: prod.split bool.split)

lemma local_metrics: "local_enter (Builtin ''metrics'') (enter_metrics metrics_ptr elapsed)"
  by (simp add: local_enter_def enter_metrics_def metrics_ptr_def private_leave_def modify_def)

lemma local_rate: "local_enter RateLimitMiddleware (enter_rate_limit rate_ptr impl ip m now key)"
  by (auto simp: local_enter_def looks_same_def enter_rate_limit_def rate_ptr_def Let_def split: prod.split bool.split)

lemma local_builtin: "local_enter (Builtin key) (enter_builtin rt srv q key)"
proof (induction rule: enter_builtin_cases [where P = "local_enter (Builtin key)"])
  case recovery
  then show ?case by (simp add: local_recovery)
next
  case concurrency_limit
  then show ?case using local_concurrency by simp
next
  case metrics
  then show ?case using local_metrics by simp
qed (simp add: local_enter_def enter_defs Let_def split: option.split)+

lemma local_enter_of: "isolated D \<Longrightarrow> local_enter m (enter_of D q m)"
  by (cases m) (auto simp: local_builtin local_rate isolated_def)

subsection \<open>The router and the chain\<close>

definition disk_of :: "('d, 't) shared \<Rightarrow> 'd" where
  "disk_of s = disk (sh_files s)"

text \<open>States that a chain cannot tell apart.\<close>

definition agree :: "'f middleware_value list \<Rightarrow> ('d, 't) shared \<Rightarrow> ('d, 't) shared \<Rightarrow> bool" where
  "agree ms s s' \<longleftrightarrow> disk_of s = disk_of s' \<and> (\<forall>m \<in> set ms. looks_same m s s')"

text \<open>The two middlewares with state of their own are in the chain once at most: \<open>tidy_sole\<close> below has it
  for the chains of \<open>Build\<close> unless \<open>SetOrder\<close> repeats a key.\<close>

definition sole :: "'f middleware_value list \<Rightarrow> bool" where
  "sole ms \<longleftrightarrow> distinct (filter (\<lambda>m. m = Builtin ''concurrency_limit'' \<or> m = RateLimitMiddleware) ms)"

text \<open>A manager whose order has no repeated key, with middlewares of the user as overrides and extras.\<close>

definition external :: "'f middleware_value \<Rightarrow> bool" where
  "external m = (case m of External f \<Rightarrow> True | _ \<Rightarrow> False)"

definition tidy :: "'f middleware_value Manager \<Rightarrow> bool" where
  "tidy m \<longleftrightarrow> distinct (order m) \<and> (\<forall>k h. map_of (overrides m) k = Some h \<longrightarrow> external h)
     \<and> (\<forall>h \<in> set (extras m). external h)
     \<and> (\<forall>k h. map_of (builtins m) k = Some h \<longrightarrow> h = Builtin k \<or> (h = RateLimitMiddleware \<and> k = ''rate_limit''))"

definition stateful :: "'f middleware_value \<Rightarrow> bool" where
  "stateful m \<longleftrightarrow> m = Builtin ''concurrency_limit'' \<or> m = RateLimitMiddleware"

lemma external_stateful: "external m \<Longrightarrow> \<not> stateful m"
  by (auto simp: external_def stateful_def split: middleware_value.splits)

lemma tidy_effective:
  assumes "tidy m" "effective m k = Some h" "stateful h"
  shows "h = (if k = ''rate_limit'' then RateLimitMiddleware else Builtin k)"
proof -
  from assms(2) have "map_of (overrides m) k = Some h \<or> map_of (builtins m) k = Some h"
    by (auto simp: effective_def split: if_splits option.splits)
  then show ?thesis
  proof
    assume "map_of (overrides m) k = Some h"
    with assms(1) have "external h" unfolding tidy_def by blast
    with assms(3) show ?thesis by (simp add: external_stateful)
  next
    assume "map_of (builtins m) k = Some h"
    with assms(1) have "h = Builtin k \<or> (h = RateLimitMiddleware \<and> k = ''rate_limit'')" unfolding tidy_def by blast
    with assms(3) show ?thesis by (auto simp: stateful_def)
  qed
qed

lemma tidy_loop:
  assumes "tidy m" "distinct ks"
  shows "distinct (filter stateful (List.map_filter (effective m) ks))"
  using assms(2)
proof (induction ks)
  case (Cons k ks)
  show ?case
  proof (cases "effective m k")
    case (Some h)
    have "h \<notin> set (List.map_filter (effective m) ks)" if "stateful h"
    proof
      assume "h \<in> set (List.map_filter (effective m) ks)"
      then obtain k' where k': "k' \<in> set ks" "effective m k' = Some h" by (auto simp: List.map_filter_def)
      have "k = k'" using tidy_effective [OF assms(1) Some that] tidy_effective [OF assms(1) k'(2) that]
        by (auto split: if_splits)
      with k'(1) Cons.prems show False by simp
    qed
    with Some Cons show ?thesis by (simp add: List.map_filter_simps)
  qed (use Cons in \<open>simp add: List.map_filter_simps\<close>)
qed (simp add: List.map_filter_simps)

lemma tidy_sole:
  assumes "tidy m"
  shows "sole (Build m)"
proof -
  have "filter stateful (extras m) = []" using assms external_stateful by (auto simp: tidy_def filter_empty_conv)
  moreover have "distinct (order m)" using assms by (simp add: tidy_def)
  ultimately show ?thesis
    using tidy_loop [OF assms] unfolding sole_def stateful_def [symmetric] by (simp add: Build_effective)
qed

lemma tidy_switch: "tidy m \<Longrightarrow> tidy (builtin_switch key on m)"
  by (auto simp: tidy_def builtin_switch_def RegisterBuiltin_def Disable_def Let_def update_conv')

lemma sole_chain: "tidy (mwManager s) \<Longrightarrow> sole (Build (registerBuiltinMiddleware s))"
  unfolding registerBuiltinMiddleware_def Let_def by (intro tidy_sole tidy_switch)

lemma tidy_default: "tidy NewManager"
  by (simp add: tidy_def NewManager_def)

lemma on_part_disk:
  assumes "disk_local h" "disk_of s = disk_of s'"
  shows "answer_of (on_part files_ptr h (s, c)) = answer_of (on_part files_ptr h (s', c))"
    "sh_files (fst (fst (on_part files_ptr h (s, c)))) = sh_files s"
proof -
  obtain g where g: "\<forall>st c. h (st, c) = ((st, fst (g (disk st) c)), snd (g (disk st) c))"
    using assms(1) unfolding disk_local_def by blast
  show "answer_of (on_part files_ptr h (s, c)) = answer_of (on_part files_ptr h (s', c))"
    "sh_files (fst (fst (on_part files_ptr h (s, c)))) = sh_files s"
    using assms(2) by (simp_all add: on_part_def g files_ptr_def disk_of_def)
qed

lemma run_handlers_same:
  "answer_of (run_handlers hs (s, c)) = answer_of (run_handlers hs (s', c))" "fst (fst (run_handlers hs (s, c))) = s"
  by (auto simp: run_handlers_def split: option.split)

lemma wrapRequestHandler_same:
  "answer_of (wrapRequestHandler n chain names ps (s, c)) = answer_of (wrapRequestHandler n chain names ps (s', c))"
  "fst (fst (wrapRequestHandler n chain names ps (s, c))) = s"
  unfolding wrapRequestHandler_def by (simp_all add: Let_def run_handlers_same(2)) (metis run_handlers_same(1))+

lemma no_route_same:
  assumes "isolated D" "disk_of s = disk_of s'"
  shows "answer_of (run_no_route (dp_runtime D) srv q h (s, c)) = answer_of (run_no_route (dp_runtime D) srv q h (s', c))"
    "sh_files (fst (fst (run_no_route (dp_runtime D) srv q h (s, c)))) = sh_files s"
proof -
  have ro: "read_only (rt_files (dp_runtime D) f)" for f using assms(1) by (simp add: isolated_def)
  show "answer_of (run_no_route (dp_runtime D) srv q h (s, c)) = answer_of (run_no_route (dp_runtime D) srv q h (s', c))"
    by (auto simp: run_no_route_def intro: on_part_disk(1) [OF spa_disk [OF ro] assms(2)] run_handlers_same(1) split: option.split)
  show "sh_files (fst (fst (run_no_route (dp_runtime D) srv q h (s, c)))) = sh_files s"
    by (auto simp: run_no_route_def run_handlers_same(2) on_part_disk(2) [OF spa_disk [OF ro] assms(2)] split: option.split)
qed

lemma router_same:
  assumes "isolated D" "disk_of s = disk_of s'"
  shows "answer_of (ServeHTTP (dp_runtime D) srv q router (s, c)) = answer_of (ServeHTTP (dp_runtime D) srv q router (s', c))"
    "sh_files (fst (fst (ServeHTTP (dp_runtime D) srv q router (s, c)))) = sh_files s"
proof -
  have ro: "read_only (rt_files (dp_runtime D) f)" for f using assms(1) by (simp add: isolated_def)
  show "answer_of (ServeHTTP (dp_runtime D) srv q router (s, c)) = answer_of (ServeHTTP (dp_runtime D) srv q router (s', c))"
    by (auto simp: ServeHTTP_def intro: no_route_same(1) [OF assms] on_part_disk(1) [OF static_handler_disk [OF ro] assms(2)]
        run_handlers_same(1) wrapRequestHandler_same(1) split: serve_action.split requestHandler.split)
  show "sh_files (fst (fst (ServeHTTP (dp_runtime D) srv q router (s, c)))) = sh_files s"
    by (auto simp: ServeHTTP_def no_route_same(2) [OF assms] on_part_disk(2) [OF static_handler_disk [OF ro] assms(2)]
        run_handlers_same(2) wrapRequestHandler_same(2) split: serve_action.split requestHandler.split)
qed

lemma local_enterE:
  assumes "local_enter m en" "looks_same m s s'"
  obtains (answered) s1 s1' c1 where "en (s, c) = Answered (s1, c1)" "en (s', c) = Answered (s1', c1)"
  | (passed) s1 s1' c1 leave where "en (s, c) = Passed (s1, c1) leave" "en (s', c) = Passed (s1', c1) leave" "private_leave leave"
proof -
  have same: "seen (en (s, c)) = seen (en (s', c))" using assms by (auto simp: local_enter_def)
  have priv: "case snd (seen (en (s, c))) of None \<Rightarrow> True | Some leave \<Rightarrow> private_leave leave"
    using assms(1) by (simp add: local_enter_def)
  show ?thesis
  proof (cases "en (s, c)")
    case (Answered sc1)
    obtain s1 c1 where "sc1 = (s1, c1)" by (cases sc1)
    with Answered same that(1) show ?thesis by (cases "en (s', c)") auto
  next
    case (Passed sc1 leave)
    obtain s1 c1 where sc1: "sc1 = (s1, c1)" by (cases sc1)
    with Passed same obtain s1' where "en (s', c) = Passed (s1', c1) leave" by (cases "en (s', c)") auto
    with Passed sc1 priv that(2) show ?thesis by simp
  qed
qed

lemma local_after:
  assumes "local_enter m en"
  shows "disk_of (after (en (s, c))) = disk_of s"
    "m \<noteq> Builtin ''concurrency_limit'' \<Longrightarrow> sh_limiter (after (en (s, c))) = sh_limiter s"
    "m \<noteq> RateLimitMiddleware \<Longrightarrow> sh_rate (after (en (s, c))) = sh_rate s"
  using assms by (auto simp: local_enter_def disk_of_def)

lemma sole_Cons: "sole (m # ms) \<Longrightarrow> sole ms \<and> (m = Builtin ''concurrency_limit'' \<or> m = RateLimitMiddleware \<longrightarrow> m \<notin> set ms)"
  by (auto simp: sole_def split: if_splits)

lemma agree_after:
  assumes "sole (m # ms)" "local_enter m en" "agree ms s s'"
  shows "agree ms (after (en (s, c))) (after (en (s', c')))"
  using assms(3) sole_Cons [OF assms(1)] local_after [OF assms(2), of s c] local_after [OF assms(2), of s' c']
  by (auto simp: agree_def looks_same_def)

lemma private_leaveD:
  assumes "private_leave leave"
  shows "answer_of (leave (s, c) e) = answer_of (leave (s', c) e)"
  using assms unfolding private_leave_def by blast

lemma root_agree:
  assumes "bracketed D" "isolated D"
  shows "sole ms \<Longrightarrow> agree ms s s' \<Longrightarrow>
    answer_of (root_handler (dp_runtime D) (dp_server D) q ms (dp_router D) (s, c)) =
    answer_of (root_handler (dp_runtime D) (dp_server D) q ms (dp_router D) (s', c))"
proof (induction ms arbitrary: s s' c)
  case Nil
  then show ?case by (auto simp: root_handler_simps agree_def intro: router_same(1) [OF assms(2)])
next
  case (Cons m ms)
  let ?en = "enter_of D q m" and ?root = "root_handler (dp_runtime D) (dp_server D) q ms (dp_router D)"
  have loc: "local_enter m ?en" by (rule local_enter_of [OF assms(2)])
  have looks: "looks_same m s s'" "agree ms s s'" using Cons.prems(2) by (auto simp: agree_def)
  have ag: "agree ms (after (?en (s, c))) (after (?en (s', c)))" by (rule agree_after [OF Cons.prems(1) loc looks(2)])
  show ?case
    using loc looks(1)
  proof (cases rule: local_enterE [where c = c])
    case (passed s1 s1' c1 leave)
    with Cons.IH [of s1 s1' c1] ag sole_Cons [OF Cons.prems(1)] have same: "answer_of (?root (s1, c1)) = answer_of (?root (s1', c1))" by simp
    obtain s2 s2' c2 e2 where r: "?root (s1, c1) = ((s2, c2), e2)" "?root (s1', c1) = ((s2', c2), e2)"
      using same by (rule answer_eqE)
    then show ?thesis
      using passed private_leaveD [OF passed(3)] by (simp add: root_handler_simps middleware_bracket [OF assms(1)] bracket_def)
  qed (simp add: root_handler_simps middleware_bracket [OF assms(1)] bracket_def)
qed

subsection \<open>One request behind a moving state\<close>

text \<open>The responses a request can still get when the rest of it runs alone, in the state \<open>sh\<close> but for the
  two limiters.\<close>

definition may_answer ::
    "('f, 'd, 't) deployment \<Rightarrow> request_env \<Rightarrow> ('d, 't) shared \<Rightarrow> ('f, 'd, 't) phase \<Rightarrow> handler Context
      \<Rightarrow> handler Context \<times> ending \<Rightarrow> bool" where
  "may_answer D q sh p c r \<longleftrightarrow>
     (\<exists>l rl. answer_of (remaining D q ((sh\<lparr>sh_limiter := l, sh_rate := rl\<rparr>, c), p)) = r)"

fun wf_phase :: "('f, 'd, 't) phase \<Rightarrow> bool" where
  "wf_phase (Descend ms fs) \<longleftrightarrow> sole ms \<and> list_all (\<lambda>f. private_leave (snd f)) fs"
| "wf_phase (Unwind e fs) \<longleftrightarrow> list_all (\<lambda>f. private_leave (snd f)) fs"

lemma unwind_private:
  "list_all (\<lambda>f. private_leave (snd f)) fs \<Longrightarrow> answer_of (unwind fs ((s, c), e)) = answer_of (unwind fs ((s', c), e))"
proof (induction fs arbitrary: s s' c e)
  case (Cons f fs)
  obtain m leave where f: "f = (m, leave)" by (cases f)
  with Cons.prems have "answer_of (leave (s, c) e) = answer_of (leave (s', c) e)" by (simp add: private_leaveD)
  then obtain s1 s1' c1 e1 where "leave (s, c) e = ((s1, c1), e1)" "leave (s', c) e = ((s1', c1), e1)" by (rule answer_eqE)
  with Cons f show ?case by simp
qed simp

lemma unwind_same:
  assumes "list_all (\<lambda>f. private_leave (snd f)) fs" "answer_of r = answer_of r'"
  shows "answer_of (unwind fs r) = answer_of (unwind fs r')"
proof -
  obtain s s' c e where "r = ((s, c), e)" "r' = ((s', c), e)" using assms(2) by (rule answer_eqE)
  with unwind_private [OF assms(1)] show ?thesis by simp
qed

lemma advance_wf:
  assumes "isolated D" "wf_phase p" "advance D q ((s, c), p) = ((s', c'), p')"
  shows "wf_phase p' \<and> disk_of s' = disk_of s"
proof (cases "(D, q, (s, c), p)" rule: advance.cases)
  case (1 D' q' sc fs)
  with assms router_same(2) [OF assms(1) refl, of "dp_server D" q "dp_router D" s c]
  show ?thesis by (auto simp: disk_of_def split: prod.splits)
next
  case (2 D' q' sc m ms fs)
  then have p: "p = Descend (m # ms) fs" by simp
  have loc: "local_enter m (enter_of D q m)" by (rule local_enter_of [OF assms(1)])
  show ?thesis
  proof (cases rule: local_enterE [OF loc, of s s c])
    case 1
    show ?case by (simp add: looks_same_def)
  next
    case (2 s1 s1' c1)
    with p assms local_after(1) [OF loc, of s c] show ?thesis by auto
  next
    case (3 s1 s1' c1 leave)
    with p assms local_after(1) [OF loc, of s c] show ?thesis by (auto dest: sole_Cons)
  qed
next
  case (3 D' q' sc e m leave fs)
  with assms(2) have "private_leave leave" by simp
  then have "sh_files (fst (fst (leave (s, c) e))) = sh_files s" by (simp add: private_leave_def)
  with 3 assms show ?thesis by (auto simp: disk_of_def split: prod.splits)
qed (use assms in auto)

lemma advance_backward:
  assumes "bracketed D" "isolated D" "wf_phase p" "disk_of s = disk_of sh"
    and "advance D q ((s, c), p) = ((s', c'), p')" "may_answer D q sh p' c' r"
  shows "may_answer D q sh p c r"
proof -
  obtain l rl where r: "answer_of (remaining D q ((sh\<lparr>sh_limiter := l, sh_rate := rl\<rparr>, c'), p')) = r"
    using assms(6) by (auto simp: may_answer_def)
  let ?sh = "sh\<lparr>sh_limiter := l, sh_rate := rl\<rparr>"
  have d: "disk_of (sh\<lparr>sh_limiter := l', sh_rate := rl'\<rparr>) = disk_of s" for l' rl' using assms(4) by (simp add: disk_of_def)
  show ?thesis
  proof (cases "(D, q, (s, c), p)" rule: advance.cases)
    case (1 D' q' sc fs)
    let ?S = "ServeHTTP (dp_runtime D) (dp_server D) q (dp_router D)"
    obtain e where e: "?S (s, c) = ((s', c'), e)" "p' = Unwind e fs" "p = Descend [] fs"
      using 1 assms(5) by (auto split: prod.splits)
    have "answer_of (?S (?sh, c)) = answer_of (?S (s, c))" by (rule router_same(1) [OF assms(2) d])
    then have "answer_of (?S (?sh, c)) = answer_of ((?sh, c'), e)" by (simp add: e)
    from unwind_same [OF _ this, of fs] e r assms(3)
    show ?thesis unfolding may_answer_def by (intro exI [of _ l] exI [of _ rl]) (simp add: root_handler_simps)
  next
    case (2 D' q' sc m ms fs)
    define sh3 where "sh3 = sh\<lparr>sh_limiter := if m = Builtin ''concurrency_limit'' then sh_limiter s else l,
        sh_rate := if m = RateLimitMiddleware then sh_rate s else rl\<rparr>"
    let ?en = "enter_of D q m" and ?root = "root_handler (dp_runtime D) (dp_server D) q"
    have loc: "local_enter m ?en" by (rule local_enter_of [OF assms(2)])
    have looks: "looks_same m s sh3" by (auto simp: looks_same_def sh3_def)
    from 2 assms(3) have p: "p = Descend (m # ms) fs" "sole (m # ms)" "list_all (\<lambda>f. private_leave (snd f)) fs" by auto
    have "agree ms sh3 ?sh"
      using sole_Cons [OF p(2)] by (auto simp: agree_def looks_same_def sh3_def disk_of_def)
    note ag = this
    have root: "?root (m # ms) (dp_router D) x = bracket ?en (?root ms (dp_router D)) x" for x
      by (simp add: root_handler_simps middleware_bracket [OF assms(1)])
    have "answer_of (remaining D q ((sh3, c), p)) = r"
      using loc looks
    proof (cases rule: local_enterE [where c = c])
      case (answered s1 s1' c1)
      with assms(5) p(1) have "p' = Unwind Returned fs" "c' = c1" by auto
      with answered p r unwind_private [OF p(3), of s1' c1 Returned ?sh] show ?thesis by (simp add: root bracket_def)
    next
      case (passed s1 s1' c1 leave)
      with assms(5) p(1) have p': "p' = Descend ms ((m, leave) # fs)" "c' = c1" by auto
      have "agree ms s1' ?sh"
        using agree_after [OF p(2) loc ag, of c c] ag local_after [OF loc, of sh3 c] passed(2) sole_Cons [OF p(2)]
        by (auto simp: agree_def looks_same_def)
      then have "answer_of (?root ms (dp_router D) (s1', c1)) = answer_of (?root ms (dp_router D) (?sh, c1))"
        using root_agree [OF assms(1,2)] sole_Cons [OF p(2)] by blast
      then have "answer_of (unwind ((m, leave) # fs) (?root ms (dp_router D) (s1', c1))) =
          answer_of (unwind ((m, leave) # fs) (?root ms (dp_router D) (?sh, c1)))"
        using passed(3) p(3) by (intro unwind_same) simp_all
      moreover have "unwind fs (bracket ?en (?root ms (dp_router D)) (sh3, c)) = unwind ((m, leave) # fs) (?root ms (dp_router D) (s1', c1))"
        by (simp add: bracket_def passed split: prod.split)
      ultimately show ?thesis using p(1) p' r by (simp only: remaining.simps root)
    qed
    then show ?thesis unfolding may_answer_def sh3_def by blast
  next
    case (3 D' q' sc e m leave fs)
    with assms(3,5) have p': "p' = Unwind (snd (leave (s, c) e)) fs" "c' = snd (fst (leave (s, c) e))"
      "p = Unwind e ((m, leave) # fs)" "private_leave leave" "list_all (\<lambda>f. private_leave (snd f)) fs" by (auto split: prod.splits)
    have "answer_of (leave (?sh, c) e) = answer_of ((?sh, c'), snd (leave (s, c) e))"
      using private_leaveD [OF p'(4), of ?sh c e s] p'(2) by (simp add: answer_of_def split: prod.splits)
    from unwind_same [OF p'(5) this] p' r show ?thesis
      unfolding may_answer_def by (intro exI [of _ l] exI [of _ rl]) simp
  next
    case (4 D' q' sc e)
    with assms(5) r show ?thesis unfolding may_answer_def by (intro exI [of _ l] exI [of _ rl]) auto
  qed
qed

subsection \<open>Every response is a response to the request alone\<close>

definition fresh_context :: "job \<Rightarrow> handler Context" where
  "fresh_context j = (case j of (q, w, r) \<Rightarrow> SetRequest r (NewContext w r))"

lemma arrived_fresh: "arrived pooled j = fresh_context j"
  by (simp add: arrived_def fresh_context_def acquire_fresh split: prod.split)

definition explained ::
    "('f, 'd, 't) deployment \<Rightarrow> job \<Rightarrow> ('d, 't) shared \<Rightarrow> handler Context list \<Rightarrow> ('f, 'd, 't) progress \<Rightarrow> bool" where
  "explained D j sh heap p \<longleftrightarrow>
     (case p of
        Waiting \<Rightarrow> True
      | Serving a ph \<Rightarrow> wf_phase ph \<and> (\<forall>r. may_answer D (fst j) sh ph (heap ! a) r \<longrightarrow>
          may_answer D (fst j) sh (Descend (dp_chain D) []) (fresh_context j) r)
      | Done c e \<Rightarrow> may_answer D (fst j) sh (Descend (dp_chain D) []) (fresh_context j) (c, e))"

definition isolation_inv :: "('f, 'd, 't) deployment \<Rightarrow> job list \<Rightarrow> ('d, 't) shared \<Rightarrow> ('f, 'd, 't) system \<Rightarrow> bool" where
  "isolation_inv D jobs sh y \<longleftrightarrow>
     owned y \<and> disk_of (sy_shared y) = disk_of sh
     \<and> (\<forall>i < length (sy_requests y). explained D (jobs ! i) sh (sy_heap y) (sy_requests y ! i))"

lemma explained_heap:
  "explained D j sh heap p \<Longrightarrow> (\<And>a ph. p = Serving a ph \<Longrightarrow> heap' ! a = heap ! a) \<Longrightarrow> explained D j sh heap' p"
  by (auto simp: explained_def split: progress.splits)

text \<open>Writing to the context of one request leaves those of the others alone.\<close>

lemma explained_others:
  assumes "isolation_inv D jobs sh y" "i < length (sy_requests y)"
    and "explained D (jobs ! i) sh heap' p"
    and "\<And>j a ph. j < length (sy_requests y) \<Longrightarrow> j \<noteq> i \<Longrightarrow> sy_requests y ! j = Serving a ph \<Longrightarrow> heap' ! a = sy_heap y ! a"
  shows "\<forall>j < length ((sy_requests y)[i := p]). explained D (jobs ! j) sh heap' ((sy_requests y)[i := p] ! j)"
proof (intro allI impI)
  fix j
  assume j: "j < length ((sy_requests y)[i := p])"
  show "explained D (jobs ! j) sh heap' ((sy_requests y)[i := p] ! j)"
  proof (cases "j = i")
    case False
    with j assms(1) have "explained D (jobs ! j) sh (sy_heap y) (sy_requests y ! j)" by (simp add: isolation_inv_def)
    then have "explained D (jobs ! j) sh heap' (sy_requests y ! j)"
    proof (rule explained_heap)
      show "heap' ! a = sy_heap y ! a" if "sy_requests y ! j = Serving a ph" for a ph
        using assms(4) [OF _ False that] j by simp
    qed
    with False show ?thesis by simp
  qed (use assms(2,3) in simp)
qed

lemma owned_bounds:
  assumes "owned y" "i < length (sy_requests y)" "sy_requests y ! i = Serving a p"
  shows "a < length (sy_heap y)" "a \<notin> set (sy_pool y)"
    "j < length (sy_requests y) \<Longrightarrow> j \<noteq> i \<Longrightarrow> sy_requests y ! j = Serving b p' \<Longrightarrow> b \<noteq> a"
proof -
  have d: "distinct (in_use (sy_requests y))" using assms(1) by (simp add: owned_def)
  show "a < length (sy_heap y)" "a \<notin> set (sy_pool y)" using assms(1) in_useI [OF assms(2,3)] by (auto simp: owned_def)
  show "b \<noteq> a" if "j < length (sy_requests y)" "j \<noteq> i" "sy_requests y ! j = Serving b p'"
    using in_use_inj [OF d that(1) assms(2) that(3), of p] assms(3) that(2) by metis
qed

lemma isolation_step:
  assumes "bracketed D" "isolated D" "sole (dp_chain D)" "isolation_inv D jobs sh y" "serve_step D jobs y i y'"
  shows "isolation_inv D jobs sh y'"
proof -
  have own: "owned y" and disk: "disk_of (sy_shared y) = disk_of sh" using assms(4) by (simp_all add: isolation_inv_def)
  have start: "explained D (jobs ! i) sh heap' (Serving a (Descend (dp_chain D) []))" if "heap' ! a = fresh_context (jobs ! i)" for heap' a
    using that assms(3) by (simp add: explained_def)
  have others: "\<forall>j < length (sy_requests y'). explained D (jobs ! j) sh (sy_heap y') (sy_requests y' ! j)"
    using assms(5)
  proof cases
    case (take_pooled a)
    then have "a < length (sy_heap y)" using own by (auto simp: owned_def)
    then have "explained D (jobs ! i) sh ((sy_heap y)[a := arrived (sy_heap y ! a) (jobs ! i)]) (Serving a (Descend (dp_chain D) []))"
      by (intro start) (simp add: arrived_fresh)
    note ex = explained_others [OF assms(4) take_pooled(2) this]
    have "(sy_heap y)[a := c] ! b = sy_heap y ! b" if "j < length (sy_requests y)" "sy_requests y ! j = Serving b ph" for j b ph c
      using owned_bounds(2) [OF own that] take_pooled(4) by (metis nth_list_update_neq)
    from ex [OF this] show ?thesis using take_pooled(1) by simp
  next
    case take_new
    have "explained D (jobs ! i) sh (sy_heap y @ [arrived (NewContext new_writer nil_request) (jobs ! i)])
        (Serving (length (sy_heap y)) (Descend (dp_chain D) []))"
      by (intro start) (simp add: arrived_fresh)
    note ex = explained_others [OF assms(4) take_new(2) this]
    have "(sy_heap y @ [c]) ! b = sy_heap y ! b" if "j < length (sy_requests y)" "sy_requests y ! j = Serving b ph" for j b ph c
      using owned_bounds(1) [OF own that] by (simp add: nth_append)
    from ex [OF this] show ?thesis using take_new(1) by simp
  next
    case (work a p s c p')
    have ex: "explained D (jobs ! i) sh (sy_heap y) (Serving a p)" using assms(4) work(2,3) by (simp add: isolation_inv_def) metis
    have a: "a < length (sy_heap y)" using owned_bounds(1) [OF own work(2,3)] .
    have "explained D (jobs ! i) sh ((sy_heap y)[a := c]) (Serving a p')"
      using ex a advance_wf [OF assms(2) _ work(5)] advance_backward [OF assms(1,2) _ disk work(5)] by (simp add: explained_def)
    note ex = explained_others [OF assms(4) work(2) this]
    have "(sy_heap y)[a := c] ! b = sy_heap y ! b" if "j < length (sy_requests y)" "j \<noteq> i" "sy_requests y ! j = Serving b ph" for j b ph
      using owned_bounds(3) [OF own work(2,3) that] by simp
    from ex [OF this] show ?thesis using work(1) by simp
  next
    case (put_back a e)
    have ex: "explained D (jobs ! i) sh (sy_heap y) (Serving a (Unwind e []))" using assms(4) put_back(2,3) by (simp add: isolation_inv_def) metis
    then have "may_answer D (fst (jobs ! i)) sh (Descend (dp_chain D) []) (fresh_context (jobs ! i)) (sy_heap y ! a, e)"
      by (simp add: explained_def may_answer_def)
    then have "explained D (jobs ! i) sh (sy_heap y) (Done (sy_heap y ! a) e)" by (simp add: explained_def)
    from explained_others [OF assms(4) put_back(2) this] show ?thesis using put_back(1) by simp
  qed
  have "disk_of (sy_shared y') = disk_of sh"
    using assms(5)
  proof cases
    case (work a p s c p')
    then have "wf_phase p" using assms(4) by (auto simp: isolation_inv_def explained_def dest!: spec [of _ i])
    with advance_wf [OF assms(2) _ work(5)] work disk show ?thesis by simp
  qed (use disk in simp_all)
  with others owned_step [OF own assms(5)] show ?thesis by (simp add: isolation_inv_def)
qed

text \<open>C3. Requests do not disturb each other: however many requests are interleaved, between any two
  middlewares, with the contexts of the pool passed from one to the next, the context and the
  ending of every request are those that the server gives to this request alone, from the
  initial state in which only the limiter and the rate limiter are as the request met them;
  without these two in the chain, exactly those from the initial state.\<close>

theorem requests_isolated:
  assumes "serve_run D jobs (opened sh k) n y" and "bracketed D" and "isolated D" and "sole (dp_chain D)"
    and "i < k" and "sy_requests y ! i = Done c e" and "jobs ! i = (q, w, r)"
  shows "\<exists>l rl. answer_of (handle_request (dp_runtime D) (dp_server D) q (dp_chain D) (dp_router D) pooled w r
      (sh\<lparr>sh_limiter := l, sh_rate := rl\<rparr>)) = (c, e)
    \<and> (Builtin ''concurrency_limit'' \<notin> set (dp_chain D) \<and> RateLimitMiddleware \<notin> set (dp_chain D) \<longrightarrow>
        answer_of (handle_request (dp_runtime D) (dp_server D) q (dp_chain D) (dp_router D) pooled w r sh) = (c, e))"
proof -
  have "isolation_inv D jobs sh y"
  proof (rule invariant_run [OF assms(1)])
    show "isolation_inv D jobs sh (opened sh k)"
      by (auto simp: isolation_inv_def opened_def owned_def in_use_def explained_def)
  qed (rule isolation_step [OF assms(2,3,4)])
  moreover have "length (sy_requests y) = k" using run_length [OF assms(1)] by (simp add: opened_def)
  ultimately have "explained D (jobs ! i) sh (sy_heap y) (Done c e)" using assms(5,6) by (metis isolation_inv_def)
  then obtain l rl where alone: "answer_of (handle_request (dp_runtime D) (dp_server D) q (dp_chain D) (dp_router D) pooled w r
      (sh\<lparr>sh_limiter := l, sh_rate := rl\<rparr>)) = (c, e)"
    using assms(7) by (auto simp: explained_def may_answer_def fresh_context_def handle_request_def acquire_fresh)
  moreover have "answer_of (handle_request (dp_runtime D) (dp_server D) q (dp_chain D) (dp_router D) pooled w r sh) = (c, e)"
    if "Builtin ''concurrency_limit'' \<notin> set (dp_chain D)" "RateLimitMiddleware \<notin> set (dp_chain D)"
  proof -
    have "agree (dp_chain D) sh (sh\<lparr>sh_limiter := l, sh_rate := rl\<rparr>)"
      using that by (auto simp: agree_def looks_same_def disk_of_def)
    from root_agree [OF assms(2,3,4) this] alone show ?thesis by (simp add: handle_request_def)
  qed
  ultimately show ?thesis by blast
qed

theorem requests_isolated_witness:
  "\<exists>n y c e l rl. serve_run demo_deployment demo_jobs (opened demo_shared 2) n y \<and> sy_requests y ! 1 = Done c e
    \<and> answer_of (handle_request demo_runtime demo_limited demo_request_env (dp_chain demo_deployment) demo_panicking
        (NewContext new_writer nil_request) new_writer (nil_request\<lparr>req_method := ''GET'', req_path := ''/x''\<rparr>)
        (demo_shared\<lparr>sh_limiter := l, sh_rate := rl\<rparr>)) = (c, e)"
proof -
  obtain n y where run: "serve_run demo_deployment demo_jobs (opened demo_shared 2) n y" "\<forall>i < 2. is_done (sy_requests y ! i)"
    using demo_load by blast
  then have "is_done (sy_requests y ! 1)" by simp
  then obtain c e where d: "sy_requests y ! 1 = Done c e" by (auto simp: is_done_def split: progress.splits)
  have iso: "isolated demo_deployment"
    by (simp add: isolated_def local_enter_def demo_deployment_def read_only_def demo_runtime_def)
  have "sole (dp_chain demo_deployment)" by (simp add: sole_def demo_deployment_def)
  from requests_isolated [OF run(1) demo_bracketed iso this _ d, of demo_request_env new_writer
      "nil_request\<lparr>req_method := ''GET'', req_path := ''/x''\<rparr>" "NewContext new_writer nil_request"]
  have "\<exists>l rl. answer_of (handle_request demo_runtime demo_limited demo_request_env (dp_chain demo_deployment) demo_panicking
        (NewContext new_writer nil_request) new_writer (nil_request\<lparr>req_method := ''GET'', req_path := ''/x''\<rparr>)
        (demo_shared\<lparr>sh_limiter := l, sh_rate := rl\<rparr>)) = (c, e)"
    by (auto simp: demo_jobs_def demo_deployment_def)
  with run(1) d show ?thesis by blast
qed

end
