(* ===== verification/Examples.thy ===== *)
theory Examples
  imports Probes Isolation
begin

text \<open>
  The programs under \<open>examples/\<close>: each \<open>main\<close> as a function from its surroundings to how it
  ends, its server built by the setters in the order of the source, its handlers as programs
  of the chain. Five of the seven never switch a listener on.
\<close>

subsection \<open>Surroundings\<close>

text \<open>\<open>logx\<close>, \<open>confx\<close>, \<open>metricsx\<close>, \<open>clix\<close>, the embedded files, and the operations on uploads.\<close>

record 'f example_env =
  ex_logger :: bool
  ex_manager :: bool
  ex_load :: "string \<Rightarrow> Config \<times> bool"
  ex_start :: start_env
  ex_metrics :: "'f option"
  ex_prometheus :: handler
  ex_clix :: bool
  ex_flag :: "string \<Rightarrow> string"
  ex_dist :: "'f option"
  ex_no_check :: 'f
  ex_marshal :: "goval \<Rightarrow> string option"
  ex_now :: int
  ex_form_file :: "string \<Rightarrow> unit Context \<Rightarrow> string option"
  ex_save :: "string \<Rightarrow> unit Context \<Rightarrow> bool"
  ex_join :: "string \<Rightarrow> string \<Rightarrow> string"

datatype ('f, 't) main_end =
    MainPanics
  | MainReturns
  | MainServes "('f, 't) Server" "(handler, 'f) Router" "'f middleware_value list"

definition config_toml :: "'f example_env \<Rightarrow> string \<Rightarrow> Config \<times> config_error option" where
  "config_toml env path =
     LoadConfig (ex_manager env) (ex_load env) (env_cidr (ex_start env)) (env_ip (ex_start env)) path"

text \<open>The shape of every \<open>main\<close> after its logger: configuration, the server, which is \<open>None\<close> when
  something it needs fails, \<open>Start\<close>; \<open>bad\<close> is how it ends on an error.\<close>

definition start_example ::
    "'f example_env \<Rightarrow> string \<Rightarrow> ('f, 't) main_end \<Rightarrow> (Config \<Rightarrow> ('f, 't) Server option) \<Rightarrow> ('f, 't) main_end" where
  "start_example env path bad build =
     (case config_toml env path of
        (cfg, Some e) \<Rightarrow> bad
      | (cfg, None) \<Rightarrow>
          (case build cfg of
             None \<Rightarrow> bad
           | Some s \<Rightarrow>
               (case Start (ex_start env) s of
                  (s', Inl e) \<Rightarrow> bad
                | (s', Inr (rt, chain)) \<Rightarrow> MainServes s' rt chain)))"

text \<open>\<open>c.Success\<close> with a payload made from the context, and \<open>c.Fail\<close>.\<close>

definition success_with :: "'f example_env \<Rightarrow> string \<Rightarrow> (unit Context \<Rightarrow> goval option) \<Rightarrow> handler" where
  "success_with env msg payload =
     Do (OpWith (\<lambda>v. OpStandardized (ex_now env) 200 msg (payload v) (Option.bind (payload v) (ex_marshal env)) 0)) Return"

definition fail_with :: "'f example_env \<Rightarrow> int \<Rightarrow> int \<Rightarrow> string \<Rightarrow> handler" where
  "fail_with env st code msg = Do (OpStandardized (ex_now env) st msg None None code) Return"

definition string_map :: "string \<Rightarrow> string \<Rightarrow> goval option" where
  "string_map k v = Some (GMap [(k, GString v)])"

definition get_route :: "string \<Rightarrow> handler \<Rightarrow> handler Route" where
  "get_route path h = \<lparr>Method = ''GET'', Path = path, Handler = h, Middleware = [], Group_of = []\<rparr>"

definition user_handler :: "'f example_env \<Rightarrow> handler" where
  "user_handler env = success_with env ''ok'' (\<lambda>v. string_map ''id'' (Param_of ''id'' v))"

subsection \<open>The programs\<close>

definition basic_server :: "'f example_env \<Rightarrow> Config \<Rightarrow> ('f, 't) Server" where
  "basic_server env cfg =
     RegisterRoute (get_route ''/ping'' (success_with env ''pong'' (\<lambda>_. None)))
       (UseHttp1or2Listen '':8443'' True (NewServer cfg True))"

definition basic_main :: "'f example_env \<Rightarrow> ('f, 't) main_end" where
  "basic_main env =
     (if \<not> ex_logger env then MainPanics else start_example env ''config.toml'' MainPanics (\<lambda>cfg. Some (basic_server env cfg)))"

definition text_no_user :: string where
  "text_no_user =
     [CHR 0xE7, CHR 0x94, CHR 0xA8, CHR 0xE6, CHR 0x88, CHR 0xB7, CHR 0xE4, CHR 0xB8,
      CHR 0x8D, CHR 0xE5, CHR 0xAD, CHR 0x98, CHR 0xE5, CHR 0x9C, CHR 0xA8]"

definition demo_main :: "'f example_env \<Rightarrow> ('f, 't) main_end" where
  "demo_main env =
     (if \<not> ex_logger env then MainPanics
      else start_example env ''config.toml'' MainReturns (\<lambda>cfg. Some (
        RegisterRoute (get_route ''/api/users/:id''
          (When (Param_test ''id'' (\<lambda>p. p = ''0'')) (fail_with env 404 404 text_no_user) (user_handler env)))
        (NewServer cfg True))))"

definition fluent_main :: "'f example_env \<Rightarrow> ('f, 't) main_end" where
  "fluent_main env =
     (if \<not> ex_logger env then MainPanics
      else start_example env ''config.toml'' MainPanics (\<lambda>cfg. Some (
        EnableRateLimit_server (env_cidr (ex_start env)) (env_ip (ex_start env))
          \<lparr>QPS = 200, Window = second, Whitelist = [], CleanupInterval = 0, KeyFunc = None\<rparr>
        (RegisterRouteGroup ''/api/v2''
          [CallRegister 0 ''GET'' ''/products'' (success_with env ''ok'' (\<lambda>_. Some (GString ''products''))) []]
        (RegisterRoute (get_route ''/api/users/:id'' (user_handler env))
        (UseHttp3Listen '':8443''
        (UseHttp1or2Listen '':8443'' True (NewServer cfg True))))))))"

definition metrics_main :: "'f example_env \<Rightarrow> ('f, 't) main_end" where
  "metrics_main env =
     (if \<not> ex_logger env then MainPanics
      else start_example env ''config.toml'' MainPanics (\<lambda>cfg.
        case ex_metrics env of
          None \<Rightarrow> None
        | Some sink \<Rightarrow> Some (
            RegisterRoute (get_route ''/ping'' (success_with env ''pong'' (\<lambda>_. None)))
            (RegisterRouteGroup ''/api'' [CallRegister 0 ''GET'' ''/users/:id'' (user_handler env) []]
            (RegisterRoute (get_route ''/metrics'' (ex_prometheus env))
            (WithMetrics (Some sink) (NewServer cfg True)))))))"

text \<open>The constants of \<open>middlewaretypes.go\<close>, and those \<open>order\<close> puts in its order.\<close>

definition MiddlewareTypes :: "string list" where
  "MiddlewareTypes =
     [''request_id'', ''cors'', ''timeout'', ''recovery'', ''validation'', ''rate_limit'', ''gzip'', ''metrics'',
      ''security'', ''access_log'']"

definition order_main :: "'f example_env \<Rightarrow> ('f, 't) main_end" where
  "order_main env =
     (if \<not> ex_logger env then MainPanics
      else start_example env ''config.toml'' MainPanics (\<lambda>cfg. Some (
        RegisterRoute (get_route ''/'' (success_with env ''ok'' (\<lambda>v. string_map ''requestId'' (RequestID v))))
        (SetMiddlewareOrder
          [''request_id'', ''rate_limit'', ''timeout'', ''recovery'', ''cors'', ''validation'', ''security'', ''gzip'',
           ''metrics'', ''access_log'']
        (NewServer cfg True)))))"

definition spa_main :: "'f example_env \<Rightarrow> ('f, 't) main_end" where
  "spa_main env =
     (if \<not> ex_logger env then MainPanics
      else start_example env ''config.toml'' MainPanics (\<lambda>cfg.
        case ex_dist env of
          None \<Rightarrow> None
        | Some sub \<Rightarrow> Some (EnableSPA sub ''index.html'' (ServeStaticFS ''/'' sub (NewServer cfg True)))))"

definition text_no_file :: string where
  "text_no_file =
     [CHR 0xE7, CHR 0xBC, CHR 0xBA, CHR 0xE5, CHR 0xB0, CHR 0x91, CHR 0xE4, CHR 0xB8, CHR 0x8A,
      CHR 0xE4, CHR 0xBC, CHR 0xA0, CHR 0xE6, CHR 0x96, CHR 0x87, CHR 0xE4, CHR 0xBB, CHR 0xB6]"

definition text_not_saved :: string where
  "text_not_saved =
     [CHR 0xE4, CHR 0xBF, CHR 0x9D, CHR 0xE5, CHR 0xAD, CHR 0x98, CHR 0xE4, CHR 0xB8, CHR 0x8A,
      CHR 0xE4, CHR 0xBC, CHR 0xA0, CHR 0xE6, CHR 0x96, CHR 0x87, CHR 0xE4, CHR 0xBB, CHR 0xB6,
      CHR 0xE5, CHR 0xA4, CHR 0xB1, CHR 0xE8, CHR 0xB4, CHR 0xA5]"

definition upload_handler :: "'f example_env \<Rightarrow> handler" where
  "upload_handler env =
     (let dest = (\<lambda>v. case ex_form_file env ''file'' v of None \<Rightarrow> [] | Some name \<Rightarrow> ex_join env (ex_flag env ''uploads'') name)
      in When (View_test (\<lambda>v. ex_form_file env ''file'' v = None)) (fail_with env 400 400 text_no_file)
           (When (View_test (\<lambda>v. \<not> ex_save env (dest v) v)) (fail_with env 500 500 text_not_saved)
             (success_with env ''ok'' (\<lambda>v. string_map ''file'' (dest v)))))"

definition production_server :: "'f example_env \<Rightarrow> 'f \<Rightarrow> Config \<Rightarrow> ('f, 't) Server" where
  "production_server env sink cfg =
     RegisterRouteGroup ''/api''
       [CallRegister 0 ''GET'' ''/users/:id'' (user_handler env) [], CallRegister 0 ''POST'' ''/upload'' (upload_handler env) []]
     (RegisterReadinessCheck ''db'' (Some (ex_no_check env))
     (RegisterLivenessCheck ''live'' (Some (ex_no_check env))
     (EnableRateLimit_server (env_cidr (ex_start env)) (env_ip (ex_start env))
       \<lparr>QPS = 100, Window = second, Whitelist = [], CleanupInterval = 0, KeyFunc = None\<rparr>
     (SetMaxConcurrentRequests 200
     (RegisterRoute (get_route ''/metrics'' (ex_prometheus env))
     (WithMetrics (Some sink) (NewServer cfg True)))))))"

definition production_run :: "'f example_env \<Rightarrow> ('f, 't) main_end" where
  "production_run env =
     (if \<not> ex_logger env then MainReturns
      else start_example env (ex_flag env ''config'') MainReturns (\<lambda>cfg.
        case ex_metrics env of None \<Rightarrow> None | Some sink \<Rightarrow> Some (production_server env sink cfg)))"

definition production_main :: "'f example_env \<Rightarrow> ('f, 't) main_end" where
  "production_main env = (if \<not> ex_clix env then MainPanics else production_run env)"

subsection \<open>Programs that cannot serve\<close>

definition idle :: "('f, 't) Server \<Rightarrow> bool" where
  "idle s \<longleftrightarrow> \<not> httpEnabled s \<and> \<not> http3Enabled s \<and> \<not> unixEnabled s \<and> \<not> started s \<and> logger s"

lemma Start_idle: "idle s \<Longrightarrow> Start env s = (s\<lparr>started := True\<rparr>, Inl NoListener)"
  by (simp add: idle_def Start_def Let_def)

lemmas example_defs = setter_defs unless_started_def NewServer_def ServeStaticFS_def

lemma idle_setters [simp]:
  "idle (NewServer cfg True)"
  "idle s \<Longrightarrow> idle (RegisterRoute r s)" "idle s \<Longrightarrow> idle (RegisterRouteGroup pre fn s)"
  "idle s \<Longrightarrow> idle (WithMetrics m s)" "idle s \<Longrightarrow> idle (SetMiddlewareOrder ks s)"
  "idle s \<Longrightarrow> idle (ServeStaticFS pre fs s)" "idle s \<Longrightarrow> idle (EnableSPA fs i s)"
  "idle s \<Longrightarrow> idle (SetMaxConcurrentRequests n s)" "idle s \<Longrightarrow> idle (EnableRateLimit_server pc pi opts s)"
  "idle s \<Longrightarrow> idle (RegisterLivenessCheck name f s)" "idle s \<Longrightarrow> idle (RegisterReadinessCheck name f s)"
  by (simp_all add: idle_def example_defs Let_def split: option.split)

lemma idle_never_serves:
  assumes "\<And>cfg srv. build cfg = Some srv \<Longrightarrow> idle srv" and "bad \<noteq> MainServes s rt ch"
  shows "start_example env path bad build \<noteq> MainServes s rt ch"
  using assms by (auto simp: start_example_def Start_idle split: prod.splits option.splits)

text \<open>Five of the examples never serve: whatever their configuration file and the libraries give them,
  \<open>Start\<close> refuses their servers because no listener was switched on. The configuration cannot
  switch one on.\<close>

theorem examples_without_listener:
  "demo_main env \<noteq> MainServes s rt ch \<and> metrics_main env \<noteq> MainServes s rt ch \<and> order_main env \<noteq> MainServes s rt ch
   \<and> spa_main env \<noteq> MainServes s rt ch \<and> production_main env \<noteq> MainServes s rt ch"
proof (cases "ex_logger env")
  case True
  show ?thesis
    unfolding demo_main_def metrics_main_def order_main_def spa_main_def production_main_def production_run_def
    by (simp add: True, intro conjI impI idle_never_serves) (auto simp: production_server_def split: option.splits)
next
  case False
  then show ?thesis
    by (simp add: demo_main_def metrics_main_def order_main_def spa_main_def production_main_def production_run_def)
qed

subsection \<open>Programs that do\<close>

text \<open>What \<open>basic\<close> serves: \<open>GET /ping\<close> goes to the chain of its route, and on a fresh context that
  chain records the route and sends one response, with status 200.\<close>

theorem basic_serves_ping:
  fixes s :: "('f, 't) Server"
  assumes "basic_main env = MainServes s rt chain"
  shows "serve rt ''GET'' ''/ping'' = Dispatch (ChainHandler (buildChain (trustedNets (config s))
      (get_route ''/ping'' (success_with env ''pong'' (\<lambda>_. None)))) []) []
    \<and> (\<forall>w r. w_log w = [] \<and> w_stack w = [] \<longrightarrow>
        (\<exists>c. Run 4 (SetHandlers (buildChain (trustedNets (config s)) (get_route ''/ping'' (success_with env ''pong'' (\<lambda>_. None))))
            (NewContext w r)) = Some (c, Returned) \<and> sent_status (w_log (writer c)) = 200 \<and> ctx_route c = ''/ping''))"
proof
  let ?r = "get_route ''/ping'' (success_with env ''pong'' (\<lambda>_. None))"
  obtain cfg where st: "Start (ex_start env) (basic_server env cfg :: ('f, 't) Server) = (s, Inr (rt, chain))"
    using assms by (auto simp: basic_main_def start_example_def split: if_splits prod.splits option.splits sum.splits)
  have "routes (basic_server env cfg :: ('f, 't) Server) = [?r]" by (simp add: basic_server_def example_defs)
  then have "?r \<in> set (all_routes (basic_server env cfg :: ('f, 't) Server))" by (simp add: all_routes_def)
  moreover have "path_of [''ping''] = ''/ping''" "list_all path_value [''ping'']" "list_all clean_literal [''ping'']" by code_simp+
  ultimately show "serve rt ''GET'' ''/ping'' = Dispatch (ChainHandler (buildChain (trustedNets (config s)) ?r) []) []"
    using started_serves [OF st, of ?r "[''ping'']"] by (simp add: get_route_def)
  show "\<forall>w r. w_log w = [] \<and> w_stack w = [] \<longrightarrow>
        (\<exists>c. Run 4 (SetHandlers (buildChain (trustedNets (config s)) ?r) (NewContext w r)) = Some (c, Returned)
          \<and> sent_status (w_log (writer c)) = 200 \<and> ctx_route c = ''/ping'')"
    by (auto simp: Run_def Next_def SetHandlers_def buildChain_def meta_handler_def get_route_def success_with_def
        numeral_eq_Suc NewContext_def op_defs setContentType_def)
qed

subsection \<open>An order of all named middlewares\<close>

text \<open>\<open>middlewaretypes.go\<close> has no constant for the body limit and the concurrency limit: an order of all
  named middlewares, like that of \<open>order\<close>, switches both off, whatever the configuration says.\<close>

lemma external_Builtin [simp]: "\<not> external (Builtin key)"
  by (simp add: external_def)

lemma effective_builtin:
  assumes "tidy m" "effective m k = Some (Builtin key)"
  shows "k = key"
proof -
  from assms(2) have "map_of (overrides m) k = Some (Builtin key) \<or> map_of (builtins m) k = Some (Builtin key)"
    by (auto simp: effective_def split: if_splits option.splits)
  with assms(1) show ?thesis unfolding tidy_def using external_Builtin by blast
qed

theorem named_order_drops_limits:
  assumes "tidy m" and "set ks \<subseteq> set MiddlewareTypes" and "\<exists>k \<in> set ks. k \<in> set (order m)"
  shows "Builtin ''body_limit'' \<notin> set (Build (SetOrder ks m)) \<and> Builtin ''concurrency_limit'' \<notin> set (Build (SetOrder ks m))"
proof -
  define m' where "m' = SetOrder ks m"
  have ord: "set (order m') \<subseteq> set ks" and same: "builtins m' = builtins m" "overrides m' = overrides m" "extras m' = extras m"
      "disabled m' = disabled m"
    using assms(3) by (auto simp: m'_def SetOrder_def Let_def filter_empty_conv)
  have eff: "effective m' k = Some (Builtin key) \<Longrightarrow> k = key" for k key
    using effective_builtin [OF assms(1)] unfolding effective_def same .
  have "Builtin key \<notin> set (extras m')" for key using assms(1) by (auto simp: same tidy_def)
  then have "Builtin key \<in> set (Build m') \<Longrightarrow> key \<in> set MiddlewareTypes" for key
    using ord assms(2) by (auto simp: Build_effective List.map_filter_def dest!: eff)
  then show ?thesis unfolding m'_def [symmetric] by (auto simp: MiddlewareTypes_def)
qed

end
