(* ===== verification/Proxy.thy ===== *)
theory Proxy
  imports Middlewares ServerConfig
begin

text \<open>
  The small packages beside the server: the reverse proxy of \<open>proxy/proxy.go\<close>, the profiling
  routes of \<open>pprof/pprof.go\<close>, and the error codes of \<open>errors.go\<close>.

  \<open>httputil.ReverseProxy\<close> is the record of its fields the package sets; what it does with them
  (\<open>ServeHTTP\<close>, \<open>SetURL\<close>, \<open>SetXForwarded\<close>) is an argument of the definitions.
\<close>

subsection \<open>Options\<close>

text \<open>\<open>httputil.ProxyRequest\<close>, and a response whose body can be read until the context of the
  request is cancelled; \<open>up_ready\<close> is how much of it has arrived by then.\<close>

record ProxyRequest =
  pr_In :: Request
  pr_Out :: Request

record up_response =
  up_status :: int
  up_header :: header
  up_body :: string
  up_ready :: nat
  up_cancelled :: bool

datatype transport =
    DefaultTransport
  | TimeoutRoundTripper transport int

record ('e, 'h) ReverseProxy =
  Rewrite :: "(ProxyRequest \<Rightarrow> ProxyRequest) option"
  ErrorHandler :: "'h Context \<Rightarrow> 'e \<Rightarrow> 'h Context"
  ModifyResponse :: "(up_response \<Rightarrow> up_response + 'e) option"
  Transport :: "transport option"
  FlushInterval :: int

datatype ('e, 'h) Option =
    WithErrorHandler "'h Context \<Rightarrow> 'e \<Rightarrow> 'h Context"
  | WithDirector "Request \<Rightarrow> Request"
  | WithModifyResponse "up_response \<Rightarrow> up_response + 'e"
  | WithTimeout int
  | WithFlushInterval int

fun apply_option :: "('e, 'h) Option \<Rightarrow> ('e, 'h) ReverseProxy \<Rightarrow> ('e, 'h) ReverseProxy" where
  "apply_option (WithErrorHandler fn) rp = rp\<lparr>ErrorHandler := fn\<rparr>"
| "apply_option (WithDirector fn) rp =
     rp\<lparr>Rewrite := Some (\<lambda>pr.
       (let pr = (case Rewrite rp of None \<Rightarrow> pr | Some base \<Rightarrow> base pr) in pr\<lparr>pr_Out := fn (pr_Out pr)\<rparr>))\<rparr>"
| "apply_option (WithModifyResponse fn) rp =
     rp\<lparr>ModifyResponse := Some (\<lambda>resp.
       (case (case ModifyResponse rp of None \<Rightarrow> Inl resp | Some base \<Rightarrow> base resp) of
          Inr e \<Rightarrow> Inr e | Inl resp1 \<Rightarrow> fn resp1))\<rparr>"
| "apply_option (WithTimeout d) rp =
     (if d \<le> 0 then rp
      else rp\<lparr>Transport := Some (TimeoutRoundTripper
        (case Transport rp of None \<Rightarrow> DefaultTransport | Some base \<Rightarrow> base) d)\<rparr>)"
| "apply_option (WithFlushInterval d) rp = rp\<lparr>FlushInterval := d\<rparr>"

text \<open>The JSON text of \<open>DefaultErrorHandler\<close>.\<close>

definition msg_upstream :: string where
  "msg_upstream =
     [CHR 0xE4, CHR 0xB8, CHR 0x8A, CHR 0xE6, CHR 0xB8, CHR 0xB8, CHR 0xE6, CHR 0x9C,
      CHR 0x8D, CHR 0xE5, CHR 0x8A, CHR 0xA1, CHR 0xE4, CHR 0xB8, CHR 0x8D, CHR 0xE5,
      CHR 0x8F, CHR 0xAF, CHR 0xE7, CHR 0x94, CHR 0xA8]"

definition bad_gateway_body :: string where
  "bad_gateway_body =
     [CHR ''{'', CHR 0x22] @ ''code'' @ [CHR 0x22] @ '':502,'' @ [CHR 0x22] @ ''msg'' @ [CHR 0x22, CHR '':'', CHR 0x22]
     @ msg_upstream @ [CHR 0x22, CHR ''}'']"

definition DefaultErrorHandler :: "'h Context \<Rightarrow> 'e \<Rightarrow> 'h Context" where
  "DefaultErrorHandler c err =
     call_writer [CWriteHeader 502, CWrite bad_gateway_body]
       (on_header (header_set ''Content-Type'' ''application/json; charset=utf-8'') c)"

definition newProxy :: "(ProxyRequest \<Rightarrow> ProxyRequest) \<Rightarrow> ('e, 'h) Option list \<Rightarrow> ('e, 'h) ReverseProxy" where
  "newProxy set_target opts =
     fold apply_option opts
       \<lparr>Rewrite = Some set_target, ErrorHandler = DefaultErrorHandler, ModifyResponse = None, Transport = None, FlushInterval = 0\<rparr>"

text \<open>\<open>set_url\<close> and \<open>set_x_forwarded\<close> are the two library calls of the default rewriting.\<close>

definition Handler_proxy ::
    "(('e, 'h) ReverseProxy \<Rightarrow> 'h Context \<Rightarrow> 'h Context) \<Rightarrow> ('u \<Rightarrow> ProxyRequest \<Rightarrow> ProxyRequest) \<Rightarrow> (ProxyRequest \<Rightarrow> ProxyRequest)
      \<Rightarrow> 'u \<Rightarrow> ('e, 'h) Option list \<Rightarrow> 'h Context \<Rightarrow> 'h Context" where
  "Handler_proxy serve_proxy set_url set_x_forwarded target opts =
     serve_proxy (newProxy (\<lambda>pr. set_x_forwarded (set_url target pr)) opts)"

fun directors :: "('e, 'h) Option list \<Rightarrow> (Request \<Rightarrow> Request) list" where
  "directors [] = []"
| "directors (WithDirector fn # opts) = fn # directors opts"
| "directors (_ # opts) = directors opts"

fun modifiers :: "('e, 'h) Option list \<Rightarrow> (up_response \<Rightarrow> up_response + 'e) list" where
  "modifiers [] = []"
| "modifiers (WithModifyResponse fn # opts) = fn # modifiers opts"
| "modifiers (_ # opts) = modifiers opts"

fun until_error :: "('a \<Rightarrow> 'a + 'e) list \<Rightarrow> 'a \<Rightarrow> 'a + 'e" where
  "until_error [] a = Inl a"
| "until_error (f # fs) a = (case f a of Inl b \<Rightarrow> until_error fs b | Inr e \<Rightarrow> Inr e)"

lemma Rewrite_options:
  "Rewrite rp = Some g \<Longrightarrow>
   \<exists>g'. Rewrite (fold apply_option opts rp) = Some g'
     \<and> (\<forall>pr. g' pr = (g pr)\<lparr>pr_Out := fold (\<lambda>f. f) (directors opts) (pr_Out (g pr))\<rparr>)"
proof (induction opts arbitrary: rp g rule: directors.induct)
  case (2 fn opts)
  let ?g = "\<lambda>pr. (g pr)\<lparr>pr_Out := fn (pr_Out (g pr))\<rparr>"
  have "Rewrite (apply_option (WithDirector fn) rp) = Some ?g" using 2 by (simp add: Let_def)
  from 2(1) [OF this] show ?case by simp
qed auto

definition modify_all :: "('e, 'h) ReverseProxy \<Rightarrow> up_response \<Rightarrow> up_response + 'e" where
  "modify_all rp = (case ModifyResponse rp of None \<Rightarrow> Inl | Some f \<Rightarrow> f)"

lemma modify_options:
  "modify_all (fold apply_option opts rp) resp =
     (case modify_all rp resp of Inl r \<Rightarrow> until_error (modifiers opts) r | Inr e \<Rightarrow> Inr e)"
proof (induction opts arbitrary: rp rule: modifiers.induct)
  case 1
  then show ?case by (simp split: sum.split)
next
  case (2 fn opts)
  have "modify_all (apply_option (WithModifyResponse fn) rp) resp =
      (case modify_all rp resp of Inl r \<Rightarrow> fn r | Inr e \<Rightarrow> Inr e)"
    by (simp add: modify_all_def split: option.split sum.split)
  with 2 show ?case by (simp split: sum.split)
qed (simp_all add: modify_all_def cong: sum.case_cong)

text \<open>Proxy options compose: the request is first sent to the target, then rewritten by the
  directors in the order given, and the response passes the modifiers in that order up to the
  first error; the other options do not interfere.\<close>

theorem proxy_options_compose:
  "(\<exists>g. Rewrite (newProxy set_target opts) = Some g
     \<and> (\<forall>pr. g pr = (set_target pr)\<lparr>pr_Out := fold (\<lambda>f. f) (directors opts) (pr_Out (set_target pr))\<rparr>))
   \<and> modify_all (newProxy set_target opts) resp = until_error (modifiers opts) resp"
  unfolding newProxy_def modify_options by (intro conjI Rewrite_options) (simp_all add: modify_all_def)

subsection \<open>Round trips\<close>

text \<open>\<open>RoundTrip\<close>: \<open>upstream\<close> is the transport of the library; the context of a timeout is
  cancelled when the call returns, before anybody reads the body.\<close>

fun RoundTrip :: "(Request \<Rightarrow> int option \<Rightarrow> up_response + 'e) \<Rightarrow> transport \<Rightarrow> Request \<Rightarrow> int option \<Rightarrow> up_response + 'e" where
  "RoundTrip upstream DefaultTransport r limit = upstream r limit"
| "RoundTrip upstream (TimeoutRoundTripper base d) r limit =
     (case RoundTrip upstream base r (Some (case limit of None \<Rightarrow> d | Some l \<Rightarrow> min l d)) of
        Inl resp \<Rightarrow> Inl (resp\<lparr>up_cancelled := True\<rparr>)
      | Inr e \<Rightarrow> Inr e)"

text \<open>What a reader of the body gets, and whether the end of the body was reached.\<close>

definition read_body :: "up_response \<Rightarrow> string \<times> bool" where
  "read_body resp =
     (if up_cancelled resp then (take (up_ready resp) (up_body resp), length (up_body resp) \<le> up_ready resp)
      else (up_body resp, True))"

text \<open>With \<open>WithTimeout\<close> a response is cut off after what has arrived with its header, however early
  it comes: the timeout is not for the headers alone, as the comment has it, and not for the
  whole request either.\<close>

theorem proxy_timeout_cuts_body:
  assumes "d > 0" "\<And>limit. upstream r limit = Inl resp" "up_ready resp < length (up_body resp)"
  shows "(case RoundTrip upstream (the (Transport (newProxy set_target [WithTimeout d]))) r None of
      Inl got \<Rightarrow> read_body got = (take (up_ready resp) (up_body resp), False) | Inr e \<Rightarrow> False)"
  using assms by (simp add: newProxy_def read_body_def)

subsection \<open>Profiling routes\<close>

definition pprof_routes :: "handler \<times> handler \<times> handler \<Rightarrow> handler Route list" where
  "pprof_routes hs =
     (case hs of (index_h, cmdline_h, symbol_h) \<Rightarrow>
       [\<lparr>Method = ''GET'', Path = ''/debug/pprof'', Handler = index_h, Middleware = [], Group_of = []\<rparr>,
        \<lparr>Method = ''GET'', Path = ''/debug/pprof/cmdline'', Handler = cmdline_h, Middleware = [], Group_of = []\<rparr>,
        \<lparr>Method = ''GET'', Path = ''/debug/pprof/symbol'', Handler = symbol_h, Middleware = [], Group_of = []\<rparr>])"

definition Register_pprof :: "handler \<times> handler \<times> handler \<Rightarrow> ('f, 't) Server \<Rightarrow> ('f, 't) Server" where
  "Register_pprof hs s = fold RegisterRoute (pprof_routes hs) s"

subsection \<open>Error codes\<close>

datatype Code =
    CodeConfigInvalid | CodeConfigLoadFailed | CodeListenFailed | CodeStartFailed | CodeShutdownFailed | CodePanic | CodeRouteInvalid

datatype Kind = KindInvalid | KindUnavailable | KindInternal

fun code_text :: "Code \<Rightarrow> string" where
  "code_text CodeConfigInvalid = ''WEBX_CONFIG_INVALID''"
| "code_text CodeConfigLoadFailed = ''WEBX_CONFIG_LOAD_FAILED''"
| "code_text CodeListenFailed = ''WEBX_LISTEN_FAILED''"
| "code_text CodeStartFailed = ''WEBX_START_FAILED''"
| "code_text CodeShutdownFailed = ''WEBX_SHUTDOWN_FAILED''"
| "code_text CodePanic = ''WEBX_PANIC''"
| "code_text CodeRouteInvalid = ''WEBX_ROUTE_INVALID''"

fun code_kind :: "Code \<Rightarrow> Kind" where
  "code_kind CodeConfigInvalid = KindInvalid"
| "code_kind CodeConfigLoadFailed = KindUnavailable"
| "code_kind CodeListenFailed = KindUnavailable"
| "code_kind CodeStartFailed = KindInvalid"
| "code_kind CodeShutdownFailed = KindUnavailable"
| "code_kind CodePanic = KindInternal"
| "code_kind CodeRouteInvalid = KindInvalid"

lemma code_text_inj: "code_text a = code_text b \<Longrightarrow> a = b"
  by (cases a; cases b; simp)

end
