(* ===== verification/RequestValues.thy ===== *)
theory RequestValues
  imports ReqContext
begin

text \<open>
  The rest of \<open>context.go\<close>: the context as a value of the context of the request, cookies, and
  the plain getters.
\<close>

subsection \<open>The context inside the request\<close>

text \<open>\<open>context.Context\<close> as the pairs of \<open>context.WithValue\<close>, the innermost first; the private key
  type of the package is one constructor, every other key another.\<close>

datatype context_key = ContextKey | OtherKey string

datatype 'h context_value = WebxContext "'h Context" | OtherValue string

type_synonym 'h request_context = "(context_key \<times> 'h context_value) list"

definition NewContextWith :: "'h request_context \<Rightarrow> 'h Context \<Rightarrow> 'h request_context" where
  "NewContextWith parent c = (ContextKey, WebxContext c) # parent"

definition From :: "'h request_context \<Rightarrow> 'h Context option" where
  "From ctx = (case map_of ctx ContextKey of Some (WebxContext c) \<Rightarrow> Some c | _ \<Rightarrow> None)"

definition RouteFrom :: "'h request_context \<Rightarrow> string" where
  "RouteFrom ctx = (case From ctx of Some c \<Rightarrow> ctx_route c | None \<Rightarrow> [])"

definition GroupFrom :: "'h request_context \<Rightarrow> string" where
  "GroupFrom ctx = (case From ctx of Some c \<Rightarrow> ctx_group c | None \<Rightarrow> [])"

text \<open>Values that other packages add under their own keys do not hide the context.\<close>

lemma From_NewContextWith:
  "From (map (\<lambda>(k, v). (OtherKey k, v)) extra @ NewContextWith parent c) = Some c"
  by (induction extra) (auto simp: From_def NewContextWith_def)

subsection \<open>Cookies\<close>

text \<open>\<open>cookies_of\<close> is \<open>net/http\<close>'s parser of the \<open>Cookie\<close> header and \<open>render\<close> its
  \<open>Cookie.String\<close>, which is empty for an invalid cookie.\<close>

definition Cookie_of :: "(header \<Rightarrow> Cookie list) \<Rightarrow> string \<Rightarrow> 'h Context \<Rightarrow> Cookie option" where
  "Cookie_of cookies_of name c =
     (if name = [] then None else find (\<lambda>k. cookie_name k = name) (cookies_of (req_header (request c))))"

definition SetCookie :: "(Cookie \<Rightarrow> string) \<Rightarrow> Cookie \<Rightarrow> 'h Context \<Rightarrow> 'h Context" where
  "SetCookie render k c =
     (if render k = [] then c else c\<lparr>writer := map_header (header_add ''Set-Cookie'' (render k)) (writer c)\<rparr>)"

definition SetSecureCookie :: "(Cookie \<Rightarrow> string) \<Rightarrow> Cookie \<Rightarrow> 'h Context \<Rightarrow> 'h Context" where
  "SetSecureCookie render k c = SetCookie render (secure_cookie k) c"

text \<open>A secure cookie is sent over TLS only, hidden from scripts, and keeps a \<open>SameSite\<close> that was
  chosen; earlier cookies stay.\<close>

lemma secure_cookie_flags:
  "Secure (secure_cookie k) \<and> HttpOnly (secure_cookie k)
   \<and> SameSite (secure_cookie k) = (if SameSite k = 0 then 2 else SameSite k)
   \<and> cookie_value (secure_cookie k) = cookie_value k"
  by (simp add: secure_cookie_def Let_def)

lemma set_cookie_adds:
  "render k \<noteq> [] \<Longrightarrow> hindex (w_header (writer (SetCookie render k c))) (canonical_key ''Set-Cookie'')
     = hindex (w_header (writer c)) (canonical_key ''Set-Cookie'') @ [render k]"
  by (simp add: SetCookie_def header_add_def)

subsection \<open>Getters\<close>

definition Request_of :: "'h Context \<Rightarrow> Request" where "Request_of c = request c"
definition Writer_of :: "'h Context \<Rightarrow> Writer" where "Writer_of c = writer c"
definition Route_of :: "'h Context \<Rightarrow> string" where "Route_of c = ctx_route c"
definition Group_name :: "'h Context \<Rightarrow> string" where "Group_name c = ctx_group c"

end
