(* ===== verification/FormBinding.thy ===== *)
theory FormBinding
  imports ReqContext GoText
begin

text \<open>
  \<open>internal/core/form.go\<close>: binding of form and query values to a struct by its tags, and
  the upload helpers.

  \<open>bindValuesRec\<close> reflects on the target. A Go struct type is a name with its fields in
  \<open>struct_env\<close>; the memory is a map from addresses to struct objects, and a struct that
  is embedded in another one has an address of its own (\<open>field.Addr()\<close>), so embedded
  structs and pointers to structs are followed in the same way and may form cycles. The
  recursion carries fuel for its depth; the set of visited types is what bounds it.

  \<open>strconv.ParseFloat\<close> and the rounding of a float to its field are arguments, as are
  \<open>ParseMultipartForm\<close> and the file operations.
\<close>

subsection \<open>Integers and booleans as text\<close>

text \<open>\<open>strconv.ParseUint\<close> and \<open>strconv.ParseInt\<close> with base 10 and 64 bits.\<close>

definition ParseUint :: "string \<Rightarrow> int option" where
  "ParseUint s =
     (if s = [] \<or> \<not> list_all is_digit s then None
      else if int (read_nat s) \<ge> 2 ^ 64 then None else Some (int (read_nat s)))"

definition ParseInt :: "string \<Rightarrow> int option" where
  "ParseInt s =
     (case s of [] \<Rightarrow> None
      | c # cs \<Rightarrow>
          (let neg = (c = CHR ''-''); t = (if c = CHR ''+'' \<or> neg then cs else s)
           in case ParseUint t of
                None \<Rightarrow> None
              | Some un \<Rightarrow>
                  (if \<not> neg \<and> un \<ge> 2 ^ 63 then None else if neg \<and> un > 2 ^ 63 then None
                   else Some (if neg then - un else un))))"

definition ParseBool :: "string \<Rightarrow> bool option" where
  "ParseBool s =
     (if s \<in> {''1'', ''t'', ''T'', ''TRUE'', ''true'', ''True''} then Some True
      else if s \<in> {''0'', ''f'', ''F'', ''FALSE'', ''false'', ''False''} then Some False else None)"

text \<open>\<open>SetInt\<close> and \<open>SetUint\<close> store the low bits that fit the field.\<close>

definition trunc_int :: "nat \<Rightarrow> int \<Rightarrow> int" where
  "trunc_int w n = (n + 2 ^ (w - 1)) mod 2 ^ w - 2 ^ (w - 1)"

definition trunc_uint :: "nat \<Rightarrow> int \<Rightarrow> int" where
  "trunc_uint w n = n mod 2 ^ w"

subsection \<open>Types, values and memory\<close>

datatype slice_elem = ElemString | ElemNamedString | ElemOther

datatype gotype =
    TString | TInt nat | TUint nat | TFloat nat | TBool | TSlice slice_elem
  | TStruct string | TPtrStruct string | TOther

datatype gval =
    VString string | VInt int | VUint int | VFloat nat | VBool bool | VSlice "string list"
  | VStruct nat | VPtr "nat option" | VOther nat

record struct_field =
  sf_exported :: bool
  sf_tags :: "(string, string) gomap"
  sf_type :: gotype

type_synonym struct_env = "(string, struct_field list) gomap"
type_synonym memory = "nat \<rightharpoonup> string \<times> gval list"

definition fields_of :: "struct_env \<Rightarrow> string \<Rightarrow> struct_field list" where
  "fields_of env tn = (case map_of env tn of None \<Rightarrow> [] | Some fs \<Rightarrow> fs)"

definition tag_get :: "struct_field \<Rightarrow> string \<Rightarrow> string" where
  "tag_get f name = (case map_of (sf_tags f) name of None \<Rightarrow> [] | Some t \<Rightarrow> t)"

definition field_val :: "memory \<Rightarrow> nat \<Rightarrow> nat \<Rightarrow> gval option" where
  "field_val heap a i = (case heap a of None \<Rightarrow> None | Some (tn, vs) \<Rightarrow> if i < length vs then Some (vs ! i) else None)"

definition set_field :: "nat \<Rightarrow> nat \<Rightarrow> gval \<Rightarrow> memory \<Rightarrow> memory" where
  "set_field a i v heap =
     (case heap a of None \<Rightarrow> heap | Some (tn, vs) \<Rightarrow> heap(a \<mapsto> (tn, vs[i := v])))"

subsection \<open>One field\<close>

datatype form_error =
    TargetNotPointer | ParseFailed string | SliceNotString | FieldUnsupported

text \<open>What one iteration of the loop does with its field.\<close>

datatype field_step =
    Skip | Store gval | Descend nat | Fail_field form_error | Panic_field

definition default_prefix :: string where
  "default_prefix = ''default=''"

text \<open>The tag's name and default value; \<open>None\<close> is the \<open>continue\<close> for an empty name or \<open>-\<close>.\<close>

definition split_tag :: "string \<Rightarrow> (string \<times> string) option" where
  "split_tag tag =
     (let idx = index_byte tag (CHR '','')
      in if idx \<ge> 0 then
           (let rest = drop (nat idx + 1) tag; name = take (nat idx) tag;
                def = (if has_prefix rest default_prefix then drop (length default_prefix) rest else [])
            in if name = [] \<or> name = ''-'' then None else Some (name, def))
         else Some (tag, []))"

record float_ops =
  parse_float :: "string \<Rightarrow> nat option"
  round_float :: "nat \<Rightarrow> nat \<Rightarrow> nat"

definition store_step :: "float_ops \<Rightarrow> gotype \<Rightarrow> string list \<Rightarrow> field_step" where
  "store_step fl ty vals =
     (case ty of
        TString \<Rightarrow> Store (VString (hd vals))
      | TInt w \<Rightarrow> (case ParseInt (hd vals) of None \<Rightarrow> Fail_field (ParseFailed (hd vals))
                  | Some n \<Rightarrow> Store (VInt (trunc_int w n)))
      | TUint w \<Rightarrow> (case ParseUint (hd vals) of None \<Rightarrow> Fail_field (ParseFailed (hd vals))
                   | Some n \<Rightarrow> Store (VUint (trunc_uint w n)))
      | TFloat w \<Rightarrow> (case parse_float fl (hd vals) of None \<Rightarrow> Fail_field (ParseFailed (hd vals))
                    | Some x \<Rightarrow> Store (VFloat (round_float fl w x)))
      | TBool \<Rightarrow> (case ParseBool (hd vals) of None \<Rightarrow> Fail_field (ParseFailed (hd vals))
                 | Some b \<Rightarrow> Store (VBool b))
      | TSlice ElemString \<Rightarrow> Store (VSlice vals)
      | TSlice ElemNamedString \<Rightarrow> Panic_field
      | TSlice ElemOther \<Rightarrow> Fail_field SliceNotString
      | _ \<Rightarrow> Fail_field FieldUnsupported)"

definition value_step :: "float_ops \<Rightarrow> header \<Rightarrow> gotype \<Rightarrow> string \<Rightarrow> field_step" where
  "value_step fl vs ty tag =
     (if tag = [] then Skip
      else (case split_tag tag of
              None \<Rightarrow> Skip
            | Some (name, def) \<Rightarrow>
                (let vals = hindex vs name
                 in if vals = [] then (if def \<noteq> [] then store_step fl ty [def] else Skip)
                    else store_step fl ty vals)))"

definition field_step_of ::
    "float_ops \<Rightarrow> header \<Rightarrow> string \<Rightarrow> struct_field \<Rightarrow> gval option \<Rightarrow> field_step" where
  "field_step_of fl vs tagName f cur =
     (if \<not> sf_exported f then Skip
      else (let tag = tag_get f tagName
            in if tag = ''-'' then Skip
               else (case sf_type f of
                       TStruct tn \<Rightarrow>
                         (case cur of Some (VStruct b) \<Rightarrow> Descend b | _ \<Rightarrow> value_step fl vs (sf_type f) tag)
                     | TPtrStruct tn \<Rightarrow>
                         (case cur of
                            Some (VPtr p) \<Rightarrow> (case p of None \<Rightarrow> Skip | Some b \<Rightarrow> Descend b)
                          | _ \<Rightarrow> value_step fl vs (sf_type f) tag)
                     | _ \<Rightarrow> value_step fl vs (sf_type f) tag)))"

subsection \<open>The recursion\<close>

datatype bind_result = Bound | BindError form_error | BindPanic

text \<open>
  \<open>bindValuesRec\<close> at the object \<open>a\<close>, and its loop over the fields from the \<open>i\<close>-th on;
  \<open>None\<close> is exhausted fuel.
\<close>

function bindValuesRec ::
    "nat \<Rightarrow> float_ops \<Rightarrow> struct_env \<Rightarrow> header \<Rightarrow> string \<Rightarrow> string set \<Rightarrow> nat \<Rightarrow> memory \<Rightarrow> (memory \<times> bind_result) option"
  and bind_fields ::
    "nat \<Rightarrow> float_ops \<Rightarrow> struct_env \<Rightarrow> header \<Rightarrow> string \<Rightarrow> string set \<Rightarrow> nat \<Rightarrow> nat \<Rightarrow> struct_field list \<Rightarrow> memory
      \<Rightarrow> (memory \<times> bind_result) option" where
  "bindValuesRec fuel fl env vs tagName visited a heap =
     (case heap a of
        None \<Rightarrow> Some (heap, BindPanic)
      | Some (rt, _) \<Rightarrow>
          (if rt \<in> visited then Some (heap, Bound)
           else (case fuel of
                   0 \<Rightarrow> None
                 | Suc n \<Rightarrow> bind_fields n fl env vs tagName (insert rt visited) a 0 (fields_of env rt) heap)))"
| "bind_fields n fl env vs tagName visited a i [] heap = Some (heap, Bound)"
| "bind_fields n fl env vs tagName visited a i (f # fs) heap =
     (case field_step_of fl vs tagName f (field_val heap a i) of
        Skip \<Rightarrow> bind_fields n fl env vs tagName visited a (Suc i) fs heap
      | Store v \<Rightarrow> bind_fields n fl env vs tagName visited a (Suc i) fs (set_field a i v heap)
      | Fail_field e \<Rightarrow> Some (heap, BindError e)
      | Panic_field \<Rightarrow> Some (heap, BindPanic)
      | Descend b \<Rightarrow>
          (case bindValuesRec n fl env vs tagName visited b heap of
             None \<Rightarrow> None
           | Some (heap', Bound) \<Rightarrow> bind_fields n fl env vs tagName visited a (Suc i) fs heap'
           | Some (heap', r) \<Rightarrow> Some (heap', r)))"
  by pat_completeness auto
termination
  by (relation "measures [case_sum (\<lambda>(n, _). n) (\<lambda>(n, _). n),
        case_sum (\<lambda>_. 0) (\<lambda>(n, fl, env, vs, t, vis, a, i, fs, h). Suc (length fs))]") auto

declare bindValuesRec.simps [simp del]

text \<open>\<open>bindValues\<close>; a target that is no pointer, a nil pointer, or a pointer to something that
  is no struct, on which \<open>NumField\<close> panics.\<close>

datatype bind_target = NotPointer | NilPointer | PointerToNonStruct | PointerTo nat

definition bindValues ::
    "float_ops \<Rightarrow> struct_env \<Rightarrow> bind_target \<Rightarrow> header \<Rightarrow> string \<Rightarrow> memory \<Rightarrow> (memory \<times> bind_result) option" where
  "bindValues fl env out vs tagName heap =
     (case out of
        NotPointer \<Rightarrow> Some (heap, BindError TargetNotPointer)
      | NilPointer \<Rightarrow> Some (heap, BindError TargetNotPointer)
      | PointerToNonStruct \<Rightarrow> Some (heap, BindPanic)
      | PointerTo a \<Rightarrow> bindValuesRec (Suc (length env)) fl env vs tagName {} a heap)"

subsection \<open>The visited types bound the recursion\<close>

lemma bind_returns_lemma:
  fixes env :: struct_env
  shows "card (fst ` set env - visited) < fuel \<Longrightarrow> bindValuesRec fuel fl env vs tagName visited a heap \<noteq> None"
    and "card (fst ` set env - visited') < n \<or> fs = [] \<Longrightarrow>
      bind_fields n fl env vs tagName visited' b i fs heap' \<noteq> None"
proof (induction fuel fl env vs tagName visited a heap and n fl env vs tagName visited' b i fs heap'
    rule: bindValuesRec_bind_fields.induct)
  case (1 fuel fl env vs tagName visited a heap)
  show ?case
  proof (cases "heap a")
    case None
    then show ?thesis by (simp add: bindValuesRec.simps)
  next
    case (Some obj)
    obtain rt ws where heap: "heap a = Some (rt, ws)" using Some by (cases obj) auto
    from 1(2) obtain n where fuel: "fuel = Suc n" by (cases fuel) auto
    show ?thesis
    proof (cases "rt \<in> visited")
      case True
      then show ?thesis by (simp add: bindValuesRec.simps heap)
    next
      case False
      have "card (fst ` set env - insert rt visited) < n \<or> fields_of env rt = []"
      proof (cases "rt \<in> fst ` set env")
        case True
        then have "fst ` set env - insert rt visited = (fst ` set env - visited) - {rt}" by blast
        moreover have "rt \<in> fst ` set env - visited" using True False by blast
        ultimately have "card (fst ` set env - insert rt visited) < card (fst ` set env - visited)"
          by (metis List.finite_set card_Diff1_less finite_Diff finite_imageI)
        with 1(2) fuel show ?thesis by simp
      next
        case no: False
        then have "map_of env rt = None" by (simp add: map_of_eq_None_iff)
        then show ?thesis by (simp add: fields_of_def)
      qed
      with 1(1) [OF heap refl False fuel] show ?thesis
        by (simp add: bindValuesRec.simps heap False fuel)
    qed
  qed
next
  case (3 n fl env vs tagName visited b i f fs heap)
  then show ?case
    by (auto split: field_step.splits option.splits bind_result.splits)
qed simp

text \<open>C14. Binding always ends, also on data with pointer cycles: the depth of the recursion is
  bounded by the number of struct types, since a type that is being bound is not entered
  again; one unit of fuel per type, and one more, is enough for every target.\<close>

theorem bind_returns:
  "\<exists>heap' r. bindValues fl env out vs tagName heap = Some (heap', r)
     \<and> (\<forall>k. bindValuesRec (Suc (length env) + k) fl env vs tagName {} a heap \<noteq> None)"
proof -
  have "card (fst ` set env) \<le> length env"
    by (metis card_length length_map set_map)
  then have "bindValuesRec (Suc (length env) + k) fl env vs tagName {} b heap \<noteq> None" for k b
    by (intro bind_returns_lemma(1)) simp
  from this this [of 0] show ?thesis
    by (cases out) (auto simp: bindValues_def simp del: add_Suc)
qed

subsection \<open>What binding may write\<close>

text \<open>
  The values that fit a type: an integer lies in the range of its width, a struct field or a
  pointer refers to an object of the declared type.
\<close>

definition val_ok :: "(nat \<Rightarrow> string option) \<Rightarrow> gotype \<Rightarrow> gval \<Rightarrow> bool" where
  "val_ok ty t v =
     (case t of
        TString \<Rightarrow> (case v of VString s \<Rightarrow> True | _ \<Rightarrow> False)
      | TInt w \<Rightarrow> (case v of VInt n \<Rightarrow> - (2 ^ (w - 1)) \<le> n \<and> n < 2 ^ (w - 1) | _ \<Rightarrow> False)
      | TUint w \<Rightarrow> (case v of VUint n \<Rightarrow> 0 \<le> n \<and> n < 2 ^ w | _ \<Rightarrow> False)
      | TFloat w \<Rightarrow> (case v of VFloat x \<Rightarrow> True | _ \<Rightarrow> False)
      | TBool \<Rightarrow> (case v of VBool b \<Rightarrow> True | _ \<Rightarrow> False)
      | TSlice e \<Rightarrow> (case v of VSlice ss \<Rightarrow> True | _ \<Rightarrow> False)
      | TStruct tn \<Rightarrow> (case v of VStruct b \<Rightarrow> ty b = Some tn | _ \<Rightarrow> False)
      | TPtrStruct tn \<Rightarrow> (case v of VPtr p \<Rightarrow> (case p of None \<Rightarrow> True | Some b \<Rightarrow> ty b = Some tn) | _ \<Rightarrow> False)
      | TOther \<Rightarrow> (case v of VOther k \<Rightarrow> True | _ \<Rightarrow> False))"

definition types_of :: "memory \<Rightarrow> nat \<Rightarrow> string option" where
  "types_of heap a = map_option fst (heap a)"

definition well_typed :: "struct_env \<Rightarrow> memory \<Rightarrow> bool" where
  "well_typed env heap \<longleftrightarrow>
     (\<forall>a tn vs. heap a = Some (tn, vs) \<longrightarrow> list_all2 (\<lambda>f v. val_ok (types_of heap) (sf_type f) v) (fields_of env tn) vs)"

text \<open>
  What a tag says: a name, and after a comma possibly a default value. What texts, the values of the
  form for a name or the default, are read as in a field of some type. A field may get a value when it
  is exported and its tag names an entry of the form, or has a default for want of one.
\<close>

definition tag_says :: "string \<Rightarrow> string \<Rightarrow> string \<Rightarrow> bool" where
  "tag_says tag name def \<longleftrightarrow> CHR '','' \<notin> set name \<and> name \<notin> {[], ''-''}
     \<and> (tag = name \<and> def = []
        \<or> tag = name @ '','' @ ''default='' @ def
        \<or> (\<exists>opts. tag = name @ '','' @ opts \<and> \<not> prefix ''default='' opts \<and> def = []))"

definition reads_as :: "float_ops \<Rightarrow> gotype \<Rightarrow> string list \<Rightarrow> gval \<Rightarrow> bool" where
  "reads_as fl ty texts v \<longleftrightarrow>
     (case ty of
        TString \<Rightarrow> v = VString (hd texts)
      | TInt w \<Rightarrow> (\<exists>n. ParseInt (hd texts) = Some n \<and> v = VInt (trunc_int w n))
      | TUint w \<Rightarrow> (\<exists>n. ParseUint (hd texts) = Some n \<and> v = VUint (trunc_uint w n))
      | TFloat w \<Rightarrow> (\<exists>x. parse_float fl (hd texts) = Some x \<and> v = VFloat (round_float fl w x))
      | TBool \<Rightarrow> (\<exists>b. ParseBool (hd texts) = Some b \<and> v = VBool b)
      | TSlice e \<Rightarrow> e = ElemString \<and> v = VSlice texts
      | _ \<Rightarrow> False)"

definition may_get :: "float_ops \<Rightarrow> header \<Rightarrow> string \<Rightarrow> struct_field \<Rightarrow> gval \<Rightarrow> bool" where
  "may_get fl vs tagName f v \<longleftrightarrow> sf_exported f \<and> (\<exists>name def. tag_says (tag_get f tagName) name def
     \<and> (if hindex vs name \<noteq> [] then reads_as fl (sf_type f) (hindex vs name) v
        else def \<noteq> [] \<and> reads_as fl (sf_type f) [def] v))"

lemma index_byte_from_split:
  "index_byte_from i s c = (if c \<in> set s then i + int (length (takeWhile (\<lambda>x. x \<noteq> c) s)) else -1)"
  by (induction i s c rule: index_byte_from.induct) auto

lemma split_tag_says:
  assumes "split_tag tag = Some (name, def)" "tag \<noteq> []" "tag \<noteq> ''-''"
  shows "tag_says tag name def"
proof (cases "CHR '','' \<in> set tag")
  case False
  with assms show ?thesis by (auto simp: split_tag_def index_byte_def index_byte_from_split tag_says_def)
next
  case True
  then obtain pre opts where tag: "tag = pre @ CHR '','' # opts" and n: "CHR '','' \<notin> set pre"
    using split_list_first by metis
  have "takeWhile (\<lambda>x. x \<noteq> CHR '','') tag = pre"
    unfolding tag using n by (subst takeWhile_tail) (auto simp: takeWhile_eq_all_conv)
  then have "index_byte tag (CHR '','') = int (length pre)" using True by (simp add: index_byte_def index_byte_from_split)
  with assms(1) have name: "name = pre" "name \<noteq> []" "name \<noteq> ''-''"
    and d: "def = (if has_prefix opts default_prefix then drop (length default_prefix) opts else [])"
    by (auto simp: split_tag_def Let_def tag split: if_splits)
  then show ?thesis using tag n by (auto simp: tag_says_def default_prefix_def elim: prefixE)
qed

lemma trunc_range:
  "- (2 ^ (w - 1)) \<le> trunc_int w n \<and> trunc_int w n < 2 ^ (w - 1)" if "w \<noteq> 0"
proof -
  have "(2 :: int) ^ w = 2 * 2 ^ (w - 1)" using that by (cases w) auto
  moreover have "0 \<le> (n + 2 ^ (w - 1)) mod 2 ^ w" "(n + 2 ^ (w - 1)) mod 2 ^ w < 2 ^ w" by simp_all
  ultimately show ?thesis unfolding trunc_int_def by linarith
qed

lemma trunc_range_all: "- (2 ^ (w - 1)) \<le> trunc_int w n \<and> trunc_int w n < 2 ^ (w - 1)"
  by (cases "w = 0") (simp add: trunc_int_def, rule trunc_range)

lemma store_step_Store:
  "store_step fl ty vals = Store v \<Longrightarrow> val_ok t ty v \<and> reads_as fl ty vals v"
  using trunc_range_all
  by (cases ty) (auto simp: store_step_def val_ok_def reads_as_def trunc_uint_def split: option.splits slice_elem.splits)

lemma store_step_no_Descend [simp]: "store_step fl ty vals \<noteq> Descend b"
  by (auto simp: store_step_def split: gotype.splits option.splits slice_elem.splits)

lemma value_step_Store:
  assumes "value_step fl vs ty tag = Store v" "tag \<noteq> ''-''"
  shows "val_ok t ty v \<and> (\<exists>name def. tag_says tag name def
     \<and> (if hindex vs name \<noteq> [] then reads_as fl ty (hindex vs name) v else def \<noteq> [] \<and> reads_as fl ty [def] v))"
proof -
  from assms(1) obtain name def where tag: "tag \<noteq> []" "split_tag tag = Some (name, def)"
    by (auto simp: value_step_def split: if_splits option.splits)
  show ?thesis
    using assms(1) tag split_tag_says [OF tag(2,1) assms(2)] store_step_Store [of fl ty _ v t]
    by (auto simp: value_step_def Let_def split: if_splits)
qed

lemma field_step_Store:
  assumes "field_step_of fl vs tagName f cur = Store v"
  shows "may_get fl vs tagName f v \<and> val_ok t (sf_type f) v"
proof -
  have "sf_exported f" "tag_get f tagName \<noteq> ''-''"
    and "value_step fl vs (sf_type f) (tag_get f tagName) = Store v"
    using assms by (auto simp: field_step_of_def Let_def split: if_splits gotype.splits option.splits gval.splits)
  from this(1) value_step_Store [OF this(3,2)] show ?thesis by (simp add: may_get_def)
qed

lemma types_of_set_field [simp]: "types_of (set_field a i v heap) = types_of heap"
  by (auto simp: types_of_def set_field_def split: option.split)

lemma well_typed_set_field:
  assumes "well_typed env heap" "heap a = Some (tn, ws)" "drop i (fields_of env tn) = f # fs"
    and "val_ok (types_of heap) (sf_type f) v"
  shows "well_typed env (set_field a i v heap)"
proof -
  have i: "i < length (fields_of env tn)" "fields_of env tn ! i = f"
    using assms(3) by (metis drop_eq_Nil linorder_not_le list.distinct(1), metis assms(3) nth_via_drop)
  have "list_all2 (\<lambda>f v. val_ok (types_of heap) (sf_type f) v) (fields_of env tn) ws"
    using assms(1,2) by (simp add: well_typed_def)
  then have "list_all2 (\<lambda>f v. val_ok (types_of heap) (sf_type f) v) (fields_of env tn) (ws[i := v])"
    using list_all2_update_cong [of "\<lambda>f v. val_ok (types_of heap) (sf_type f) v" "fields_of env tn" ws f v i] assms(4) i
    by (metis list_update_id)
  moreover have "set_field a i v heap = heap(a \<mapsto> (tn, ws[i := v]))" by (simp add: set_field_def assms(2))
  moreover have "types_of (heap(a \<mapsto> (tn, ws[i := v]))) = types_of heap"
    using types_of_set_field [of a i v heap] calculation(2) by metis
  ultimately show ?thesis
    using assms(1) by (simp add: well_typed_def)
qed

text \<open>
  One invariant for both: the typing is kept, and a field keeps its value or has one that it may get;
  \<open>loop_at\<close> says where the loop stands in its object.
\<close>

definition loop_at :: "struct_env \<Rightarrow> nat \<Rightarrow> nat \<Rightarrow> struct_field list \<Rightarrow> memory \<Rightarrow> bool" where
  "loop_at env a i fs heap \<longleftrightarrow> (\<exists>tn. types_of heap a = Some tn \<and> drop i (fields_of env tn) = fs)"

definition hidden_kept :: "float_ops \<Rightarrow> header \<Rightarrow> struct_env \<Rightarrow> string \<Rightarrow> memory \<Rightarrow> memory \<Rightarrow> bool" where
  "hidden_kept fl vs env tagName heap heap' \<longleftrightarrow>
     types_of heap' = types_of heap \<and>
     (\<forall>a tn i. types_of heap a = Some tn \<and> i < length (fields_of env tn) \<longrightarrow>
        field_val heap' a i = field_val heap a i
        \<or> (\<exists>v. field_val heap' a i = Some v \<and> may_get fl vs tagName (fields_of env tn ! i) v))"

lemma hidden_kept_trans:
  "hidden_kept fl vs env tagName h1 h2 \<Longrightarrow> hidden_kept fl vs env tagName h2 h3 \<Longrightarrow> hidden_kept fl vs env tagName h1 h3"
  unfolding hidden_kept_def by metis

lemma hidden_kept_refl [simp]: "hidden_kept fl vs env tagName h h"
  by (simp add: hidden_kept_def)

lemma loop_at_kept: "loop_at env a i fs heap \<Longrightarrow> hidden_kept fl vs env tagName heap heap' \<Longrightarrow> loop_at env a i fs heap'"
  by (simp add: loop_at_def hidden_kept_def)

lemma loop_at_Suc: "loop_at env a i (f # fs) heap \<Longrightarrow> loop_at env a (Suc i) fs heap"
  by (metis loop_at_def drop_Suc list.sel(3) tl_drop)

lemma hidden_kept_set_field:
  assumes "loop_at env a i (f # fs) heap" "may_get fl vs tagName f v"
  shows "hidden_kept fl vs env tagName heap (set_field a i v heap)"
proof -
  obtain tn ws where a: "heap a = Some (tn, ws)" "drop i (fields_of env tn) = f # fs"
    using assms(1) by (auto simp: loop_at_def types_of_def)
  have i: "fields_of env tn ! i = f" using a(2) by (rule nth_via_drop)
  have "field_val (set_field a i v heap) b j = field_val heap b j \<or> b = a \<and> j = i \<and> field_val (set_field a i v heap) b j = Some v" for b j
    using a by (cases "j = i") (auto simp: field_val_def set_field_def)
  moreover have "types_of heap a = Some tn" using a(1) by (simp add: types_of_def)
  ultimately show ?thesis
    using assms(2) i unfolding hidden_kept_def by (metis option.inject types_of_set_field)
qed

lemma bind_keeps:
  fixes env :: struct_env
  shows "bindValuesRec fuel fl env vs tagName visited a heap = Some (heap1, r) \<Longrightarrow>
      hidden_kept fl vs env tagName heap heap1 \<and> (well_typed env heap \<longrightarrow> well_typed env heap1)"
    and "bind_fields n fl env vs tagName visited' b i fs heap' = Some (heap1, r) \<Longrightarrow> loop_at env b i fs heap' \<Longrightarrow>
      hidden_kept fl vs env tagName heap' heap1 \<and> (well_typed env heap' \<longrightarrow> well_typed env heap1)"
proof (induction fuel fl env vs tagName visited a heap and n fl env vs tagName visited' b i fs heap'
    arbitrary: heap1 r and heap1 r rule: bindValuesRec_bind_fields.induct)
  case (1 fuel fl env vs tagName visited a heap)
  show ?case
  proof (cases "heap a")
    case None
    with 1(2) show ?thesis by (simp add: bindValuesRec.simps)
  next
    case (Some obj)
    obtain rt ws where heap: "heap a = Some (rt, ws)" using Some by (cases obj) auto
    then have "loop_at env a 0 (fields_of env rt) heap" by (simp add: loop_at_def types_of_def)
    with 1 heap show ?thesis
      by (auto simp: bindValuesRec.simps split: if_splits nat.splits)
  qed
next
  case (2 n fl env vs tagName visited b i heap)
  then show ?case by simp
next
  case (3 n fl env vs tagName visited b i f fs heap)
  note IH = 3(1-4) and at = 3(6) and run = 3(5)
  note next_at = loop_at_Suc [OF at]
  show ?case
  proof (cases "field_step_of fl vs tagName f (field_val heap b i)")
    case Skip
    with IH(1) [OF Skip _ next_at] run show ?thesis by simp
  next
    case (Store v)
    have f: "may_get fl vs tagName f v" "val_ok (types_of heap) (sf_type f) v"
      using field_step_Store [OF Store] by blast+
    note kept = hidden_kept_set_field [OF at f(1)]
    have wt: "well_typed env heap \<Longrightarrow> well_typed env (set_field b i v heap)"
      using at f(2) well_typed_set_field [of env heap b _ _ i f fs v] by (auto simp: loop_at_def types_of_def)
    have "bind_fields n fl env vs tagName visited b (Suc i) fs (set_field b i v heap) = Some (heap1, r)"
      using run Store by simp
    from IH(2) [OF Store this loop_at_kept [OF next_at kept]] wt show ?thesis
      using hidden_kept_trans [OF kept] by blast
  next
    case (Descend d)
    with run obtain h' r' where rec: "bindValuesRec n fl env vs tagName visited d heap = Some (h', r')"
      by (auto split: option.splits)
    note sub = IH(3) [OF Descend rec]
    show ?thesis
    proof (cases r')
      case Bound
      with run Descend rec have rest: "bind_fields n fl env vs tagName visited b (Suc i) fs h' = Some (heap1, r)" by simp
      have "loop_at env b (Suc i) fs h'" using loop_at_kept [OF next_at] sub by blast
      from IH(4) [OF Descend rec refl Bound rest this] sub show ?thesis
        using hidden_kept_trans [of fl vs env tagName heap h' heap1] by blast
    qed (use run Descend rec sub in auto)
  qed (use run in simp_all)
qed

text \<open>C15. Binding preserves the types of the memory: whatever values the client sends, and also
  when binding stops with an error or a panic, every field still holds a value of its declared
  type, integers stay in the range of their width, and pointers refer to objects of their type.\<close>

theorem bind_preserves_types:
  assumes "well_typed env heap" "bindValues fl env out vs tagName heap = Some (heap', r)"
  shows "well_typed env heap' \<and> types_of heap' = types_of heap"
  using assms bind_keeps(1) unfolding hidden_kept_def bindValues_def
  by (auto split: bind_target.splits)

text \<open>C27. A form reaches the fields it is meant for only: in every object of the memory, a field keeps its
  value unless it is exported and its tag names an entry of the form, or has a default value when the
  form has no such entry; then it has the value that the text of the form, or the default, is read as in
  its type. In particular fields without a tag, unexported fields and all pointers keep theirs, also
  when binding stops with an error or a panic.\<close>

theorem bind_writes_tagged_only:
  assumes "bindValues fl env out vs tagName heap = Some (heap', r)"
    and "heap a = Some (tn, ws)" "i < length (fields_of env tn)" "f = fields_of env tn ! i"
  shows "field_val heap' a i = field_val heap a i
    \<or> sf_exported f \<and> (\<exists>v name def. field_val heap' a i = Some v \<and> tag_says (tag_get f tagName) name def
        \<and> (if hindex vs name \<noteq> [] then reads_as fl (sf_type f) (hindex vs name) v
           else def \<noteq> [] \<and> reads_as fl (sf_type f) [def] v))"
proof -
  have "hidden_kept fl vs env tagName heap heap'"
    using assms(1) bind_keeps(1) unfolding bindValues_def
    by (auto split: bind_target.splits)
  moreover have "types_of heap a = Some tn" using assms(2) by (simp add: types_of_def)
  ultimately show ?thesis using assms(3,4) unfolding hidden_kept_def may_get_def by blast
qed

text \<open>A user with a name, an unexported role, an age of eight bits, an embedded address, and a
  pointer to a user, which points back to the first one.\<close>

definition demo_floats :: float_ops where
  "demo_floats = \<lparr>parse_float = (\<lambda>s. None), round_float = (\<lambda>w x. x)\<rparr>"

definition demo_env :: struct_env where
  "demo_env =
    [(''User'',
       [\<lparr>sf_exported = True, sf_tags = [(''form'', ''name'')], sf_type = TString\<rparr>,
        \<lparr>sf_exported = False, sf_tags = [(''form'', ''role'')], sf_type = TString\<rparr>,
        \<lparr>sf_exported = True, sf_tags = [(''form'', ''age,default=7'')], sf_type = TInt 8\<rparr>,
        \<lparr>sf_exported = True, sf_tags = [], sf_type = TStruct ''Address''\<rparr>,
        \<lparr>sf_exported = True, sf_tags = [], sf_type = TPtrStruct ''User''\<rparr>]),
     (''Address'', [\<lparr>sf_exported = True, sf_tags = [(''form'', ''city'')], sf_type = TString\<rparr>])]"

definition demo_heap :: memory where
  "demo_heap =
     [0 \<mapsto> (''User'', [VString [], VString ''guest'', VInt 0, VStruct 1, VPtr (Some 2)]),
      1 \<mapsto> (''Address'', [VString []]),
      2 \<mapsto> (''User'', [VString ''x'', VString ''guest'', VInt 0, VStruct 3, VPtr (Some 0)]),
      3 \<mapsto> (''Address'', [VString []])]"

definition demo_form :: "(string \<times> string list) list" where
  "demo_form = [(''name'', [''ann'', ''bob'']), (''role'', [''admin'']), (''age'', [''300'']), (''city'', [''Rome''])]"

definition demo_bound :: "(memory \<times> bind_result) option" where
  "demo_bound = bindValues demo_floats demo_env (PointerTo 0) demo_form ''form'' demo_heap"

lemma demo_bound_eq:
  "demo_bound = Some (demo_heap(0 \<mapsto> (''User'', [VString ''ann'', VString ''guest'', VInt 44, VStruct 1, VPtr (Some 2)]),
     1 \<mapsto> (''Address'', [VString ''Rome''])), Bound)"
proof -
  have "ParseInt ''300'' = Some 300" "trunc_int 8 300 = 44"
    "split_tag ''name'' = Some (''name'', [])" "split_tag ''age,default=7'' = Some (''age'', ''7'')"
    "split_tag ''city'' = Some (''city'', [])" by code_simp+
  then show ?thesis
    unfolding demo_bound_def bindValues_def
    by (simp add: bindValuesRec.simps demo_env_def demo_heap_def demo_form_def fields_of_def tag_get_def
        field_step_of_def value_step_def store_step_def field_val_def set_field_def hindex_def Let_def fun_eq_iff
        eval_nat_numeral)
qed

theorem bind_preserves_types_witness:
  "\<exists>heap'. demo_bound = Some (heap', Bound) \<and> well_typed demo_env heap'"
proof -
  have "well_typed demo_env demo_heap"
    by (auto simp: well_typed_def demo_env_def demo_heap_def fields_of_def val_ok_def types_of_def)
  from bind_preserves_types [OF this demo_bound_eq [unfolded demo_bound_def]] show ?thesis
    by (simp add: demo_bound_eq)
qed

theorem bind_writes_tagged_only_witness:
  "\<exists>heap'. demo_bound = Some (heap', Bound) \<and> field_val heap' 0 1 = Some (VString ''guest'')"
proof -
  have "demo_heap 0 = Some (''User'', [VString [], VString ''guest'', VInt 0, VStruct 1, VPtr (Some 2)])"
    by (simp add: demo_heap_def)
  moreover have "1 < length (fields_of demo_env ''User'')" "\<not> sf_exported (fields_of demo_env ''User'' ! 1)"
    by code_simp+
  moreover have "field_val demo_heap 0 1 = Some (VString ''guest'')" by code_simp
  ultimately show ?thesis
    using bind_writes_tagged_only [OF demo_bound_eq [unfolded demo_bound_def] _ _ refl] demo_bound_eq by metis
qed

text \<open>An integer that does not fit its field is not an error: the age 300 is bound to eight bits as 44.\<close>

theorem narrow_integer_wraps:
  "store_step fl (TInt 8) [''300''] = Store (VInt 44) \<and> store_step fl (TUint 8) [''256''] = Store (VUint 0)"
proof -
  have "ParseInt ''300'' = Some 300" "trunc_int 8 300 = 44" "ParseUint ''256'' = Some 256" "trunc_uint 8 256 = 0"
    by code_simp+
  then show ?thesis by (simp add: store_step_def)
qed

text \<open>A printed integer is read back exactly when it is one of 64 bits.\<close>

lemma ParseUint_dec [simp]: "ParseUint (dec_nat n) = (if int n < 2 ^ 64 then Some (int n) else None)"
  using dec_nat_digits [of n] by (simp add: ParseUint_def)

theorem parse_int_itoa:
  "ParseInt (itoa i) = (if - (2 ^ 63) \<le> i \<and> i < 2 ^ 63 then Some i else None)"
proof (cases "i < 0")
  case True
  then show ?thesis by (auto simp: itoa_def ParseInt_def)
next
  case False
  obtain d ds where d: "dec_nat (nat i) = d # ds" using dec_nat_digits [of "nat i"] by (cases "dec_nat (nat i)") auto
  have "is_digit d" using dec_nat_digits [of "nat i"] d by simp
  then have "d \<noteq> CHR ''-''" "d \<noteq> CHR ''+''" by (auto simp: is_digit_def less_eq_char_def)
  with False d ParseUint_dec [of "nat i"] show ?thesis
    by (simp add: itoa_def ParseInt_def Let_def)
qed

subsection \<open>The operations of the context\<close>

text \<open>
  \<open>BindForm\<close>, \<open>FormFile\<close>, \<open>BindQuery\<close> and \<open>SaveUploadedFile\<close>. A parsed form is its
  values and, for each name, the list of its files; \<open>parse\<close> is \<open>ParseMultipartForm\<close> on
  the body it can read, \<open>Inl True\<close> its \<open>ErrNotMultipart\<close>, in which case the values of a
  URL-encoded body are still there.
\<close>

datatype upload_error =
    MaxBytesError int | ParseFormFailed | FileNotInForm string | NilFile | OpenFailed | CreateFailed
  | CopyFailed | CloseFailed

record multipart_form =
  form_values :: header
  form_files :: "(string, nat list) gomap"

datatype parsed_form = Parsed multipart_form | NotMultipart multipart_form | ParseError

definition limit_body :: "'h Context \<Rightarrow> 'h Context" where
  "limit_body c =
     (if maxBodyBytes c > 0
      then SetRequest ((request c)\<lparr>body_limits := maxBodyBytes c # body_limits (request c)\<rparr>) c else c)"

definition readable_body :: "'h Context \<Rightarrow> string \<times> bool" where
  "readable_body c = body_view (body_limits (request c)) (req_body (request c))"

definition BindForm ::
    "(string \<times> bool \<Rightarrow> parsed_form) \<Rightarrow> float_ops \<Rightarrow> struct_env \<Rightarrow> bind_target \<Rightarrow> memory \<Rightarrow> 'h Context
      \<Rightarrow> 'h Context \<times> (upload_error + (memory \<times> bind_result) option)" where
  "BindForm parse fl env out heap c =
     (let c1 = limit_body c
      in (c1,
          if maxBodyBytes c > 0 \<and> content_length (request c) > maxBodyBytes c then Inl (MaxBytesError (maxBodyBytes c))
          else (case parse (readable_body c1) of
                  ParseError \<Rightarrow> Inl ParseFormFailed
                | NotMultipart f \<Rightarrow> Inr (bindValues fl env out (form_values f) ''form'' heap)
                | Parsed f \<Rightarrow> Inr (bindValues fl env out (form_values f) ''form'' heap))))"

definition FormFile ::
    "(string \<times> bool \<Rightarrow> parsed_form) \<Rightarrow> string \<Rightarrow> 'h Context \<Rightarrow> 'h Context \<times> (upload_error + nat)" where
  "FormFile parse name c =
     (let c1 = limit_body c
      in (c1,
          if maxBodyBytes c > 0 \<and> content_length (request c) > maxBodyBytes c then Inl (MaxBytesError (maxBodyBytes c))
          else (case parse (readable_body c1) of
                  Parsed f \<Rightarrow>
                    (case map_of (form_files f) name of
                       Some (fh # _) \<Rightarrow> Inr fh
                     | _ \<Rightarrow> Inl (FileNotInForm name))
                | _ \<Rightarrow> Inl ParseFormFailed)))"

text \<open>No more of a body is read than the limit of the server allows.\<close>

lemma foldr_min_le: "foldr min ls l \<le> (l :: int)"
  by (induction ls) auto

lemma body_view_bounded: "int (length (fst (body_view (l # ls) b))) \<le> max 0 l"
  using foldr_min_le [of ls l] by (simp add: Let_def)

lemma form_body_bounded:
  "maxBodyBytes c > 0 \<Longrightarrow> int (length (fst (readable_body (limit_body c)))) \<le> maxBodyBytes c"
  using body_view_bounded [of "maxBodyBytes c" "body_limits (request c)" "req_body (request c)"]
  by (simp add: readable_body_def limit_body_def SetRequest_def)

definition BindQuery ::
    "float_ops \<Rightarrow> struct_env \<Rightarrow> bind_target \<Rightarrow> memory \<Rightarrow> 'h Context \<Rightarrow> (memory \<times> bind_result) option" where
  "BindQuery fl env out heap c = bindValues fl env out (req_query (request c)) ''query'' heap"

text \<open>The outcomes of opening, creating, copying and closing are arguments; the calls made are returned.\<close>

datatype file_call = CallOpen | CallCreate string | CallCopy | CallCloseOut | CallCloseSrc

definition SaveUploadedFile ::
    "int option \<Rightarrow> string \<Rightarrow> bool \<Rightarrow> bool \<Rightarrow> bool \<Rightarrow> bool \<Rightarrow> 'h Context \<Rightarrow> upload_error option \<times> file_call list" where
  "SaveUploadedFile fh dest open_ok create_ok copy_ok close_ok c =
     (case fh of
        None \<Rightarrow> (Some NilFile, [])
      | Some size_of \<Rightarrow>
          (if maxBodyBytes c > 0 \<and> size_of > maxBodyBytes c then (Some (MaxBytesError (maxBodyBytes c)), [])
           else if \<not> open_ok then (Some OpenFailed, [CallOpen])
           else if \<not> create_ok then (Some CreateFailed, [CallOpen, CallCreate dest, CallCloseSrc])
           else if \<not> copy_ok then (Some CopyFailed, [CallOpen, CallCreate dest, CallCopy, CallCloseOut, CallCloseSrc])
           else (if close_ok then None else Some CloseFailed,
                 [CallOpen, CallCreate dest, CallCopy, CallCloseOut, CallCloseSrc])))"

text \<open>Every file that was opened is closed, on every path.\<close>

lemma upload_closes_files:
  "snd (SaveUploadedFile fh dest o1 o2 o3 o4 c) = calls \<Longrightarrow>
     (CallCloseSrc \<in> set calls) = (CallOpen \<in> set calls \<and> o1)
     \<and> (CallCloseOut \<in> set calls) = (CallCreate dest \<in> set calls \<and> o2)"
  by (auto simp: SaveUploadedFile_def split: option.splits if_splits)

end
