(* ===== verification/Refusals.thy ===== *)
theory Refusals
  imports Interleaving
begin

text \<open>
  What a client reads when a middleware refuses its request: the guards of the chain (body
  limit, concurrency limit, validation, rate limit) answer with the envelope of
  \<open>internal/core/response.go\<close>, and the middlewares in front of them leave it as it is.
\<close>

subsection \<open>Guards\<close>

text \<open>\<open>c'\<close> is \<open>c\<close> after a refusal with status \<open>st\<close>: headers are set, then the status and an
  envelope go to the writer, whatever wrappers are in front of the connection.\<close>

definition refuses :: "int \<Rightarrow> int \<Rightarrow> 'h Context \<Rightarrow> 'h Context \<Rightarrow> bool" where
  "refuses now st c c' \<longleftrightarrow> aborted c' \<and> StatusCode c' = st \<and> RequestID c' = RequestID c
     \<and> (\<exists>f b msg. read_envelope b = Some (st, msg, RequestID c, now)
          \<and> writer c' = respond [SetHdr f, Call (CWriteHeader st), Call (CWrite b)] (writer c))"

lemma map_header_map_header [simp]: "map_header f (map_header g w) = map_header (f \<circ> g) w"
  by (simp add: map_header_def)

lemma abort_refuses:
  assumes "\<not> wrote c" "st \<noteq> 0"
  shows "refuses now st c (AbortWithStatusJSON marshal now st msg None (c\<lparr>writer := map_header f (writer c)\<rparr>))"
proof -
  let ?b = "envelope marshal st msg None (RequestID c) now"
  have "read_envelope ?b = Some (st, msg, RequestID c, now)" by (rule envelope_reads) simp
  moreover have "writer (AbortWithStatusJSON marshal now st msg None (c\<lparr>writer := map_header f (writer c)\<rparr>))
      = respond [SetHdr (header_put_first ''Content-Type'' ''application/json; charset=utf-8'' \<circ> f), Call (CWriteHeader st), Call (CWrite ?b)] (writer c)"
    using assms(1) by (simp add: AbortWithStatusJSON_def JSONResponse_def writeStandardized_def Let_def Abort_def RequestID_def
        GetString_def Get_val_def setContentType_def writeHeader_def write_bytes_def WriteHeader_def Write_def)
  ultimately show ?thesis
    using assms unfolding refuses_def
    by (auto simp: AbortWithStatusJSON_def JSONResponse_def writeStandardized_def Let_def Abort_def RequestID_def
        GetString_def Get_val_def writeHeader_def write_bytes_def StatusCode_def)
qed

lemma map_header_id: "map_header (\<lambda>h. h) w = w"
  by (simp add: map_header_def)

lemma abort_refuses_plain:
  "\<not> wrote c \<Longrightarrow> st \<noteq> 0 \<Longrightarrow> refuses now st c (AbortWithStatusJSON marshal now st msg None c)"
  using abort_refuses [of c st now marshal msg "\<lambda>h. h"] by (simp add: map_header_id)

text \<open>A middleware of the server that answers by itself refuses, or it is CORS with a preflight.\<close>

definition guards :: "int \<Rightarrow> ('s, 'h) enter \<Rightarrow> bool" where
  "guards now enter \<longleftrightarrow> (\<forall>s c s' c'. enter (s, c) = Answered (s', c') \<longrightarrow> \<not> wrote c \<longrightarrow>
     (\<exists>st \<in> {400, 413, 429, 503}. refuses now st c c'))"

lemma guards_body_limit: "guards now (enter_body_limit n text m now)"
  by (auto simp: guards_def enter_body_limit_def Let_def intro: abort_refuses_plain split: if_splits)

lemma guards_concurrency: "guards now (enter_concurrency p m now)"
proof -
  have "refuses now 503 c c'" if "enter_concurrency p m now (s, c) = Answered (s', c')" "\<not> wrote c" for s s' c c'
    using that abort_refuses [of c 503 now m _ "header_set ''Retry-After'' ''1''"]
    by (auto simp: enter_concurrency_def Let_def split: prod.splits bool.splits)
  then show ?thesis by (auto simp: guards_def)
qed

lemma guards_validation: "guards now (enter_validation et m now)"
  by (auto simp: guards_def enter_validation_def intro: abort_refuses_plain split: option.splits)

lemma guards_rate_limit: "guards (now div 1000000) (enter_rate_limit p impl parse_ip m now key_fn)"
proof -
  have "refuses (now div 1000000) 429 c c'" if "enter_rate_limit p impl parse_ip m now key_fn (s, c) = Answered (s', c')" "\<not> wrote c" for s s' c c'
    using that by (auto simp: enter_rate_limit_def Let_def intro: abort_refuses abort_refuses_plain split: prod.splits bool.splits if_splits)
  then show ?thesis by (auto simp: guards_def)
qed

lemma guards_none:
  "guards now (enter_recovery l k d pe m now')" "guards now (enter_request_id name g)" "guards now (enter_timeout t text k' m now')"
  "guards now (enter_security opts)" "guards now (enter_gzip codec gopts)" "guards now (enter_metrics mp elapsed)"
  "guards now (enter_access_log lp aopts env)"
  by (auto simp: guards_def enter_recovery_def enter_request_id_def enter_timeout_def enter_security_def enter_gzip_def
      enter_metrics_def enter_access_log_def Let_def split: if_splits)

lemma guards_own: "\<forall>f. m \<noteq> External f \<Longrightarrow> m \<noteq> Builtin ''cors'' \<Longrightarrow> guards (millis q) (enter_of D q m)"
  by (cases m) (simp_all add: enter_builtin_def Let_def millis_def guards_body_limit guards_concurrency guards_validation
      guards_rate_limit guards_none)

subsection \<open>In front of a guard\<close>

text \<open>A middleware that passes the request on and has put no writer in front of the connection keeps
  the response as it finds it when the handler behind it returns.\<close>

definition calm :: "('s, 'h) leave \<Rightarrow> bool" where
  "calm leave \<longleftrightarrow> (\<forall>s c. \<exists>s'. leave (s, c) Returned = ((s', c), Returned))"

definition fresh_for :: "wevent list \<Rightarrow> 'h Context \<Rightarrow> bool" where
  "fresh_for log c \<longleftrightarrow> \<not> wrote c \<and> w_log (writer c) = log"

definition quiet :: "('s, 'h) enter \<Rightarrow> bool" where
  "quiet enter \<longleftrightarrow> (\<forall>s c s' c' leave. enter (s, c) = Passed (s', c') leave \<longrightarrow>
     wrote c' = wrote c \<and> w_log (writer c') = w_log (writer c)
     \<and> (w_stack (writer c') = [] \<longrightarrow> w_stack (writer c) = [] \<and> calm leave))"

lemmas quiet_simps = quiet_def calm_def keep_def Let_def

lemma quiet_builtin: "quiet (enter_builtin rt s q key)"
proof (induction rule: enter_builtin_cases [where P = quiet])
  case (recovery d pe m now)
  then show ?case by (simp add: quiet_simps enter_recovery_def)
next
  case (request_id name g)
  then show ?case
    by (simp add: quiet_simps enter_request_id_def on_header_def map_header_def SetRequest_def Set_val_def)
next
  case (body_limit k msg m now)
  then show ?case by (simp add: quiet_simps enter_body_limit_def SetRequest_def)
next
  case (concurrency_limit m now)
  then show ?case by (auto simp: quiet_simps enter_concurrency_def split: prod.splits bool.splits)
next
  case (timeout t msg k m now)
  then show ?case by (simp add: quiet_simps enter_timeout_def push_wrapper_def SetWriter_def)
next
  case (cors cfg)
  then show ?case by (simp add: quiet_simps enter_cors_def on_header_def map_header_def)
next
  case (validation et m now)
  then show ?case by (simp add: quiet_simps enter_validation_def split: option.split)
next
  case (security opts)
  then show ?case by (simp add: quiet_simps enter_security_def on_header_def map_header_def)
next
  case (gzip codec opts)
  then show ?case by (simp add: quiet_simps enter_gzip_def push_wrapper_def SetWriter_def)
next
  case (metrics elapsed)
  then show ?case by (simp add: quiet_simps enter_metrics_def)
next
  case (access_log opts env)
  then show ?case by (simp add: quiet_simps enter_access_log_def push_wrapper_def SetWriter_def)
qed

lemma quiet_own: "\<forall>f. m \<noteq> External f \<Longrightarrow> quiet (enter_of D q m)"
  by (cases m) (auto simp: quiet_builtin, auto simp: quiet_simps enter_rate_limit_def split: prod.splits bool.splits)

lemma unwind_calm:
  "list_all (\<lambda>(m, leave). calm leave) fs \<Longrightarrow> \<exists>s'. unwind fs ((s, c), Returned) = ((s', c), Returned)"
proof (induction fs arbitrary: s)
  case (Cons fr fs)
  obtain m leave where fr: "fr = (m, leave)" by (cases fr)
  with Cons.prems obtain s1 where "leave (s, c) Returned = ((s1, c), Returned)" unfolding calm_def by auto
  with Cons fr show ?case by simp
qed simp

lemma unwind_stays: "snd ((advance D q ^^ k) (sc, Unwind e gs)) \<noteq> Descend ms fs"
proof -
  have "\<exists>sc1 e1 gs1. (advance D q ^^ k) (sc, Unwind e gs) = (sc1, Unwind e1 gs1)"
  proof (induction k)
    case (Suc k)
    then obtain sc1 e1 gs1 where "(advance D q ^^ k) (sc, Unwind e gs) = (sc1, Unwind e1 gs1)" by blast
    then show ?case by (cases gs1) (auto split: prod.split)
  qed simp
  then show ?thesis by auto
qed

lemma descend_calmly:
  assumes "(advance D q ^^ length pre) ((s, c), Descend (pre @ ms) fs0) = ((s', c'), Descend ms fs)"
    and "\<forall>f. External f \<notin> set pre" and "w_stack (writer c') = []" and "fresh_for log c"
  shows "w_stack (writer c) = [] \<and> fresh_for log c'
    \<and> (list_all (\<lambda>(m, leave). calm leave) fs0 \<longrightarrow> list_all (\<lambda>(m, leave). calm leave) fs)"
  using assms
proof (induction pre arbitrary: s c fs0)
  case (Cons m pre)
  have unfold: "(advance D q ^^ length (m # pre)) x = (advance D q ^^ length pre) (advance D q x)" for x
    by (simp add: funpow_swap1)
  show ?case
  proof (cases "enter_of D q m (s, c)")
    case (Answered sc1)
    with Cons.prems(1) unwind_stays [of "length pre" D q sc1 Returned fs0 ms fs] show ?thesis unfolding unfold by simp
  next
    case (Passed sc1 leave)
    obtain s1 c1 where sc1: "sc1 = (s1, c1)" by (cases sc1)
    from Cons.prems(1) Passed sc1
    have run: "(advance D q ^^ length pre) ((s1, c1), Descend (pre @ ms) ((m, leave) # fs0)) = ((s', c'), Descend ms fs)"
      unfolding unfold by simp
    have own: "\<forall>f. m \<noteq> External f" "\<forall>f. External f \<notin> set pre" using Cons.prems(2) by auto
    from quiet_own [OF own(1)] Passed sc1 have pass: "fresh_for log c1"
      "w_stack (writer c1) = [] \<longrightarrow> w_stack (writer c) = [] \<and> calm leave"
      using Cons.prems(4) unfolding quiet_def fresh_for_def by metis+
    from Cons.IH [OF run own(2) Cons.prems(3) pass(1)] pass(2) show ?thesis by simp
  qed
qed simp

text \<open>C11. A refused request gets an answer its client can read: whatever own middlewares of the server it has
  passed, in any order, none of which put a writer in front of the connection, when the next one
  (CORS apart, which answers preflights) does not pass it on, the client gets exactly one status,
  400, 413, 429 or 503, and one body, an envelope that reads back to the same code, the message,
  the request id and the time; nothing behind the guard runs, nothing in front adds to it.\<close>

theorem refusals_readable:
  assumes "bracketed D" and "dp_chain D = pre @ m # post" and "\<forall>f. External f \<notin> set (pre @ [m])" and "m \<noteq> Builtin ''cors''"
    and "(advance D q ^^ length pre) ((sh, SetRequest r (Acquire pooled w r)), Descend (dp_chain D) []) = ((s1, c1), Descend (m # post) fs)"
    and "enter_of D q m (s1, c1) = Answered (s2, c2)" and "w_stack (writer c1) = []"
  shows "\<exists>s' c' h b msg. \<exists>st \<in> {400, 413, 429, 503}.
    handle_request (dp_runtime D) (dp_server D) q (dp_chain D) (dp_router D) pooled w r sh = ((s', c'), Returned)
    \<and> w_log (writer c') = w_log w @ [WHeader st h, WBytes b h] \<and> StatusCode c' = st
    \<and> read_envelope b = Some (st, msg, RequestID c', millis q)"
proof -
  let ?x = "((sh, SetRequest r (Acquire pooled w r)), Descend (dp_chain D) [])"
  have "fresh_for (w_log w) (SetRequest r (Acquire pooled w r))"
    by (simp add: fresh_for_def SetRequest_def Acquire_def Reset_def)
  with descend_calmly [OF assms(5) [unfolded assms(2)]] assms(3,7)
  have calm: "fresh_for (w_log w) c1" "list_all (\<lambda>(m, leave). calm leave) fs" by auto
  from guards_own [of m q D] assms(3,4,6) calm(1)
  obtain st where st: "st \<in> {400, 413, 429, 503}" "refuses (millis q) st c1 c2" unfolding guards_def fresh_for_def by (metis append_is_Nil_conv in_set_conv_decomp list.set_intros(1) append.assoc)
  then obtain f b msg where b: "read_envelope b = Some (st, msg, RequestID c2, millis q)" "StatusCode c2 = st"
    and w2: "writer c2 = respond [SetHdr f, Call (CWriteHeader st), Call (CWrite b)] (writer c1)"
    unfolding refuses_def by auto
  have "w_log (writer c2) = w_log w @ [WHeader st (f (w_header (writer c1))), WBytes b (f (w_header (writer c1)))]"
    using assms(7) calm(1) unfolding w2 fresh_for_def by (simp add: map_header_def writer_calls_plain)
  moreover from unwind_calm [OF calm(2)] obtain s' where un: "unwind fs ((s2, c2), Returned) = ((s', c2), Returned)" by blast
  have "remaining D q ((advance D q ^^ k) x) = remaining D q x" for k x
    by (induction k) (simp_all add: remaining_advance [OF assms(1)])
  from this [of "Suc (length pre)" ?x] assms(5,6) un
  have "handle_request (dp_runtime D) (dp_server D) q (dp_chain D) (dp_router D) pooled w r sh = ((s', c2), Returned)"
    by (simp add: handle_request_def)
  ultimately show ?thesis using st(1) b by blast
qed

text \<open>A \<open>POST\<close> of plain text, which the validation refuses behind two other middlewares.\<close>

definition guarded :: "(nat, unit, nat) deployment" where
  "guarded = demo_deployment\<lparr>dp_chain := [Builtin ''recovery'', Builtin ''metrics'', Builtin ''validation'', Builtin ''security'']\<rparr>"

definition plain_post :: Request where
  "plain_post = nil_request\<lparr>req_method := ''POST'', req_path := ''/x'', req_header := [(''Content-Type'', [''text/plain''])]\<rparr>"

theorem refusals_readable_witness:
  "\<exists>s' c' st h b msg.
    handle_request demo_runtime demo_limited demo_request_env (dp_chain guarded) demo_panicking (NewContext new_writer nil_request)
      new_writer plain_post demo_shared = ((s', c'), Returned)
    \<and> w_log (writer c') = [WHeader st h, WBytes b h] \<and> read_envelope b = Some (st, msg, RequestID c', 17)"
proof -
  let ?pre = "[Builtin ''recovery'', Builtin ''metrics''] :: nat middleware_value list"
  have D: "bracketed guarded" "dp_chain guarded = ?pre @ Builtin ''validation'' # [Builtin ''security'']"
    using demo_bracketed by (simp_all add: guarded_def bracketed_def)
  have parts: "dp_runtime guarded = demo_runtime" "dp_server guarded = demo_limited" "dp_router guarded = demo_panicking"
    by (simp_all add: guarded_def demo_deployment_def)
  let ?c = "SetRequest plain_post (Acquire (NewContext new_writer nil_request) new_writer plain_post) :: handler Context"
  have sets: "dp_chain guarded = ?pre @ [Builtin ''validation'', Builtin ''security'']"
    using D(2) by simp
  obtain s1 c1 lv1 where e1: "enter_of guarded demo_request_env (Builtin ''recovery'') (demo_shared, ?c) = Passed (s1, c1) lv1"
    and c1: "c1 = ?c"
    by (simp add: enter_builtin_def enter_recovery_def Let_def)
  obtain s2 lv2 where e2: "enter_of guarded demo_request_env (Builtin ''metrics'') (s1, c1) = Passed (s2, ?c) lv2"
    by (simp add: c1 enter_builtin_def enter_metrics_def Let_def)
  have run: "(advance guarded demo_request_env ^^ length ?pre) ((demo_shared, ?c), Descend (dp_chain guarded) [])
      = ((s2, ?c), Descend [Builtin ''validation'', Builtin ''security''] [(Builtin ''metrics'', lv2), (Builtin ''recovery'', lv1)])"
    using e1 e2 by (simp add: sets)
  have "http_request_rule (req_method plain_post) (header_get (req_header plain_post) ''Content-Type'') (content_length plain_post) \<noteq> None"
    by code_simp
  then obtain s3 c3 where ans: "enter_of guarded demo_request_env (Builtin ''validation'') (s2, ?c) = Answered (s3, c3)"
    by (auto simp: enter_builtin_def enter_validation_def Let_def SetRequest_def)
  have stack: "w_stack (writer ?c) = []" by (simp add: SetRequest_def Acquire_def Reset_def new_writer_def)
  have own: "\<forall>f. External f \<notin> set (?pre @ [Builtin ''validation''])" "Builtin ''validation'' \<noteq> (Builtin ''cors'' :: nat middleware_value)" by simp_all
  have now: "millis demo_request_env = 17" by (simp add: millis_def demo_request_env_def)
  from refusals_readable [OF D own run ans stack] show ?thesis
    unfolding parts now by (auto simp: new_writer_def)
qed

end
