(* ===== verification/Stacks.thy ===== *)
theory Stacks
  imports AccessLogging Metrics
begin

text \<open>
  Several writers in front of the connection at once, in the order the server has them: the
  counting writer of the access log in front of the compressor, both in front of the writer
  that minds the deadline. A stack does what its parts do: the counting writer is invisible
  from behind, the one with the deadline is invisible while there is time, and so the client
  gets what the compressor alone would have sent.
\<close>

subsection \<open>A writer in front\<close>

lemma pass_down_length: "length ws = n \<Longrightarrow> pass_down n ws calls h = (ws', h', es) \<Longrightarrow> length ws' = n"
proof (induction n arbitrary: ws calls h ws' h' es)
  case (Suc n)
  have "length us = n \<Longrightarrow> through (pass_down n) w us calls h = (ws', h', es) \<Longrightarrow> length ws' = Suc n" for w us
  proof (induction calls arbitrary: w us h es)
    case (Cons call calls)
    obtain w1 h1 sub where step: "wrapper_step w call h = (w1, h1, sub)" by (cases "wrapper_step w call h") auto
    obtain us1 h2 es1 where down: "pass_down n us sub h1 = (us1, h2, es1)" by (cases "pass_down n us sub h1") auto
    obtain us2 h3 es2 where rest: "through (pass_down n) w1 us1 calls h2 = (us2, h3, es2)"
      by (cases "through (pass_down n) w1 us1 calls h2") auto
    from Cons.IH [OF Suc.IH [OF Cons.prems(1) down]] rest Cons.prems(2) step down show ?case by auto
  qed auto
  with Suc.prems show ?case by (cases ws) auto
qed simp

lemma writer_calls_length: "length (w_stack (writer_calls calls w)) = length (w_stack w)"
  by (auto simp: writer_calls_def split: prod.split dest: pass_down_length [rotated])

lemma respond_length: "length (w_stack (respond as w)) = length (w_stack w)"
  by (induction as w rule: respond.induct) (simp_all add: writer_calls_length)

lemma count_call:
  "\<exists>n'. writer_calls [call] (push_wrapper (CountW n) w) = push_wrapper (CountW n') (writer_calls [call] w)"
  by (cases call) (auto simp: writer_calls_def push_wrapper_def split: prod.split)

lemma header_push: "map_header f (push_wrapper x w) = push_wrapper x (map_header f w)"
  by (simp add: map_header_def push_wrapper_def)

lemma count_responds: "\<exists>n'. respond as (push_wrapper (CountW n) w) = push_wrapper (CountW n') (respond as w)"
proof (induction as w arbitrary: n rule: respond.induct)
  case (2 f as w)
  then show ?case by (simp add: header_push)
next
  case (3 call as w)
  obtain n' where "writer_calls [call] (push_wrapper (CountW n) w) = push_wrapper (CountW n') (writer_calls [call] w)"
    using count_call by blast
  with 3 show ?case by simp
qed auto

subsection \<open>A deadline behind\<close>

text \<open>\<open>in_time b t\<close>: the next \<open>b\<close> calls come before the deadline. \<open>behind t w\<close> is \<open>w\<close> with the writer \<open>t\<close>
  between its wrappers and the connection.\<close>

definition in_time :: "nat \<Rightarrow> timeoutWriter \<Rightarrow> bool" where
  "in_time b t \<longleftrightarrow> \<not> tw_cancelled t \<and> \<not> timedOut t \<and> b \<le> tw_before t"

definition behind :: "timeoutWriter \<Rightarrow> Writer \<Rightarrow> Writer" where
  "behind t w = w\<lparr>w_stack := w_stack w @ [TimeoutW t]\<rparr>"

lemma behind_sel [simp]:
  "w_header (behind t w) = w_header w" "w_log (behind t w) = w_log w" "w_stack (behind t w) = w_stack w @ [TimeoutW t]"
  by (simp_all add: behind_def)

lemma header_behind: "map_header f (behind t w) = behind t (map_header f w)"
  by (simp add: map_header_def behind_def)

lemma deadline_alone:
  "in_time (length calls + b) t \<Longrightarrow>
   \<exists>t'. through (pass_down 0) (TimeoutW t) [] calls h = ([TimeoutW t'], h, map (event h) calls) \<and> in_time b t'"
proof (induction calls arbitrary: t)
  case (Cons call calls)
  obtain t1 where t1: "tw_step t call = (t1, [call])" "in_time (length calls + b) t1"
    using Cons.prems by (cases call) (auto simp: in_time_def ctx_done_def)
  from Cons.IH [OF t1(2)] t1(1) show ?case by auto
qed simp

lemma deadline_below:
  "length ws = n \<Longrightarrow> pass_down n ws calls h = (ws', h', es) \<Longrightarrow> in_time (length es + b) t \<Longrightarrow>
   \<exists>t'. pass_down (Suc n) (ws @ [TimeoutW t]) calls h = (ws' @ [TimeoutW t'], h', es) \<and> in_time b t'"
proof (induction n arbitrary: ws calls h ws' h' es b t)
  case 0
  then show ?case using deadline_alone [of calls b t h] by auto
next
  case (Suc n)
  have "length us = n \<Longrightarrow> through (pass_down n) w us calls h = (ws', h', es) \<Longrightarrow> in_time (length es + b) t \<Longrightarrow>
      \<exists>t'. through (pass_down (Suc n)) w (us @ [TimeoutW t]) calls h = (ws' @ [TimeoutW t'], h', es) \<and> in_time b t'"
    for w us b t
  proof (induction calls arbitrary: w us h es t)
    case (Cons call calls)
    obtain w1 h1 sub where step: "wrapper_step w call h = (w1, h1, sub)" by (cases "wrapper_step w call h") auto
    obtain us1 h2 es1 where down: "pass_down n us sub h1 = (us1, h2, es1)" by (cases "pass_down n us sub h1") auto
    obtain us2 h3 es2 where rest: "through (pass_down n) w1 us1 calls h2 = (us2, h3, es2)"
      by (cases "through (pass_down n) w1 us1 calls h2") auto
    from Cons.prems(2) step down rest have r: "us2 = ws'" "h3 = h'" "es = es1 @ es2" by auto
    from Cons.prems(3) r have "in_time (length es1 + (length es2 + b)) t" by (simp add: add.assoc)
    from Suc.IH [OF Cons.prems(1) down this] obtain t1 where
      t1: "pass_down (Suc n) (us @ [TimeoutW t]) sub h1 = (us1 @ [TimeoutW t1], h2, es1)" "in_time (length es2 + b) t1" by blast
    from Cons.IH [OF pass_down_length [OF Cons.prems(1) down] rest [unfolded r(1,2)] t1(2)] step t1(1) r
    show ?case by auto
  qed auto
  with Suc.prems show ?case by (cases ws) auto
qed

lemma calls_behind:
  assumes "writer_calls calls w = v" "w_log v = w_log w @ es" "in_time (length es + b) t"
  shows "\<exists>t'. writer_calls calls (behind t w) = behind t' v \<and> in_time b t'"
proof -
  obtain ws' h' es' where down: "pass_down (length (w_stack w)) (w_stack w) calls (w_header w) = (ws', h', es')"
    by (cases "pass_down (length (w_stack w)) (w_stack w) calls (w_header w)") auto
  with assms(1,2) have v: "v = \<lparr>w_header = h', w_log = w_log w @ es, w_stack = ws'\<rparr>" "es' = es" by (auto simp: writer_calls_def)
  from deadline_below [OF refl down, of b t] v(2) assms(3) obtain t' where
    "pass_down (Suc (length (w_stack w))) (w_stack w @ [TimeoutW t]) calls (w_header w) = (ws' @ [TimeoutW t'], h', es)" "in_time b t'"
    by auto
  then show ?thesis by (auto simp: writer_calls_def v(1) behind_def simp del: pass_down.simps)
qed

lemma respond_log: "\<exists>es. w_log (respond as w) = w_log w @ es"
proof (induction as w rule: respond.induct)
  case (3 call as w)
  obtain es where "w_log (writer_calls [call] w) = w_log w @ es"
    by (cases "pass_down (length (w_stack w)) (w_stack w) [call] (w_header w)") (simp add: writer_calls_def)
  with 3 show ?case by auto
qed auto

lemma respond_behind:
  assumes "w_log (respond as w) = w_log w @ es" "in_time (length es + b) t"
  shows "\<exists>t'. respond as (behind t w) = behind t' (respond as w) \<and> in_time b t'"
  using assms
proof (induction as w arbitrary: t es rule: respond.induct)
  case (2 f as w)
  then show ?case by (simp add: header_behind)
next
  case (3 call as w)
  obtain es1 where es1: "w_log (writer_calls [call] w) = w_log w @ es1"
    by (cases "pass_down (length (w_stack w)) (w_stack w) [call] (w_header w)") (simp add: writer_calls_def)
  obtain es2 where es2: "w_log (respond as (writer_calls [call] w)) = w_log (writer_calls [call] w) @ es2" using respond_log by blast
  have "es = es1 @ es2" using 3(2) es1 es2 by simp
  with 3(3) have "in_time (length es1 + (length es2 + b)) t" by (simp add: add.assoc)
  from calls_behind [OF refl es1 this] obtain t1 where
    "writer_calls [call] (behind t w) = behind t1 (writer_calls [call] w)" "in_time (length es2 + b) t1" by blast
  with 3(1) [OF es2] show ?case by auto
qed auto

subsection \<open>The order of the server\<close>

text \<open>The access log and the counters in front of a handler that answers: the answer is the same.\<close>

lemma logged_answer:
  "\<exists>s'. MetricsHandler m elapsed (AccessLog logs aopts env (responder as)) (s, c) = ((s', SetWriter (respond as (writer c)) c), Returned)"
proof -
  obtain n' where run: "respond as (push_wrapper (CountW \<lparr>cw_n = 0\<rparr>) (writer c)) = push_wrapper (CountW n') (respond as (writer c))"
    using count_responds by blast
  have "restore_writer (length (w_stack (writer c))) (push_wrapper (CountW n') (respond as (writer c))) = respond as (writer c)"
    by (simp add: restore_writer_def push_wrapper_def respond_length)
  then show ?thesis
    by (simp add: MetricsHandler_def AccessLog_def responder_def run SetWriter_def Let_def)
qed

text \<open>The compressor does not care which of two handlers with the same answers is behind it.\<close>

lemma gzip_same_answers:
  assumes "\<And>c. \<exists>s'. h (s, c) = ((s', f c), Returned)" "\<And>c. h' (s, c) = ((s, f c), Returned)"
  shows "\<exists>s'. GzipWithOptions compressor opts h (s, c) = ((s', snd (fst (GzipWithOptions compressor opts h' (s, c)))), Returned)"
proof (cases "acceptsGzip (header_get (req_header (request c)) ''Accept-Encoding'')")
  case False
  then show ?thesis using assms(1) [of c] assms(2) [of c] by (auto simp: GzipWithOptions_def)
next
  case True
  let ?c = "SetWriter (push_wrapper (GzipW (new_gzipWriter (compressor (gzip_level opts)) (gzip_min_size opts))) (writer c)) c"
  obtain s' where "h (s, ?c) = ((s', f ?c), Returned)" using assms(1) by blast
  then show ?thesis using True assms(2) [of ?c] by (auto simp: GzipWithOptions_def Let_def split: wrapper.splits)
qed

lemma gzip_on_top:
  "w_stack w = [GzipW g] \<Longrightarrow> \<exists>g'. w_stack (respond as w) = [GzipW g']"
proof (induction as w arbitrary: g rule: respond.induct)
  case (3 call as w)
  from writer_calls_one [OF 3(2), of call] have "\<exists>g'. w_stack (writer_calls [call] w) = [GzipW g']"
    by (auto split: prod.splits)
  with 3(1) show ?case by auto
qed auto

lemma gzip_answer:
  assumes "acceptsGzip (header_get (req_header (request c)) ''Accept-Encoding'')"
    and "respond as (push_wrapper (GzipW (new_gzipWriter (compressor (gzip_level opts)) (gzip_min_size opts))) (writer c)) = push_wrapper (GzipW g) w"
    and "length (w_stack w) = length (w_stack (writer c))"
  shows "GzipWithOptions compressor opts (responder as) (s, c) = ((s, SetWriter (close_gzip g w) c), Returned)"
proof -
  have restore: "restore_writer (length (w_stack (writer c))) (push_wrapper (GzipW g) w) = w"
    using assms(3) by (simp add: restore_writer_def push_wrapper_def)
  show ?thesis using assms by (simp add: GzipWithOptions_def responder_def SetWriter_def Let_def base_index_def restore)
qed

text \<open>With a deadline behind it, the compressor sends what it sends without, if there is time for it.\<close>

lemma gzip_behind:
  assumes "w_stack (writer c) = []" and c1: "c1 = snd (fst (GzipWithOptions compressor opts (responder as) (s, c)))"
    and "w_log (writer c1) = w_log (writer c) @ es" and "in_time (length es) t"
  shows "\<exists>t'. GzipWithOptions compressor opts (responder as) (s, SetWriter (behind t (writer c)) c)
      = ((s, SetWriter (behind t' (writer c1)) c), Returned) \<and> in_time 0 t' \<and> w_stack (writer c1) = []"
proof (cases "acceptsGzip (header_get (req_header (request c)) ''Accept-Encoding'')")
  case False
  with c1 have "writer c1 = respond as (writer c)" by (simp add: GzipWithOptions_def responder_def SetWriter_def)
  moreover from this have "w_stack (writer c1) = []" using respond_length [of as "writer c"] assms(1) by simp
  ultimately show ?thesis using respond_behind [of as "writer c" es 0 t] assms(3,4) False
    by (auto simp: GzipWithOptions_def responder_def SetWriter_def)
next
  case True
  let ?G = "GzipW (new_gzipWriter (compressor (gzip_level opts)) (gzip_min_size opts))"
  let ?r = "respond as (push_wrapper ?G (writer c))"
  obtain g where g: "w_stack ?r = [GzipW g]" using gzip_on_top [of "push_wrapper ?G (writer c)"] assms(1) by auto
  define w where "w = ?r\<lparr>w_stack := []\<rparr>"
  have r: "?r = push_wrapper (GzipW g) w" using g by (cases ?r) (simp add: w_def push_wrapper_def)
  have stack: "w_stack w = []" by (simp add: w_def)
  have c1: "writer c1 = close_gzip g w"
    using gzip_answer [where compressor = compressor and opts = opts and c = c and s = s, OF True r] assms(1) c1 by (simp add: w_def SetWriter_def)
  obtain es1 where es1: "w_log w = w_log (writer c) @ es1" using respond_log [of as "push_wrapper ?G (writer c)"] by (auto simp: w_def)
  obtain g2 h cl where close: "gw_Close g (w_header w) = (g2, h, cl)" by (cases "gw_Close g (w_header w)") auto
  let ?w = "w\<lparr>w_header := h\<rparr>"
  obtain es2 where es2: "w_log (writer_calls cl ?w) = w_log ?w @ es2"
    by (cases "pass_down (length (w_stack ?w)) (w_stack ?w) cl (w_header ?w)") (simp add: writer_calls_def)
  have "es = es1 @ es2" using assms(3) es1 es2 by (simp add: c1 close_gzip_def close)
  with assms(4) have "in_time (length es1 + (length es2 + 0)) t" by simp
  from respond_behind [OF _ this, of as "push_wrapper ?G (writer c)"] es1 obtain t1 where
    t1: "respond as (behind t (push_wrapper ?G (writer c))) = behind t1 ?r" "in_time (length es2 + 0) t1" by (auto simp: w_def)
  from calls_behind [OF refl es2 t1(2)] obtain t2 where
    t2: "writer_calls cl (behind t1 ?w) = behind t2 (writer_calls cl ?w)" "in_time 0 t2" by blast
  have "w_stack (writer c1) = []" using writer_calls_length [of cl ?w] by (simp add: c1 close_gzip_def close stack)
  moreover have push: "push_wrapper x (behind u v) = behind u (push_wrapper x v)" for x u v
    by (simp add: push_wrapper_def behind_def)
  moreover have "close_gzip g (behind t1 w) = behind t2 (writer c1)"
  proof -
    have header: "(behind t1 w)\<lparr>w_header := h\<rparr> = behind t1 ?w" by (cases w) (simp add: behind_def)
    show ?thesis using t2(1) by (simp add: close_gzip_def close c1 header)
  qed
  ultimately show ?thesis using gzip_answer [of "SetWriter (behind t (writer c)) c" as compressor opts g "behind t1 w" s] True t1(1) r assms(1) t2(2)
    by (auto simp: push SetWriter_def stack)
qed

text \<open>C13. The writers of the server compose: behind the deadline, the compressor, the counters and the
  access log, all at once and in the order of the server, a handler is heard as if it stood behind
  the compressor alone, call by call and header by header, and so its client has, after
  decompressing, the status and the body the handler gave; on four conditions. The handler answers
  before the deadline. It gives its status with its first call or not at all (\<open>header_first\<close>; bytes
  before the status are lost, as \<open>gzip_loses_held_bytes\<close> shows). It leaves the header Content-Encoding
  alone (\<open>keeps_encoding\<close>), which is not set when it starts, on a response where nothing is sent. And
  what the compressor emits can be decompressed (\<open>codec_ok\<close>).\<close>

theorem stacked_writers_transparent:
  fixes c :: "'h Context"
  defines "alone \<equiv> \<lambda>compressor opts as s. writer (snd (fst (GzipWithOptions compressor opts (responder as) (s, c))))"
  assumes codec: "codec_ok (compressor (gzip_level opts)) gunzip"
    and ans: "header_first (calls_of as)" "list_all keeps_encoding as"
    and fresh: "w_stack (writer c) = []" "w_log (writer c) = []" "hindex (w_header (writer c)) key_content_encoding = []"
    and time: "timeout > 0 \<Longrightarrow> length (w_log (alone compressor opts as s)) \<le> k"
  shows "\<exists>s' c'. TimeoutWithOptions timeout message k marshal now
        (GzipWithOptions compressor opts (MetricsHandler m elapsed (AccessLog logs aopts env (responder as)))) (s, c) = ((s', c'), Returned)
    \<and> writer c' = alone compressor opts as s
    \<and> sent_status (w_log (writer c')) = sent_status (w_log (respond as (writer c)))
    \<and> client_body gunzip (w_log (writer c')) = Some (sent_body (w_log (respond as (writer c))))"
proof -
  let ?h = "MetricsHandler m elapsed (AccessLog logs aopts env (responder as))"
  have same: "\<exists>s'. GzipWithOptions compressor opts ?h (s, d) = ((s', snd (fst (GzipWithOptions compressor opts (responder as) (s, d)))), Returned)"
    for d :: "'h Context"
    by (rule gzip_same_answers [where f = "\<lambda>c. SetWriter (respond as (writer c)) c"]) (simp_all add: logged_answer responder_def)
  from gzip_transparent [where compressor = compressor and opts = opts and c = c and s = s, OF codec ans fresh] obtain w where
    w: "GzipWithOptions compressor opts (responder as) (s, c) = ((s, SetWriter w c), Returned)"
      "sent_status (w_log w) = sent_status (w_log (respond as (writer c)))"
      "client_body gunzip (w_log w) = Some (sent_body (w_log (respond as (writer c))))" by blast
  have alone: "alone compressor opts as s = w" by (simp add: alone_def w(1) SetWriter_def)
  show ?thesis
  proof (cases "timeout > 0")
    case False
    with same [of c] w alone show ?thesis by (auto simp: TimeoutWithOptions_def SetWriter_def)
  next
    case True
    let ?t = "\<lparr>tw_before = k, tw_cancelled = False, timedOut = False, wroteHeader = False\<rparr>"
    have "in_time (length (w_log w)) ?t" using time [OF True] alone by (simp add: in_time_def)
    from gzip_behind [OF fresh(1) refl _ this, of compressor opts as s] fresh(2) w(1) obtain t' where
      t': "GzipWithOptions compressor opts (responder as) (s, SetWriter (behind ?t (writer c)) c) = ((s, SetWriter (behind t' w) c), Returned)"
        "in_time 0 t'" "w_stack w = []" by (auto simp: SetWriter_def)
    have push: "push_wrapper (TimeoutW ?t) (writer c) = behind ?t (writer c)" using fresh(1) by (simp add: push_wrapper_def behind_def)
    obtain s' where run: "GzipWithOptions compressor opts ?h (s, SetWriter (behind ?t (writer c)) c) = ((s', SetWriter (behind t' w) c), Returned)"
      using same [of "SetWriter (behind ?t (writer c)) c"] t'(1) by auto
    have restore: "restore_writer 0 (behind t' w) = w" using t'(3) by (cases w) (simp add: restore_writer_def behind_def)
    have set: "writer (SetWriter v c) = v" "SetWriter u (SetWriter v c) = SetWriter u c" for u v by (simp_all add: SetWriter_def)
    have "TimeoutWithOptions timeout message k marshal now (GzipWithOptions compressor opts ?h) (s, c) = ((s', SetWriter w c), Returned)"
      using True fresh(1) t'(2,3)
      by (simp add: TimeoutWithOptions_def Let_def push run restore set base_index_def in_time_def)
    with w alone show ?thesis by (auto simp: SetWriter_def)
  qed
qed

text \<open>An answer in two pieces, with a deadline after nine calls.\<close>

theorem stacked_writers_transparent_witness:
  "\<exists>s' c'. TimeoutWithOptions 5 [] 9 (\<lambda>_. None) 17
      (GzipWithOptions demo_emit \<lparr>MinSize = 0, Level = 5\<rparr>
        (MetricsHandler \<lparr>deref = snd, assign = (\<lambda>m (l, _). (l, m))\<rparr> 5
          (AccessLog \<lparr>deref = fst, assign = (\<lambda>l (_, m). (l, m))\<rparr>
            \<lparr>LogSuccess = True, SampleRate = 0, RedactKeys = [], SlowThreshold = 0, HeaderKeys = []\<rparr>
            \<lparr>env_elapsed = 5, env_duration = ''5ns'', env_sample = 0, env_parse_ip = (\<lambda>_. None)\<rparr>
            (responder demo_answer)))) (([], NewMetrics False), gzip_request) = ((s', c'), Returned)
    \<and> sent_status (w_log (writer c')) = 201 \<and> client_body demo_gunzip (w_log (writer c')) = Some ''hello''"
proof -
  have w: "w_stack (writer gzip_request) = []" "w_log (writer gzip_request) = []"
    "hindex (w_header (writer gzip_request)) key_content_encoding = []"
    by (simp_all add: gzip_request_def NewContext_def hindex_def)
  have plain: "sent_status (w_log (respond demo_answer (writer gzip_request))) = 201"
    "sent_body (w_log (respond demo_answer (writer gzip_request))) = ''hello''" by code_simp+
  have "length (w_log (writer (snd (fst (GzipWithOptions demo_emit \<lparr>MinSize = 0, Level = 5\<rparr> (responder demo_answer) ((), gzip_request)))))) \<le> 9"
    by code_simp
  moreover have "writer (snd (fst (GzipWithOptions demo_emit \<lparr>MinSize = 0, Level = 5\<rparr> (responder demo_answer) (s, gzip_request))))
      = writer (snd (fst (GzipWithOptions demo_emit \<lparr>MinSize = 0, Level = 5\<rparr> (responder demo_answer) ((), gzip_request))))" for s :: "log_entry list \<times> Metrics"
    by (simp add: GzipWithOptions_def responder_def Let_def SetWriter_def split: wrapper.split)
  ultimately have time: "length (w_log (writer (snd (fst (GzipWithOptions demo_emit \<lparr>MinSize = 0, Level = 5\<rparr> (responder demo_answer)
      (([], NewMetrics False) :: log_entry list \<times> Metrics, gzip_request)))))) \<le> 9" by simp
  from stacked_writers_transparent [where compressor = demo_emit and opts = "\<lparr>MinSize = 0, Level = 5\<rparr>" and s = "([], NewMetrics False)"
      and timeout = 5 and k = 9, OF demo_codec demo_answer_ok w time]
  show ?thesis unfolding plain by blast
qed

end
