(* ===== verification/SyncMaps.thy ===== *)
theory SyncMaps
  imports Metrics
begin

text \<open>
  Counters and pools that are made on first use: \<open>routeStat\<close> and \<open>groupStat\<close> of
  \<open>middleware/metrics.go\<close> and \<open>gzipPoolForLevel\<close> of \<open>middleware/gzip.go\<close> look a key up in a
  \<open>sync.Map\<close>, make a new object when it is missing, and call \<open>LoadOrStore\<close>, because another
  goroutine may have stored one in between. The map holds pointers into a heap of objects; the
  goroutines interleave between any two operations. What they do together is what the same
  operations do on a map of values.
\<close>

subsection \<open>The map and its objects\<close>

record ('k, 'v) sync_map =
  sm_table :: "('k, nat) gomap"
  sm_heap :: "'v list"

definition Load :: "'k \<Rightarrow> ('k, 'v) sync_map \<Rightarrow> nat option" where
  "Load k m = map_of (sm_table m) k"

definition LoadOrStore :: "'k \<Rightarrow> nat \<Rightarrow> ('k, 'v) sync_map \<Rightarrow> nat \<times> ('k, 'v) sync_map" where
  "LoadOrStore k a m =
     (case map_of (sm_table m) k of Some b \<Rightarrow> (b, m) | None \<Rightarrow> (a, m\<lparr>sm_table := AList.update k a (sm_table m)\<rparr>))"

definition alloc :: "'v \<Rightarrow> ('k, 'v) sync_map \<Rightarrow> nat \<times> ('k, 'v) sync_map" where
  "alloc v m = (length (sm_heap m), m\<lparr>sm_heap := sm_heap m @ [v]\<rparr>)"

definition store_new :: "('k \<Rightarrow> 'v) \<Rightarrow> 'k \<Rightarrow> ('k, 'v) sync_map \<Rightarrow> nat \<times> ('k, 'v) sync_map" where
  "store_new fresh k m = (case alloc (fresh k) m of (a, m1) \<Rightarrow> LoadOrStore k a m1)"

text \<open>Without interference.\<close>

definition find_or_make :: "('k \<Rightarrow> 'v) \<Rightarrow> 'k \<Rightarrow> ('k, 'v) sync_map \<Rightarrow> nat \<times> ('k, 'v) sync_map" where
  "find_or_make fresh k m = (case Load k m of Some a \<Rightarrow> (a, m) | None \<Rightarrow> store_new fresh k m)"

definition routeStat_of :: "string \<Rightarrow> (string, routeStat) sync_map \<Rightarrow> nat \<times> (string, routeStat) sync_map" where
  "routeStat_of = find_or_make (\<lambda>_. new_stat)"

definition groupStat_of :: "string \<Rightarrow> (string, routeStat) sync_map \<Rightarrow> nat \<times> (string, routeStat) sync_map" where
  "groupStat_of = find_or_make (\<lambda>_. new_stat)"

text \<open>A \<open>sync.Pool\<close> of compressors, each given by the level it was made with: those that lie idle
  and those that requests have taken. \<open>Get\<close> may take any idle one, or make one of the level the
  closure \<open>New\<close> was made for.\<close>

record writer_pool =
  new_level :: int
  idle :: "int list"
  taken :: "int list"

datatype pool_op = PoolGet nat | PoolPut nat

definition new_pool :: "int \<Rightarrow> writer_pool" where
  "new_pool level = \<lparr>new_level = level, idle = [], taken = []\<rparr>"

fun pool_step :: "pool_op \<Rightarrow> writer_pool \<Rightarrow> writer_pool" where
  "pool_step (PoolGet i) p =
     (if i < length (idle p)
      then p\<lparr>idle := take i (idle p) @ drop (Suc i) (idle p), taken := taken p @ [idle p ! i]\<rparr>
      else p\<lparr>taken := taken p @ [new_level p]\<rparr>)"
| "pool_step (PoolPut i) p =
     (if i < length (taken p)
      then p\<lparr>taken := take i (taken p) @ drop (Suc i) (taken p), idle := idle p @ [taken p ! i]\<rparr>
      else p)"

definition gzipPoolForLevel :: "int \<Rightarrow> (int, writer_pool) sync_map \<Rightarrow> nat \<times> (int, writer_pool) sync_map" where
  "gzipPoolForLevel = find_or_make new_pool"

subsection \<open>Many users\<close>

text \<open>A goroutine that wants an object to do operations on it, has missed it in the map, or has its
  pointer and the operations left. The third part of the state is the history of all operations.\<close>

datatype ('k, 'o) user = Wanting 'k "'o list" | Missed 'k "'o list" | Holding 'k nat "'o list"

inductive user_step ::
    "('k \<Rightarrow> 'v) \<Rightarrow> ('o \<Rightarrow> 'v \<Rightarrow> 'v) \<Rightarrow> ('k, 'v) sync_map \<times> ('k, 'o) user list \<times> ('k \<times> 'o) list
      \<Rightarrow> ('k, 'v) sync_map \<times> ('k, 'o) user list \<times> ('k \<times> 'o) list \<Rightarrow> bool"
  for fresh run where
  hit: "i < length us \<Longrightarrow> us ! i = Wanting k ops \<Longrightarrow> Load k m = Some a \<Longrightarrow>
    user_step fresh run (m, us, log) (m, us[i := Holding k a ops], log)"
| miss: "i < length us \<Longrightarrow> us ! i = Wanting k ops \<Longrightarrow> Load k m = None \<Longrightarrow>
    user_step fresh run (m, us, log) (m, us[i := Missed k ops], log)"
| store: "i < length us \<Longrightarrow> us ! i = Missed k ops \<Longrightarrow> store_new fresh k m = (a, m') \<Longrightarrow>
    user_step fresh run (m, us, log) (m', us[i := Holding k a ops], log)"
| operate: "i < length us \<Longrightarrow> us ! i = Holding k a (op # ops) \<Longrightarrow>
    user_step fresh run (m, us, log)
      (m\<lparr>sm_heap := (sm_heap m)[a := run op (sm_heap m ! a)]\<rparr>, us[i := Holding k a ops], log @ [(k, op)])"

definition no_objects :: "('k, 'v) sync_map" where
  "no_objects = \<lparr>sm_table = [], sm_heap = []\<rparr>"

definition arrivals :: "('k \<times> 'o list) list \<Rightarrow> ('k, 'o) user list" where
  "arrivals reqs = map (\<lambda>(k, ops). Wanting k ops) reqs"

text \<open>The value of a key, and what the operations of a history give it.\<close>

definition value_at :: "('k \<Rightarrow> 'v) \<Rightarrow> ('k, 'v) sync_map \<Rightarrow> 'k \<Rightarrow> 'v" where
  "value_at fresh m k = (case Load k m of None \<Rightarrow> fresh k | Some a \<Rightarrow> sm_heap m ! a)"

definition replay :: "('k \<Rightarrow> 'v) \<Rightarrow> ('o \<Rightarrow> 'v \<Rightarrow> 'v) \<Rightarrow> ('k \<times> 'o) list \<Rightarrow> 'k \<Rightarrow> 'v" where
  "replay fresh run log k = fold (\<lambda>(k', op) v. if k' = k then run op v else v) log (fresh k)"

lemma replay_simps [simp]:
  "replay fresh run [] k = fresh k"
  "replay fresh run (log @ [(k', op)]) k = (if k' = k then run op (replay fresh run log k) else replay fresh run log k)"
  by (simp_all add: replay_def)

fun owed :: "('k, 'o) user \<Rightarrow> ('k \<times> 'o) list" where
  "owed (Wanting k ops) = map (Pair k) ops"
| "owed (Missed k ops) = map (Pair k) ops"
| "owed (Holding k a ops) = map (Pair k) ops"

fun holds :: "('k, 'v) sync_map \<Rightarrow> ('k, 'o) user \<Rightarrow> bool" where
  "holds m (Holding k a ops) = (Load k m = Some a)"
| "holds m _ = True"

definition table_ok :: "('k, 'v) sync_map \<Rightarrow> bool" where
  "table_ok m \<longleftrightarrow> (\<forall>k a. Load k m = Some a \<longrightarrow> a < length (sm_heap m))
     \<and> (\<forall>k k' a. Load k m = Some a \<longrightarrow> Load k' m = Some a \<longrightarrow> k = k')"

subsection \<open>Operations are not lost\<close>

definition user_inv ::
    "('k \<Rightarrow> 'v) \<Rightarrow> ('o \<Rightarrow> 'v \<Rightarrow> 'v) \<Rightarrow> ('k \<times> 'o) multiset
      \<Rightarrow> ('k, 'v) sync_map \<times> ('k, 'o) user list \<times> ('k \<times> 'o) list \<Rightarrow> bool" where
  "user_inv fresh run all s \<longleftrightarrow> (case s of (m, us, log) \<Rightarrow>
     table_ok m \<and> list_all (holds m) us \<and> (\<forall>k. value_at fresh m k = replay fresh run log k)
     \<and> mset log + mset (concat (map owed us)) = all)"

lemma owed_update:
  "i < length us \<Longrightarrow> owed (us ! i) = xs @ owed u \<Longrightarrow>
   mset (concat (map owed us)) = mset xs + mset (concat (map owed (us[i := u])))"
proof (induction us arbitrary: i)
  case (Cons v us)
  then show ?case by (cases i) auto
qed simp

lemma holds_update: "list_all P us \<Longrightarrow> P u \<Longrightarrow> list_all P (us[i := u])"
  using set_update_subset_insert [of us i u] by (auto simp: list_all_iff)

lemma list_all_nthD: "list_all P us \<Longrightarrow> i < length us \<Longrightarrow> P (us ! i)"
  by (simp add: list_all_length)

text \<open>Making an object changes no value, and gives the same pointer to everybody.\<close>

lemma store_new_ok:
  assumes "store_new fresh k m = (a, m')" "table_ok m"
  shows "table_ok m' \<and> Load k m' = Some a \<and> (holds m u \<longrightarrow> holds m' u) \<and> value_at fresh m' k' = value_at fresh m k'"
proof (cases "Load k m")
  case None
  with assms(1) have m': "m' = \<lparr>sm_table = AList.update k (length (sm_heap m)) (sm_table m), sm_heap = sm_heap m @ [fresh k]\<rparr>"
    and a: "a = length (sm_heap m)"
    by (cases m; auto simp: store_new_def alloc_def LoadOrStore_def Load_def)+
  have load: "Load j m' = (if j = k then Some (length (sm_heap m)) else Load j m)" for j
    by (simp add: m' Load_def)
  have heap: "sm_heap m' = sm_heap m @ [fresh k]" by (simp add: m')
  have small: "Load j m = Some b \<Longrightarrow> b < length (sm_heap m)" for j b
    using assms(2) by (simp add: table_ok_def)
  have new: "Load j m \<noteq> Some (length (sm_heap m))" for j using small by blast
  have "table_ok m'"
    using assms(2) new unfolding table_ok_def load by (auto simp: heap less_SucI dest: small split: if_splits)
  moreover have "holds m u \<longrightarrow> holds m' u" using None by (cases u) (auto simp: load)
  moreover have "value_at fresh m' k' = value_at fresh m k'"
    using None small [of k'] by (auto simp: value_at_def load heap nth_append split: option.split)
  ultimately show ?thesis by (simp add: load a)
next
  case (Some b)
  with assms(1) have m': "m' = m\<lparr>sm_heap := sm_heap m @ [fresh k]\<rparr>" "a = b"
    by (auto simp: store_new_def alloc_def LoadOrStore_def Load_def)
  have load: "Load j m' = Load j m" for j by (simp add: m' Load_def)
  have heap: "sm_heap m' = sm_heap m @ [fresh k]" by (simp add: m')
  have small: "Load j m = Some b \<Longrightarrow> b < length (sm_heap m)" for j b
    using assms(2) by (simp add: table_ok_def)
  have "table_ok m'" using assms(2) by (auto simp: table_ok_def load heap less_SucI)
  moreover have "holds m u \<longrightarrow> holds m' u" by (cases u) (auto simp: load)
  moreover have "value_at fresh m' k' = value_at fresh m k'"
    using small [of k'] by (auto simp: value_at_def load heap nth_append split: option.split)
  ultimately show ?thesis using Some by (simp add: load m'(2))
qed

lemma user_step_inv:
  assumes "user_step fresh run s s'" "user_inv fresh run all s"
  shows "user_inv fresh run all s'"
  using assms
proof cases
  case (hit i us k ops m a log)
  then show ?thesis using assms(2) owed_update [of i us "[]" "Holding k a ops"]
    by (auto simp: user_inv_def intro: holds_update)
next
  case (miss i us k ops m log)
  then show ?thesis using assms(2) owed_update [of i us "[]" "Missed k ops"]
    by (auto simp: user_inv_def intro: holds_update)
next
  case (store i us k ops m a m' log)
  with assms(2) have ok: "table_ok m" by (simp add: user_inv_def)
  note new = store_new_ok [OF store(5) ok]
  have "list_all (holds m') us" using assms(2) new by (auto simp: store(1) user_inv_def list_all_iff)
  then have "list_all (holds m') (us[i := Holding k a ops])" by (rule holds_update) (simp add: new)
  then show ?thesis using store assms(2) new owed_update [of i us "[]" "Holding k a ops"]
    by (auto simp: user_inv_def intro: holds_update)
next
  case (operate i us k a op ops m log)
  let ?m = "m\<lparr>sm_heap := (sm_heap m)[a := run op (sm_heap m ! a)]\<rparr>"
  have load: "Load j ?m = Load j m" for j by (simp add: Load_def)
  from operate assms(2) have ok: "table_ok m" "holds m (us ! i)" by (auto simp: user_inv_def dest: list_all_nthD)
  then have at: "Load k m = Some a" "a < length (sm_heap m)" using operate(4) by (auto simp: table_ok_def)
  have other: "Load j m = Some b \<Longrightarrow> j \<noteq> k \<Longrightarrow> b \<noteq> a" for j b using ok(1) at(1) unfolding table_ok_def by blast
  have "table_ok ?m" using ok(1) unfolding table_ok_def load by simp
  moreover have "holds ?m u = holds m u" for u by (cases u) (simp_all add: load)
  then have "list_all (holds ?m) (us[i := Holding k a ops])"
    using operate assms(2) at by (intro holds_update) (auto simp: user_inv_def list_all_iff load)
  moreover have "value_at fresh ?m j = (if j = k then run op (value_at fresh m j) else value_at fresh m j)" for j
    using at other [of j] by (auto simp: value_at_def load split: option.split)
  ultimately show ?thesis using operate assms(2) owed_update [of i us "[(k, op)]" "Holding k a ops"] at
    by (auto simp: user_inv_def load intro: holds_update)
qed

lemma user_inv_start: "user_inv fresh run (mset (concat (map (\<lambda>(k, ops). map (Pair k) ops) reqs))) (no_objects, arrivals reqs, [])"
proof -
  have "map owed (arrivals reqs) = map (\<lambda>(k, ops). map (Pair k) ops) reqs" by (auto simp: arrivals_def split: prod.split)
  then show ?thesis
    by (simp add: user_inv_def no_objects_def table_ok_def Load_def value_at_def) (auto simp: arrivals_def list_all_iff)
qed

definition served :: "('k, 'o) user \<Rightarrow> bool" where
  "served u \<longleftrightarrow> owed u = []"

text \<open>However the goroutines interleave, racing to make the object of a key, there is one object for
  it, and the operations done so far have had their effect on it, one after the other; when all
  are done, each has been done exactly once.\<close>

lemma sync_map_exact:
  assumes "(user_step fresh run)\<^sup>*\<^sup>* (no_objects, arrivals reqs, []) (m, us, log)"
  shows "value_at fresh m k = replay fresh run log k"
    and "list_all served us \<Longrightarrow> mset log = mset (concat (map (\<lambda>(k, ops). map (Pair k) ops) reqs))"
proof -
  let ?all = "mset (concat (map (\<lambda>(k, ops). map (Pair k) ops) reqs))"
  from assms user_inv_start [of fresh run reqs] have "user_inv fresh run ?all (m, us, log)"
    by (induction rule: rtranclp_induct) (auto intro: user_step_inv)
  then have inv: "value_at fresh m k = replay fresh run log k" "mset log + mset (concat (map owed us)) = ?all"
    by (simp_all add: user_inv_def)
  show "value_at fresh m k = replay fresh run log k" by (rule inv)
  show "mset log = ?all" if all: "list_all served us"
  proof -
    have "concat (map owed us) = []" using all by (simp add: list_all_iff served_def)
    with inv(2) show ?thesis by simp
  qed
qed

subsection \<open>Route counters\<close>

text \<open>The operations on the counters of a route: a field and what is added to it.\<close>

fun stat_run :: "stat_field \<times> 64 word \<Rightarrow> routeStat \<Rightarrow> routeStat" where
  "stat_run (f, d) s = stat_add f d s"

definition route_adds :: "(string \<times> stat_field \<times> 64 word) list \<Rightarrow> metric_op list" where
  "route_adds = map (\<lambda>(r, f, d). Add (RouteCounter r f) d)"

lemma run_ops_snoc: "run_ops (ops @ [op]) m = apply_metric_op op (run_ops ops m)"
  by (simp add: run_ops_def)

lemma route_replay:
  "stat_of (m_routes (run_ops (route_adds log) (NewMetrics b))) r = replay (\<lambda>_. new_stat) stat_run log r"
proof (induction log rule: rev_induct)
  case Nil
  then show ?case by (simp add: run_ops_def route_adds_def NewMetrics_def stat_of_def)
next
  case (snoc x log)
  then show ?case by (cases x) (auto simp: route_adds_def run_ops_snoc)
qed

text \<open>C26. The counters of a route are exact although they are made on first use by requests that race
  for it: however requests interleave their lookups, \<open>LoadOrStore\<close> calls and atomic additions, every
  route has at every moment the counters that the additions made so far give it in the map of
  \<open>Metrics\<close>, where nothing races; and when all requests are done, these are the additions of all
  requests, each made once.\<close>

theorem route_counters_exact:
  assumes "(user_step (\<lambda>_. new_stat) stat_run)\<^sup>*\<^sup>* (no_objects, arrivals reqs, []) (m, us, log)"
  shows "value_at (\<lambda>_. new_stat) m r = stat_of (m_routes (run_ops (route_adds log) (NewMetrics b))) r
    \<and> (list_all served us \<longrightarrow> mset log = mset (concat (map (\<lambda>(r, ops). map (Pair r) ops) reqs)))"
  using sync_map_exact [OF assms] by (simp add: route_replay)

text \<open>Two requests for one route, both of which find no counters and make some.\<close>

definition demo_reqs :: "(string \<times> (stat_field \<times> 64 word) list) list" where
  "demo_reqs = [(''/a'', [(StatRequests, 1)]), (''/a'', [(StatRequests, 1)])]"

lemma demo_both_make:
  "\<exists>m us. (user_step (\<lambda>_. new_stat) stat_run)\<^sup>*\<^sup>* (no_objects, arrivals demo_reqs, []) (m, us, [(''/a'', StatRequests, 1), (''/a'', StatRequests, 1)])
     \<and> length (sm_heap m) = 2 \<and> list_all served us"
proof -
  let ?step = "user_step (\<lambda>_ :: string. new_stat) stat_run" and ?ops = "[(StatRequests, 1 :: 64 word)]" and ?op = "(''/a'', StatRequests, 1 :: 64 word)"
  let ?m0 = "no_objects :: (string, routeStat) sync_map"
  let ?m1 = "\<lparr>sm_table = [(''/a'', 0)], sm_heap = [new_stat]\<rparr>" and ?m2 = "\<lparr>sm_table = [(''/a'', 0)], sm_heap = [new_stat, new_stat]\<rparr>"
  let ?s1 = "stat_add StatRequests 1 new_stat"
  let ?m3 = "\<lparr>sm_table = [(''/a'', 0)], sm_heap = [?s1, new_stat]\<rparr>" and ?m4 = "\<lparr>sm_table = [(''/a'', 0)], sm_heap = [stat_add StatRequests 1 ?s1, new_stat]\<rparr>"
  note defs = no_objects_def store_new_def alloc_def LoadOrStore_def Load_def
  have "?step (?m0, [Wanting ''/a'' ?ops, Wanting ''/a'' ?ops], []) (?m0, [Missed ''/a'' ?ops, Wanting ''/a'' ?ops], [])"
    using miss [of 0 "[Wanting ''/a'' ?ops, Wanting ''/a'' ?ops]" "''/a''" ?ops ?m0 "\<lambda>_. new_stat" stat_run "[]"] by (simp add: defs)
  moreover have "?step (?m0, [Missed ''/a'' ?ops, Wanting ''/a'' ?ops], []) (?m0, [Missed ''/a'' ?ops, Missed ''/a'' ?ops], [])"
    using miss [of 1 "[Missed ''/a'' ?ops, Wanting ''/a'' ?ops]" "''/a''" ?ops ?m0 "\<lambda>_. new_stat" stat_run "[]"] by (simp add: defs)
  moreover have "?step (?m0, [Missed ''/a'' ?ops, Missed ''/a'' ?ops], []) (?m1, [Holding ''/a'' 0 ?ops, Missed ''/a'' ?ops], [])"
    using store [of 0 "[Missed ''/a'' ?ops, Missed ''/a'' ?ops]" "''/a''" ?ops "\<lambda>_. new_stat" ?m0 0 ?m1 stat_run "[]"] by (simp add: defs)
  moreover have "?step (?m1, [Holding ''/a'' 0 ?ops, Missed ''/a'' ?ops], []) (?m2, [Holding ''/a'' 0 ?ops, Holding ''/a'' 0 ?ops], [])"
    using store [of 1 "[Holding ''/a'' 0 ?ops, Missed ''/a'' ?ops]" "''/a''" ?ops "\<lambda>_. new_stat" ?m1 0 ?m2 stat_run "[]"] by (simp add: defs)
  moreover have "?step (?m2, [Holding ''/a'' 0 ?ops, Holding ''/a'' 0 ?ops], []) (?m3, [Holding ''/a'' 0 [], Holding ''/a'' 0 ?ops], [?op])"
    using operate [of 0 "[Holding ''/a'' 0 ?ops, Holding ''/a'' 0 ?ops]" "''/a''" 0 "(StatRequests, 1)" "[]" "\<lambda>_. new_stat" stat_run ?m2 "[]"] by simp
  moreover have "?step (?m3, [Holding ''/a'' 0 [], Holding ''/a'' 0 ?ops], [?op]) (?m4, [Holding ''/a'' 0 [], Holding ''/a'' 0 []], [?op, ?op])"
    using operate [of 1 "[Holding ''/a'' 0 [], Holding ''/a'' 0 ?ops]" "''/a''" 0 "(StatRequests, 1)" "[]" "\<lambda>_. new_stat" stat_run ?m3 "[?op]"] by simp
  ultimately have "?step\<^sup>*\<^sup>* (?m0, arrivals demo_reqs, []) (?m4, [Holding ''/a'' 0 [], Holding ''/a'' 0 []], [?op, ?op])"
    by (simp add: arrivals_def demo_reqs_def)
  then show ?thesis
    by (intro exI [of _ ?m4] exI [of _ "[Holding ''/a'' 0 [], Holding ''/a'' 0 []]"]) (simp add: served_def)
qed

theorem route_counters_exact_witness:
  "\<exists>m us log. (user_step (\<lambda>_. new_stat) stat_run)\<^sup>*\<^sup>* (no_objects, arrivals demo_reqs, []) (m, us, log)
     \<and> length (sm_heap m) = 2 \<and> rs_requests (value_at (\<lambda>_. new_stat) m ''/a'') = 2"
proof -
  obtain m us where run: "(user_step (\<lambda>_. new_stat) stat_run)\<^sup>*\<^sup>* (no_objects, arrivals demo_reqs, []) (m, us, [(''/a'', StatRequests, 1), (''/a'', StatRequests, 1)])"
    and two: "length (sm_heap m) = 2" using demo_both_make by blast
  from route_counters_exact [OF run, of "''/a''" True] have "rs_requests (value_at (\<lambda>_. new_stat) m ''/a'') = 2"
    by (simp add: route_replay replay_def new_stat_def)
  with run two show ?thesis by blast
qed

subsection \<open>Compressors\<close>

text \<open>Every compressor a request takes has the level of its options, whoever made it and whoever used
  it before, although the pools are made on first use by requests that race for them.\<close>

definition levelled :: "int \<Rightarrow> writer_pool \<Rightarrow> bool" where
  "levelled level p \<longleftrightarrow> new_level p = level \<and> set (idle p) \<subseteq> {level} \<and> set (taken p) \<subseteq> {level}"

lemma nth_only: "set xs \<subseteq> {x} \<Longrightarrow> i < length xs \<Longrightarrow> xs ! i = x"
  using nth_mem by blast

lemma pool_step_levelled: "levelled level p \<Longrightarrow> levelled level (pool_step op p)"
  by (cases op) (auto simp: levelled_def nth_only dest!: in_set_takeD in_set_dropD)

lemma replay_invariant:
  assumes "P (fresh k)" "\<And>op v. P v \<Longrightarrow> P (run op v)"
  shows "P (replay fresh run log k)"
  by (induction log rule: rev_induct) (auto simp: assms)

theorem compressors_have_their_level:
  assumes "(user_step new_pool pool_step)\<^sup>*\<^sup>* (no_objects, arrivals reqs, []) (m, us, log)"
  shows "levelled level (value_at new_pool m level)"
  unfolding sync_map_exact(1) [OF assms]
  by (rule replay_invariant) (simp_all add: new_pool_def levelled_def pool_step_levelled [unfolded levelled_def])

end
