(* ===== verification/Spec2Isabelle.thy ===== *)
theory Spec2Isabelle
  imports Serving HeaderKeys Examples Proxy RequestValues FormBinding AccessLogging Isolation Refusals Stacks SyncMaps
begin

text \<open>
  \<^bold>\<open>A verification library of webx\<close>, the HTTP framework under \<open>src/\<close>: routing, request contexts and
  handler chains, standardized responses, middlewares, configuration, start and shutdown of the
  server. The definitions are translated from the Go files; the theorems say what the parts
  promise and how they work together. Numbers \<open>C1\<close>, \<open>C2\<close>, ... mark the main properties.

  \<^bold>\<open>The program.\<close> A \<open>Server\<close> is configured by chained setters, then \<open>Start\<close> validates the
  configuration, registers the built-in middlewares, mounts routes, static trees and health probes
  in a radix tree, opens listeners and serves. A request gets a pooled \<open>Context\<close>
  (\<open>injectContext\<close>), passes the chain of middlewares that \<open>Manager.Build\<close> gives, is looked up in
  the tree, and runs the chain of handlers of its route, its fallback or a file server. \<open>Stop\<close> or a
  signal shuts everything down, once.

  \<^bold>\<open>Foundations.\<close>
  \<^item> \<open>Prelude\<close>: Go strings, \<open>strings\<close>, Go maps as association lists, 64-bit arithmetic.
  \<^item> \<open>GoText\<close>: decimal and hexadecimal texts with their readers; \<open>Messages\<close>: the Chinese texts
    as UTF-8 bytes.
  \<^item> \<open>HttpWriter\<close>: headers, requests, addresses of \<open>net/http\<close> and \<open>net\<close>; \<open>ResponseWriters\<close>: a
    connection as the log of the calls that reach it, and the writers of \<open>middleware/timeout.go\<close>,
    \<open>gzip.go\<close> and \<open>accesslog.go\<close> stacked in front of it, each a state machine over calls.
  \<^item> \<open>Pointers\<close>: pointers into the shared state; the locale \<open>pointer\<close> has the laws of one, the
    locale \<open>separate_pointers\<close> those of two that do not alias, interpreted on the parts of the
    state of a server in \<open>Pipeline\<close>.

  \<^bold>\<open>Routing\<close> (\<open>router.go\<close>).
  \<^item> \<open>RoutePattern\<close>: \<open>translateGinPattern\<close>, \<open>parsePattern\<close>, \<open>nextSegment\<close>; patterns print and
    parse back.
  \<^item> \<open>RouteTree\<close>: \<open>routeNode\<close> and \<open>insert\<close>; insertion keeps the tree well formed and is an update
    of the table the tree stands for.
  \<^item> \<open>RouteLookup\<close>: the loop of \<open>lookup\<close>, refined to a match on segments, sound and complete:
    \<open>unshadowed\<close> says when nothing else in the tree is preferred to a pattern, its wildcard included.
  \<^item> \<open>RouterServe\<close>: \<open>Handle\<close>, \<open>HandleStaticWithOptions\<close>, the decision of \<open>ServeHTTP\<close>; what is
    registered is served and stays served, for every pattern with a segment. A pattern without one, like
    \<open>/\<close>, is registered at the root and never found. \<open>RouteGroups\<close>: \<open>route.go\<close>, groups as objects in
    a store; the routes are compared with \<open>declared\<close>, which reads prefixes and middlewares off the calls.

  \<^bold>\<open>Requests\<close> (\<open>internal/core\<close>).
  \<^item> \<open>ReqContext\<close> and \<open>RequestValues\<close>: the operations of \<open>Context\<close>, pooling, client addresses,
    cookies. \<open>Response\<close>: the envelope encoder, whose output can be read back.
  \<^item> \<open>HandlerChain\<close>: handlers as programs over the context, \<open>Run\<close> and \<open>Next\<close> with their mutable
    index, refined to a semantics in which each handler wraps the ones behind it. A handler reads
    the context with \<open>Test\<close> and \<open>OpWith\<close>, which see a snapshot of it (\<open>view\<close>). Its operations include
    \<open>File\<close>, \<open>ResetWriteState\<close>, \<open>SetWriter\<close> and what can be done with \<open>Writer()\<close>, with which a chain can
    send two statuses (\<open>file_after_answer\<close>); the static check \<open>answers_once\<close> accepts the chains that
    cannot.
  \<^item> \<open>FormBinding\<close>: \<open>form.go\<close>; struct types, values and tags as data. Binding terminates on
    recursive types, keeps values in their types and writes a field only what its tag calls for.

  \<^bold>\<open>Middlewares\<close> (\<open>middleware/\<close>).
  \<^item> \<open>MiddlewareManager\<close>: which run, in which order. \<open>Concurrency\<close> and \<open>RateLimiting\<close>: the two
    limiters, interpretations of one locale \<open>admission\<close>; the atomic operations of the first
    interleave in a step relation, the second is refined to a bucket per key.
  \<^item> \<open>Middlewares\<close>: CORS, security headers, validation, body limit, request id, hooks, recovery,
    timeout and gzip as functions on handlers. \<open>Delivery\<close>: what the client gets behind them.
    \<open>HeaderKeys\<close>: the canonical header keys the middlewares have written out.
  \<^item> \<open>Metrics\<close>: counters as lists of atomic operations, whose order does not matter.
    \<open>AccessLogging\<close>: the log line, its redaction, and that logging does not change the answer; which
    entries there are and what they say is stated from the options and the request.
  \<^item> \<open>Stacks\<close>: the writers of the server on top of each other, deadline, compressor, counters and
    access log; together they still hand on the answer of the handler. \<open>SyncMaps\<close>: counters of
    routes and groups and pools of compressors, made on first use by requests that race for them in
    a \<open>sync.Map\<close> of pointers; a step relation over its operations, refined to a map of values.

  \<^bold>\<open>The server\<close> (\<open>server.go\<close> and the files around it).
  \<^item> \<open>ConfigValidate\<close>: \<open>config.go\<close>. \<open>ServerConfig\<close>: the setters. \<open>ServerStart\<close>: \<open>Start\<close> up to the
    listeners. \<open>Listeners\<close>: \<open>listener.go\<close>, the certificates of \<open>buildGetCertificate\<close>, the platform
    files. \<open>Serving\<close>: the sockets \<open>Start\<close> opens, with their TLS configuration, and what it takes
    back when one of them fails; the loop that accepts QUIC connections.
  \<^item> \<open>Pipeline\<close>: the middlewares with the options \<open>registerBuiltinMiddleware\<close> gives them, the
    router as a handler, and one request through both; slots and gauges are given back and panics
    stay inside, for all chains and handlers. \<open>StaticFiles\<close>: \<open>static.go\<close>. \<open>Health\<close>: \<open>health.go\<close>,
    and \<open>Probes\<close>: its handlers as programs of the chain, mounted by \<open>Start\<close>.
    \<open>ServerMetrics\<close>: \<open>metrics.go\<close>; every field of a snapshot against a count of the requests.
  \<^item> \<open>Lifecycle\<close>: \<open>graceful.go\<close> and the goroutines of \<open>Start\<close>, \<open>Stop\<close> and \<open>waitSignal\<close> as a step
    relation; one shutdown at most, and \<open>Stop\<close> gets everything done. The goroutines that serve may
    also fail by themselves; \<open>Start\<close> returns when none is left, before the shutdown is through.
  \<^item> \<open>Brackets\<close>: each middleware cut in two, what it does before the handler behind it and what it
    does after; the two halves put together are the middleware of the source. \<open>Interleaving\<close>: many
    requests at once on one shared state, each a machine that goes down its chain and back, with
    contexts taken from the pool and returned to it; the gauges are exact in every state, and every
    schedule serves all requests. \<open>Isolation\<close>: the response to a request under any interleaving is
    one the server gives to this request alone. \<open>Refusals\<close>: what the client of a refused request
    reads.
  \<^item> \<open>Proxy\<close>: \<open>proxy/proxy.go\<close>, \<open>pprof/pprof.go\<close> and the codes of \<open>errors.go\<close>. \<open>Examples\<close>: the
    programs under \<open>examples/\<close> run on the model, up to the servers they start.

  \<^bold>\<open>Correspondence.\<close> A struct is a record with its fields, a Go map an association list (its order is
  only observed after a sort), a Go string a list of bytes. Errors and early returns are values of
  sums and options; a panic is the ending \<open>Panicked\<close>. An \<open>http.Handler\<close> is a function on the state
  shared by the requests and the context of the request, because the middlewares keep the writer
  and the request of the context equal to the ones they pass on. \<open>int\<close>, \<open>int64\<close> and durations are
  integers, wrapped with \<open>wrap64\<close> where they can overflow; the atomic counters are 64-bit words.

  \<^bold>\<open>Bounds and fuel.\<close> A chain of handlers runs with fuel twice its length; \<open>chain_terminates\<close> shows
  that it always ends with it. Binding runs with the number of struct types plus one;
  \<open>bind_returns\<close> shows that it never runs out. The readers of entity tags and uptimes take a bound
  on the number of their rounds, each of which takes a byte at least. The deadline of the timeout
  middleware is the number of calls on the writer that come before it. A run of the life of a
  server has at most \<open>run_bound\<close> steps. A request goes through a chain of middlewares in twice the
  length of the chain plus one steps, and a load of requests is served in twice the length plus
  three steps for each.

  \<^bold>\<open>Assumptions.\<close> The environment is an argument everywhere: clocks, random numbers, \<open>json.Marshal\<close>,
  \<open>compress/gzip\<close>, \<open>net.ParseIP\<close>, token buckets of \<open>resiliencex\<close>, \<open>validx\<close>, \<open>errx\<close>, \<open>logx\<close>, file
  systems, sockets, certificates, \<open>httputil\<close>. What a theorem needs of one is a named definition in
  its premises: \<open>codec_ok\<close> (what is compressed can be decompressed), \<open>times_tell\<close> (changed files
  have changed times), \<open>os_lawful\<close> (listening opens one listener), \<open>net_lawful\<close> and
  \<open>servers_lawful\<close> (opening a socket adds it to the open ones; closing a server takes away sockets it
  serves and no others), \<open>balanced\<close> (a middleware of the
  user keeps the balance of the handler behind it), \<open>bracketed\<close> (it works before and after that
  handler, calling it once at most), \<open>neutral\<close> and \<open>isolated\<close> (it does not use the limiters and
  counters of the server, and file systems are read only), \<open>sole\<close> (no key twice in the order of the
  middlewares). The functions of the user that the server calls by itself return and do not panic:
  cleanups, shutdown hooks and health checks. The counting writer of the access log adds the
  length of what it is given, since the writers behind it report all bytes as written, also those
  they hold back or drop.

  \<^bold>\<open>Not modelled.\<close> Reading and writing of sockets and the TLS, QUIC and HTTP protocols are library
  and operating system. Hijacked connections and \<open>http.ResponseController\<close> are not modelled: the writers
  have \<open>WriteHeader\<close>, \<open>Write\<close> and \<open>Flush\<close>. Pooled parameter buffers only reuse memory. Benchmarks
  are left out, and the aliases of \<open>aliases.go\<close> name types and functions modelled under their own
  names. Texts of warnings are named by the setter that logs them. \<open>Refusals\<close> reads the answers of
  middlewares that write to the connection itself, not those behind the compressor or a deadline.
\<close>

end
